(* ===== verification/Titan_Prelude.thy ===== *)
theory Titan_Prelude
  imports Complex_Main "HOL-Library.Word" "HOL-Library.Monad_Syntax"
begin

text \<open>
  Shared vocabulary of the development.

  \<^item> The machine types of the C++ sources: \<open>uint8_t\<close>, \<open>uint32_t\<close> and \<open>uint64_t\<close> are words of
    their width; a \<open>Slice\<close>, a \<open>std::string\<close> and an \<open>OwnedSlice\<close> are the list of their bytes.
  \<^item> The \<open>Status\<close> class of RocksDB is the datatype \<open>status\<close>. A function returning a
    \<open>Status\<close> with an out parameter returns \<open>status + 'a\<close>, \<open>Inl\<close> holding the error.
  \<^item> The interfaces of the encodings: \<open>codec\<close> for the \<open>Put\<close>/\<open>Get\<close> pairs of
    \<open>util/coding.h\<close>, \<open>status_codec\<close> for the \<open>EncodeTo\<close>/\<open>DecodeFrom\<close> pairs of the Titan
    classes.
\<close>

section \<open>Machine types\<close>

type_synonym byte = "8 word"
type_synonym u32 = "32 word"
type_synonym u64 = "64 word"
type_synonym bytes = "byte list"

unbundle bit_operations_syntax

named_theorems codec_simps \<open>round trip equations of the encodings\<close>

section \<open>Status\<close>

datatype status =
    OK
  | NotFound string
  | Corruption string
  | NotSupported string
  | InvalidArgument string
  | IOError string
  | Incomplete string
  | ShutdownInProgress string
  | Aborted string
  | Busy string
  | Undefined string

text \<open>
  \<open>Undefined\<close> is no constructor of the C++ class: it marks an execution that reads outside
  its buffer, dereferences a null pointer or fails an assertion. Theorems show where it cannot
  arise.
\<close>

definition status_ok :: "status \<Rightarrow> bool" where
  "status_ok s \<longleftrightarrow> s = OK"

lemma status_ok_simps [simp]:
  "status_ok OK"
  "\<not> status_ok (NotFound m)" "\<not> status_ok (Corruption m)" "\<not> status_ok (NotSupported m)"
  "\<not> status_ok (InvalidArgument m)" "\<not> status_ok (IOError m)" "\<not> status_ok (Incomplete m)"
  "\<not> status_ok (ShutdownInProgress m)" "\<not> status_ok (Aborted m)" "\<not> status_ok (Busy m)"
  "\<not> status_ok (Undefined m)"
  by (simp_all add: status_ok_def)

section \<open>Codecs\<close>

text \<open>
  A \<open>codec\<close> is a \<open>Put\<close> function and the \<open>Get\<close> function that reads its output back from the
  front of a slice. The provider promises the round trip on well-formed values, and that the
  reader consumes a nonempty prefix of what it is given.
\<close>

locale codec =
  fixes enc :: "'a \<Rightarrow> bytes"
    and dec :: "bytes \<Rightarrow> ('a \<times> bytes) option"
    and wf :: "'a \<Rightarrow> bool"
  assumes dec_enc: "wf x \<Longrightarrow> dec (enc x @ rest) = Some (x, rest)"
    and dec_consumes: "dec bs = Some (x, rest) \<Longrightarrow> length rest < length bs"
begin

lemma dec_enc_exact: "wf x \<Longrightarrow> dec (enc x) = Some (x, [])"
  using dec_enc [of x "[]"] by simp

lemma enc_nonempty: "wf x \<Longrightarrow> enc x \<noteq> []"
  using dec_consumes [of "enc x" x "[]"] dec_enc_exact [of x] by auto

lemma enc_prefix_free:
  assumes "wf x" "wf y" "enc x @ r = enc y @ s"
  shows "x = y \<and> r = s"
proof -
  have "Some (x, r) = Some (y, s)"
    using assms(3) dec_enc [OF assms(1), of r] dec_enc [OF assms(2), of s] by metis
  then show ?thesis by simp
qed

lemma enc_inj: "\<lbrakk>wf x; wf y; enc x = enc y\<rbrakk> \<Longrightarrow> x = y"
  using enc_prefix_free [of x y "[]" "[]"] by simp

end

text \<open>
  The same interface for a class with \<open>EncodeTo\<close> and \<open>DecodeFrom\<close>, whose reader reports a
  \<open>Status\<close>.
\<close>

definition ok_option :: "status + 'a \<Rightarrow> 'a option" where
  "ok_option r = (case r of Inl e \<Rightarrow> None | Inr x \<Rightarrow> Some x)"

lemma ok_option_simps [simp]: "ok_option (Inl e) = None" "ok_option (Inr x) = Some x"
  by (simp_all add: ok_option_def)

lemma ok_option_eq_Some [simp]: "ok_option r = Some x \<longleftrightarrow> r = Inr x"
  by (cases r) simp_all

locale status_codec =
  fixes EncodeTo :: "'a \<Rightarrow> bytes"
    and DecodeFrom :: "bytes \<Rightarrow> status + ('a \<times> bytes)"
    and wf :: "'a \<Rightarrow> bool"
  assumes decode_encode: "wf x \<Longrightarrow> DecodeFrom (EncodeTo x @ rest) = Inr (x, rest)"
    and decode_consumes: "DecodeFrom bs = Inr (x, rest) \<Longrightarrow> length rest < length bs"

sublocale status_codec \<subseteq> opt: codec EncodeTo "\<lambda>bs. ok_option (DecodeFrom bs)" wf
  by unfold_locales (simp_all add: decode_encode decode_consumes)

section \<open>Words\<close>

lemma unat_drop_bit_div: "unat (drop_bit n v) = unat v div 2 ^ n"
  unfolding unat_drop_bit_eq by (rule drop_bit_eq_div)

lemma unat_drop_bit_less:
  fixes v :: u64
  assumes "128 \<le> v"
  shows "unat (drop_bit 7 v) < unat v"
  using assms by (simp add: word_le_nat_alt unat_drop_bit_div)

lemma unat_u32_less: "unat (v :: u32) < 2 ^ 32"
proof -
  have "unat v < 2 ^ LENGTH(32)" by (rule unsigned_less)
  then show ?thesis by simp
qed

lemma unat_u64_less: "unat (v :: u64) < 2 ^ 64"
proof -
  have "unat v < 2 ^ LENGTH(64)" by (rule unsigned_less)
  then show ?thesis by simp
qed

lemma unat_ucast_u32_u64 [simp]: "unat (ucast (v :: u32) :: u64) = unat v"
  using unat_u32_less [of v] by (simp add: unsigned_ucast_eq take_bit_nat_eq_self_iff)

lemma unat_of_nat_u32 [simp]: "n < 2 ^ 32 \<Longrightarrow> unat (of_nat n :: u32) = n"
  by (simp add: unat_of_nat take_bit_nat_eq_self_iff)

lemma unat_of_nat_u64 [simp]: "n < 2 ^ 64 \<Longrightarrow> unat (of_nat n :: u64) = n"
  by (simp add: unat_of_nat take_bit_nat_eq_self_iff)

lemma ff_mask: "(0xff :: 'a::len word) = mask 8"
  by (simp add: mask_eq_exp_minus_1)

lemma unat_and_ff: "unat ((x :: 'a::len word) AND 0xff) < 256"
proof -
  have "x AND 0xff = take_bit 8 x" by (simp only: ff_mask take_bit_eq_mask)
  then show ?thesis
    using take_bit_nat_less_exp [of 8 "unat x"] by (simp add: unsigned_take_bit_eq)
qed

lemma mask_7: "(127 :: byte) = mask 7"
  by (simp add: mask_eq_exp_minus_1)

lemma bit_128 [simp]: "bit (128 :: 'a::semiring_bit_operations) n \<longleftrightarrow> possible_bit TYPE('a) 7 \<and> n = 7"
  using bit_exp_iff [where 'a = 'a, of 7 n] by auto

end
