(* ===== verification/Coding.thy ===== *)
theory Coding
  imports Titan_Prelude
begin

text \<open>
  The byte encodings of \<open>util/coding.h\<close>, \<open>util/coding.cc\<close> and \<open>util/coding_lean.h\<close> that every
  Titan format is built from: little-endian fixed integers, variable-length integers and
  length-prefixed slices. A \<open>Put\<close> function returns the bytes it appends; a \<open>Get\<close> function
  returns the value and the slice left after \<open>remove_prefix\<close>, or \<open>None\<close> for \<open>false\<close>.
\<close>

section \<open>Fixed-width integers\<close>

definition EncodeFixed32 :: "u32 \<Rightarrow> bytes" where
  "EncodeFixed32 value =
     [ucast (value AND 0xff), ucast (drop_bit 8 value AND 0xff),
      ucast (drop_bit 16 value AND 0xff), ucast (drop_bit 24 value AND 0xff)]"

definition EncodeFixed64 :: "u64 \<Rightarrow> bytes" where
  "EncodeFixed64 value =
     [ucast (value AND 0xff), ucast (drop_bit 8 value AND 0xff),
      ucast (drop_bit 16 value AND 0xff), ucast (drop_bit 24 value AND 0xff),
      ucast (drop_bit 32 value AND 0xff), ucast (drop_bit 40 value AND 0xff),
      ucast (drop_bit 48 value AND 0xff), ucast (drop_bit 56 value AND 0xff)]"

definition DecodeFixed32 :: "bytes \<Rightarrow> u32" where
  "DecodeFixed32 ptr =
     (ucast (ptr ! 0) OR push_bit 8 (ucast (ptr ! 1))
      OR push_bit 16 (ucast (ptr ! 2)) OR push_bit 24 (ucast (ptr ! 3)))"

definition DecodeFixed64 :: "bytes \<Rightarrow> u64" where
  "DecodeFixed64 ptr =
     (let lo = ucast (DecodeFixed32 ptr) :: u64;
          hi = ucast (DecodeFixed32 (drop 4 ptr)) :: u64
      in push_bit 32 hi OR lo)"

definition PutFixed32 :: "u32 \<Rightarrow> bytes" where
  "PutFixed32 value = EncodeFixed32 value"

definition PutFixed64 :: "u64 \<Rightarrow> bytes" where
  "PutFixed64 value = EncodeFixed64 value"

definition GetFixed32 :: "bytes \<Rightarrow> (u32 \<times> bytes) option" where
  "GetFixed32 input =
     (if length input < 4 then None else Some (DecodeFixed32 input, drop 4 input))"

definition GetFixed64 :: "bytes \<Rightarrow> (u64 \<times> bytes) option" where
  "GetFixed64 input =
     (if length input < 8 then None else Some (DecodeFixed64 input, drop 8 input))"

section \<open>Variable-length integers\<close>

function EncodeVarint64 :: "u64 \<Rightarrow> bytes" where
  "EncodeVarint64 v =
     (if 128 \<le> v then ucast (v OR 128) # EncodeVarint64 (drop_bit 7 v) else [ucast v])"
  by pat_completeness auto
termination by (relation "measure unat") (auto simp: unat_drop_bit_less)

declare EncodeVarint64.simps [simp del]

definition EncodeVarint32 :: "u32 \<Rightarrow> bytes" where
  "EncodeVarint32 v =
     (let B = 128 in
      if v < push_bit 7 1 then [ucast v]
      else if v < push_bit 14 1 then [ucast (v OR B), ucast (drop_bit 7 v)]
      else if v < push_bit 21 1 then
        [ucast (v OR B), ucast (drop_bit 7 v OR B), ucast (drop_bit 14 v)]
      else if v < push_bit 28 1 then
        [ucast (v OR B), ucast (drop_bit 7 v OR B), ucast (drop_bit 14 v OR B),
         ucast (drop_bit 21 v)]
      else
        [ucast (v OR B), ucast (drop_bit 7 v OR B), ucast (drop_bit 14 v OR B),
         ucast (drop_bit 21 v OR B), ucast (drop_bit 28 v)])"

text \<open>The loops of the readers; \<open>shift\<close> and \<open>result\<close> are their local variables.\<close>

fun GetVarint64Ptr :: "nat \<Rightarrow> u64 \<Rightarrow> bytes \<Rightarrow> (u64 \<times> bytes) option" where
  "GetVarint64Ptr shift result [] = None"
| "GetVarint64Ptr shift result (b # p) =
     (if shift \<le> 63 then
        (if b AND 128 \<noteq> 0
         then GetVarint64Ptr (shift + 7) (result OR push_bit shift (ucast (b AND 127))) p
         else Some (result OR push_bit shift (ucast b), p))
      else None)"

fun GetVarint32PtrFallback :: "nat \<Rightarrow> u32 \<Rightarrow> bytes \<Rightarrow> (u32 \<times> bytes) option" where
  "GetVarint32PtrFallback shift result [] = None"
| "GetVarint32PtrFallback shift result (b # p) =
     (if shift \<le> 28 then
        (if b AND 128 \<noteq> 0
         then GetVarint32PtrFallback (shift + 7) (result OR push_bit shift (ucast (b AND 127))) p
         else Some (result OR push_bit shift (ucast b), p))
      else None)"

definition GetVarint32Ptr :: "bytes \<Rightarrow> (u32 \<times> bytes) option" where
  "GetVarint32Ptr p =
     (case p of
        b # p' \<Rightarrow> if b AND 128 = 0 then Some (ucast b, p') else GetVarint32PtrFallback 0 0 p
      | [] \<Rightarrow> GetVarint32PtrFallback 0 0 p)"

definition PutVarint32 :: "u32 \<Rightarrow> bytes" where
  "PutVarint32 v = EncodeVarint32 v"

definition PutVarint64 :: "u64 \<Rightarrow> bytes" where
  "PutVarint64 v = EncodeVarint64 v"

definition GetVarint32 :: "bytes \<Rightarrow> (u32 \<times> bytes) option" where
  "GetVarint32 input = GetVarint32Ptr input"

definition GetVarint64 :: "bytes \<Rightarrow> (u64 \<times> bytes) option" where
  "GetVarint64 input = GetVarint64Ptr 0 0 input"

definition PutVarint32Varint32 :: "u32 \<Rightarrow> u32 \<Rightarrow> bytes" where
  "PutVarint32Varint32 v1 v2 = EncodeVarint32 v1 @ EncodeVarint32 v2"

definition PutVarint32Varint64 :: "u32 \<Rightarrow> u64 \<Rightarrow> bytes" where
  "PutVarint32Varint64 v1 v2 = EncodeVarint32 v1 @ EncodeVarint64 v2"

definition PutVarint64Varint64 :: "u64 \<Rightarrow> u64 \<Rightarrow> bytes" where
  "PutVarint64Varint64 v1 v2 = EncodeVarint64 v1 @ EncodeVarint64 v2"

function VarintLength :: "u64 \<Rightarrow> nat" where
  "VarintLength v = (if 128 \<le> v then 1 + VarintLength (drop_bit 7 v) else 1)"
  by pat_completeness auto
termination by (relation "measure unat") (auto simp: unat_drop_bit_less)

declare VarintLength.simps [simp del]

section \<open>Length-prefixed slices\<close>

text \<open>The length is cast to 32 bits, so a longer slice loses its upper length bits.\<close>

definition PutLengthPrefixedSlice :: "bytes \<Rightarrow> bytes" where
  "PutLengthPrefixedSlice value = PutVarint32 (of_nat (length value)) @ value"

definition GetLengthPrefixedSlice :: "bytes \<Rightarrow> (bytes \<times> bytes) option" where
  "GetLengthPrefixedSlice input =
     (case GetVarint32 input of
        None \<Rightarrow> None
      | Some (len, input') \<Rightarrow>
          if unat len \<le> length input' then Some (take (unat len) input', drop (unat len) input')
          else None)"

section \<open>Fixed-width round trips\<close>

lemma length_EncodeFixed [simp]:
  "length (EncodeFixed32 v) = 4" "length (EncodeFixed64 w) = 8"
  by (simp_all add: EncodeFixed32_def EncodeFixed64_def)

lemma DecodeFixed32_EncodeFixed32: "DecodeFixed32 (EncodeFixed32 v @ rest) = v"
proof (rule bit_word_eqI)
  fix n assume "n < LENGTH(32)"
  then show "bit (DecodeFixed32 (EncodeFixed32 v @ rest)) n = bit v n"
    by (cases "n < 8"; cases "n < 16"; cases "n < 24")
       (simp_all add: DecodeFixed32_def EncodeFixed32_def ff_mask bit_simps less_diff_conv2)
qed

lemma EncodeFixed64_split:
  "EncodeFixed64 v = EncodeFixed32 (ucast v) @ EncodeFixed32 (ucast (drop_bit 32 v))"
  by (simp add: EncodeFixed64_def EncodeFixed32_def ff_mask)
     (intro conjI; rule bit_word_eqI; simp add: bit_simps ac_simps; fail)

lemma DecodeFixed64_EncodeFixed64: "DecodeFixed64 (EncodeFixed64 v @ rest) = v"
proof (rule bit_word_eqI)
  fix n assume "n < LENGTH(64)"
  then show "bit (DecodeFixed64 (EncodeFixed64 v @ rest)) n = bit v n"
    by (cases "n < 32")
      (simp_all add: DecodeFixed64_def EncodeFixed64_split DecodeFixed32_EncodeFixed32 Let_def bit_simps less_diff_conv2)
qed

section \<open>Variable-length round trips\<close>

lemma varint_chunk:
  fixes v :: u64
  shows "push_bit s (ucast (ucast (v OR 128) AND 127 :: byte)) OR push_bit (s + 7) (ucast (drop_bit 7 v))
         = (push_bit s (ucast v) :: 'a::len word)"
proof (rule bit_word_eqI)
  fix n assume "n < LENGTH('a)"
  then show "bit (push_bit s (ucast (ucast (v OR 128) AND 127 :: byte)) OR push_bit (s + 7) (ucast (drop_bit 7 v)) :: 'a word) n
      = bit (push_bit s (ucast v) :: 'a word) n"
    unfolding mask_7 by (cases "n < s"; cases "n < s + 7") (auto simp add: bit_simps less_diff_conv2)
qed

lemma byte_cont: "(ucast (v OR 128 :: u64) :: byte) AND 128 \<noteq> 0"
proof -
  have "bit ((ucast (v OR 128 :: u64) :: byte) AND 128) 7" by (simp add: bit_simps)
  then show ?thesis by (metis bit_0_eq bot_apply bot_bool_def)
qed

lemma byte_last:
  assumes "\<not> 128 \<le> (v :: u64)"
  shows "(ucast v :: byte) AND 128 = 0" "ucast (ucast v :: byte) = (ucast v :: 'a::len word)"
proof -
  have m: "take_bit 7 v = v"
    using assms
    by (simp add: word_unat_eq_iff unsigned_take_bit_eq take_bit_nat_eq_self_iff word_le_nat_alt)
  have b: "bit v n \<Longrightarrow> n < 7" for n
    using m by (metis bit_take_bit_iff)
  show "(ucast v :: byte) AND 128 = 0"
    by (rule bit_word_eqI) (auto simp: bit_simps dest: b)
  show "ucast (ucast v :: byte) = (ucast v :: 'a word)"
    by (rule bit_word_eqI) (auto simp: bit_simps dest: b)
qed

lemma unat_drop7:
  assumes "128 \<le> (v :: u64)" "unat v < 2 ^ (N - s)"
  shows "s + 7 < N" "unat (drop_bit 7 v) < 2 ^ (N - (s + 7))"
proof -
  have *: "128 \<le> unat v" using assms(1) by (simp add: word_le_nat_alt)
  then have "2 ^ 7 < (2 ^ (N - s) :: nat)" using assms(2) by simp
  then have "7 < N - s" by (simp only: power_strict_increasing_iff [of "2 :: nat"])
  then show "s + 7 < N" by simp
  then have "(2 :: nat) ^ (N - s) = 2 ^ (N - (s + 7)) * 128"
    using power_add [of "2 :: nat" "N - (s + 7)" 7] by simp
  moreover have "unat (drop_bit 7 v) = unat v div 128"
    unfolding unat_drop_bit_eq by (simp add: drop_bit_eq_div)
  ultimately show "unat (drop_bit 7 v) < 2 ^ (N - (s + 7))"
    using assms(2) by (simp add: less_mult_imp_div_less)
qed

lemma GetVarint64Ptr_EncodeVarint64:
  "\<lbrakk>s \<le> 63; unat v < 2 ^ (64 - s)\<rbrakk> \<Longrightarrow>
   GetVarint64Ptr s r (EncodeVarint64 v @ rest) = Some (r OR push_bit s v, rest)"
proof (induction v arbitrary: s r rule: EncodeVarint64.induct)
  case (1 v)
  show ?case
  proof (cases "128 \<le> v")
    case True
    then show ?thesis
      using 1 unat_drop7 [of v 64 s] varint_chunk [where 'a = 64, of s v]
      by (subst EncodeVarint64.simps) (simp add: byte_cont or.assoc)
  next
    case False
    then show ?thesis
      using 1(2) byte_last(1) [OF False] byte_last(2) [OF False, where 'a = 64]
      by (subst EncodeVarint64.simps) simp
  qed
qed

lemma GetVarint32PtrFallback_EncodeVarint64:
  "\<lbrakk>s \<le> 28; 7 dvd s; unat v < 2 ^ (32 - s)\<rbrakk> \<Longrightarrow>
   GetVarint32PtrFallback s r (EncodeVarint64 v @ rest) = Some (r OR push_bit s (ucast v), rest)"
proof (induction v arbitrary: s r rule: EncodeVarint64.induct)
  case (1 v)
  show ?case
  proof (cases "128 \<le> v")
    case True
    have "s + 7 \<le> 28" using unat_drop7(1) [OF True 1(4)] 1(3) by presburger
    then show ?thesis
      using 1 True unat_drop7 [of v 32 s] varint_chunk [where 'a = 32, of s v]
      by (subst EncodeVarint64.simps) (simp add: byte_cont or.assoc)
  next
    case False
    then show ?thesis
      using 1(2) byte_last(1) [OF False] byte_last(2) [OF False, where 'a = 32]
      by (subst EncodeVarint64.simps) simp
  qed
qed

lemma EncodeVarint64_1: "\<not> 128 \<le> v \<Longrightarrow> EncodeVarint64 v = [ucast v]"
  by (subst EncodeVarint64.simps) simp

lemma EncodeVarint64_Cons: "128 \<le> v \<Longrightarrow> EncodeVarint64 v = ucast (v OR 128) # EncodeVarint64 (drop_bit 7 v)"
  by (subst EncodeVarint64.simps) simp

text \<open>The unrolled 32-bit writer produces what the 64-bit loop does.\<close>

lemma le_drop_bit_ucast:
  "128 \<le> drop_bit n (ucast (v :: u32) :: u64) \<longleftrightarrow> 128 * 2 ^ n \<le> unat v"
  by (simp add: word_le_nat_alt unat_drop_bit_div
        less_eq_div_iff_mult_less_eq)

lemma ucast_byte_of_u32:
  "(ucast (drop_bit n (ucast (v :: u32) :: u64)) :: byte) = ucast (drop_bit n v)"
  "(ucast (drop_bit n (ucast (v :: u32) :: u64) OR 128) :: byte) = ucast (drop_bit n v OR 128)"
  by (rule bit_word_eqI; auto simp: bit_simps dest: bit_imp_le_length)+

lemma EncodeVarint32_eq_loop: "EncodeVarint32 v = EncodeVarint64 (ucast v)"
proof -
  have step: "EncodeVarint64 (drop_bit n (ucast v)) =
     (if 128 * 2 ^ n \<le> unat v then ucast (drop_bit n v OR 128) # EncodeVarint64 (drop_bit (n + 7) (ucast v))
      else [ucast (drop_bit n v)])" for n
    using le_drop_bit_ucast [of n v] EncodeVarint64_Cons [of "drop_bit n (ucast v)"]
      EncodeVarint64_1 [of "drop_bit n (ucast v)"] ucast_byte_of_u32 [of n v]
    by (simp add: add.commute)
  have "unat v < 128 * 2 ^ 28" using unat_u32_less [of v] by simp
  then show ?thesis
    using step [of 0] step [of 7] step [of 14] step [of 21] step [of 28]
    by (simp add: EncodeVarint32_def Let_def word_less_nat_alt)
qed

lemma ucast_ucast_u32: "ucast (ucast (v :: u32) :: u64) = v"
  by (rule bit_word_eqI) (simp add: bit_simps)

lemma GetVarint32_PutVarint32: "GetVarint32 (PutVarint32 v @ rest) = Some (v, rest)"
proof (cases "unat v < 128")
  case True
  then have "\<not> 128 \<le> (ucast v :: u64)" by (simp add: word_le_nat_alt)
  then show ?thesis
    using byte_last(1) [of "ucast v"] byte_last(2) [of "ucast v", where 'a = 32]
    by (simp add: GetVarint32_def PutVarint32_def EncodeVarint32_eq_loop EncodeVarint64_1
        GetVarint32Ptr_def ucast_ucast_u32)
next
  case False
  then have "128 \<le> (ucast v :: u64)" by (simp add: word_le_nat_alt)
  then show ?thesis
    using GetVarint32PtrFallback_EncodeVarint64 [of 0 "ucast v" 0 rest] unat_u32_less [of v]
    by (simp add: GetVarint32_def PutVarint32_def EncodeVarint32_eq_loop EncodeVarint64_Cons
        GetVarint32Ptr_def ucast_ucast_u32 byte_cont)
qed

lemma GetVarint64_PutVarint64: "GetVarint64 (PutVarint64 v @ rest) = Some (v, rest)"
  using GetVarint64Ptr_EncodeVarint64 [of 0 v 0 rest] unat_u64_less [of v]
  by (simp add: GetVarint64_def PutVarint64_def)

section \<open>The readers consume input\<close>

lemma GetVarint64Ptr_consumes:
  "GetVarint64Ptr s r bs = Some (x, rest) \<Longrightarrow> length rest < length bs"
  by (induction s r bs rule: GetVarint64Ptr.induct) (auto split: if_splits)

lemma GetVarint32PtrFallback_consumes:
  "GetVarint32PtrFallback s r bs = Some (x, rest) \<Longrightarrow> length rest < length bs"
  by (induction s r bs rule: GetVarint32PtrFallback.induct) (auto split: if_splits)

lemma GetVarint64_consumes: "GetVarint64 bs = Some (x, rest) \<Longrightarrow> length rest < length bs"
  by (simp add: GetVarint64_def GetVarint64Ptr_consumes)

lemma GetVarint32_consumes: "GetVarint32 bs = Some (x, rest) \<Longrightarrow> length rest < length bs"
  by (auto simp: GetVarint32_def GetVarint32Ptr_def
      dest: GetVarint32PtrFallback_consumes split: list.splits if_splits)

section \<open>Interpretations\<close>

interpretation fixed32: codec PutFixed32 GetFixed32 "\<lambda>_. True"
  by unfold_locales
    (auto simp: PutFixed32_def GetFixed32_def DecodeFixed32_EncodeFixed32 split: if_splits)

interpretation fixed64: codec PutFixed64 GetFixed64 "\<lambda>_. True"
  by unfold_locales
    (auto simp: PutFixed64_def GetFixed64_def DecodeFixed64_EncodeFixed64 split: if_splits)

interpretation varint32: codec PutVarint32 GetVarint32 "\<lambda>_. True"
  by unfold_locales (auto simp: GetVarint32_PutVarint32 GetVarint32_consumes)

interpretation varint64: codec PutVarint64 GetVarint64 "\<lambda>_. True"
  by unfold_locales
    (auto simp: GetVarint64_PutVarint64 GetVarint64_consumes)

interpretation prefixed: codec PutLengthPrefixedSlice GetLengthPrefixedSlice
  "\<lambda>s. length s < 2 ^ 32"
  by unfold_locales
    (auto simp: PutLengthPrefixedSlice_def GetLengthPrefixedSlice_def GetVarint32_PutVarint32
      dest: GetVarint32_consumes split: option.splits if_splits)

lemmas get_put [simp, codec_simps] =
  fixed32.dec_enc [OF TrueI] fixed64.dec_enc [OF TrueI]
  varint32.dec_enc [OF TrueI] varint64.dec_enc [OF TrueI] prefixed.dec_enc

lemmas get_put_exact [simp] =
  fixed32.dec_enc_exact [OF TrueI] fixed64.dec_enc_exact [OF TrueI]
  varint32.dec_enc_exact [OF TrueI] varint64.dec_enc_exact [OF TrueI] prefixed.dec_enc_exact

lemmas get_consumes =
  fixed32.dec_consumes fixed64.dec_consumes varint32.dec_consumes varint64.dec_consumes
  prefixed.dec_consumes

section \<open>Lengths\<close>

lemma VarintLength_correct: "VarintLength v = length (EncodeVarint64 v)"
  by (induction v rule: EncodeVarint64.induct)
    (subst EncodeVarint64.simps, subst VarintLength.simps, simp)

lemma length_EncodeVarint64_le:
  "\<lbrakk>unat v < 2 ^ (7 * k); 0 < k\<rbrakk> \<Longrightarrow> length (EncodeVarint64 v) \<le> k"
proof (induction v arbitrary: k rule: EncodeVarint64.induct)
  case (1 v)
  show ?case
  proof (cases "128 \<le> v")
    case True
    have "7 < 7 * k" and "unat (drop_bit 7 v) < 2 ^ (7 * (k - 1))"
      using unat_drop7 [OF True, of "7 * k" 0] 1(2) by (simp_all add: diff_mult_distrib2)
    then have "length (EncodeVarint64 (drop_bit 7 v)) \<le> k - 1"
      using 1(1) [OF True, of "k - 1"] by simp
    then show ?thesis using 1(3) True by (simp add: EncodeVarint64_Cons)
  next
    case False
    then show ?thesis using 1(3) by (simp add: EncodeVarint64_1)
  qed
qed

lemma length_PutVarint:
  "length (PutVarint64 v) \<le> 10" "length (PutVarint32 w) \<le> 5"
  using length_EncodeVarint64_le [of v 10] length_EncodeVarint64_le [of "ucast w" 5]
    unat_u64_less [of v] unat_u32_less [of w]
  by (simp_all add: PutVarint64_def PutVarint32_def EncodeVarint32_eq_loop)

section \<open>Properties\<close>

text \<open>
  C23: the unrolled \<open>EncodeVarint32\<close> is the generic loop. For every 32-bit value it writes the bytes
  \<open>EncodeVarint64\<close> writes, as many as \<open>VarintLength\<close> announces and at most five, and the reader gets
  the value back and leaves what follows.
\<close>

theorem varint32_unrolled:
  "EncodeVarint32 v = EncodeVarint64 (ucast v) \<and> length (EncodeVarint32 v) = VarintLength (ucast v) \<and>
   length (EncodeVarint32 v) \<le> 5 \<and> GetVarint32 (EncodeVarint32 v @ rest) = Some (v, rest)"
  using length_PutVarint(2) [of v] GetVarint32_PutVarint32 [of v rest]
  by (simp add: PutVarint32_def EncodeVarint32_eq_loop VarintLength_correct)

end
