(* ===== verification/Bit_Map.thy ===== *)
theory Bit_Map
  imports Coding
begin

text \<open>
  \<open>src/blob_validation_check.{h,cc}\<close>: the bitmap of invalid records that a blob file carries.
  \<open>bits\<close> is the heap block, \<open>None\<close> for a null pointer. Bit \<open>i\<close> is bit \<open>7 - i mod 8\<close> of byte
  \<open>i div 8\<close>. The operations return the status and the bitmap after the call.
\<close>

section \<open>Model\<close>

record BitMap =
  valid_bits :: u64
  byte_size :: nat
  bits :: "bytes option"

datatype BitOpsType = kBitAnd | kBitOr | kBitXor

definition BitMap_new :: "u64 \<Rightarrow> BitMap" where
  "BitMap_new validBits =
     (let byte = unat (drop_bit 3 validBits) + 1 in
      \<lparr> valid_bits = validBits, byte_size = byte, bits = Some (replicate byte 0) \<rparr>)"

definition BitMap_default :: BitMap where
  "BitMap_default = \<lparr> valid_bits = 0, byte_size = 0, bits = None \<rparr>"

text \<open>The move constructor returns the new bitmap and the one moved from.\<close>

definition BitMap_move :: "BitMap \<Rightarrow> BitMap \<times> BitMap" where
  "BitMap_move bitMap =
     (\<lparr> valid_bits = 0, byte_size = 0, bits = bits bitMap \<rparr>, bitMap\<lparr> bits := None \<rparr>)"

definition SetBit :: "BitMap \<Rightarrow> u64 \<Rightarrow> int \<Rightarrow> status \<times> BitMap" where
  "SetBit m bitoffset on =
     (if on AND NOT 1 \<noteq> 0 \<or> valid_bits m < bitoffset then
        (InvalidArgument ''bit is not an integer or out of range'', m)
      else
        let byte = unat (drop_bit 3 bitoffset);
            bit = 7 - unat (bitoffset AND 7)
        in case bits m of
             None \<Rightarrow> (Undefined ''null bits_'', m)
           | Some bs \<Rightarrow>
               if length bs \<le> byte then (Undefined ''write past bits_'', m)
               else
                 let byteval = bs ! byte;
                     bitval = byteval AND push_bit bit 1
                 in if (if bitval \<noteq> 0 then 1 else 0) \<noteq> on then
                      let byteval = byteval AND NOT (push_bit bit 1);
                          byteval = byteval OR push_bit bit (of_int (on AND 1))
                      in (OK, m\<lparr> bits := Some (bs[byte := byteval]) \<rparr>)
                    else (OK, m))"

definition GetBit :: "BitMap \<Rightarrow> u64 \<Rightarrow> status + int" where
  "GetBit m bitoffset =
     (if valid_bits m < bitoffset then
        Inl (InvalidArgument ''bit is not an integer or out of range'')
      else
        let byte = unat (drop_bit 3 bitoffset);
            bit = 7 - unat (bitoffset AND 7)
        in case bits m of
             None \<Rightarrow> Inl (Undefined ''null bits_'')
           | Some bs \<Rightarrow>
               if length bs \<le> byte then Inl (Undefined ''read past bits_'')
               else let bitval = bs ! byte AND push_bit bit 1
                    in Inr (if bitval \<noteq> 0 then 1 else 0))"

fun word_op :: "BitOpsType \<Rightarrow> 'w::len word \<Rightarrow> 'w word \<Rightarrow> 'w word" where
  "word_op kBitAnd a b = a AND b"
| "word_op kBitOr a b = a OR b"
| "word_op kBitXor a b = a XOR b"

text \<open>
  The fast path works on four 64-bit words at a time; \<open>j\<close> is the number of bytes done and
  \<open>remain\<close> is \<open>aligned_remain_size\<close>.
\<close>

definition op_long :: "BitOpsType \<Rightarrow> bytes \<Rightarrow> bytes \<Rightarrow> bytes" where
  "op_long type res p = EncodeFixed64 (word_op type (DecodeFixed64 res) (DecodeFixed64 p))"

definition op_longs :: "BitOpsType \<Rightarrow> bytes \<Rightarrow> bytes \<Rightarrow> bytes" where
  "op_longs type res p =
     op_long type res p @ op_long type (drop 8 res) (drop 8 p)
     @ op_long type (drop 16 res) (drop 16 p) @ op_long type (drop 24 res) (drop 24 p)"

function BitOps_fast :: "BitOpsType \<Rightarrow> nat \<Rightarrow> nat \<Rightarrow> bytes \<Rightarrow> bytes \<Rightarrow> bytes \<times> nat" where
  "BitOps_fast type j remain res p =
     (if 32 \<le> remain then
        BitOps_fast type (j + 32) (remain - 32)
          (take j res @ op_longs type (drop j res) (drop j p) @ drop (j + 32) res) p
      else (res, j))"
  by pat_completeness auto
termination by (relation "measure (\<lambda>(type, j, remain, res, p). remain)") auto

declare BitOps_fast.simps [simp del]

function BitOps_bytes :: "BitOpsType \<Rightarrow> nat \<Rightarrow> nat \<Rightarrow> bytes \<Rightarrow> bytes \<Rightarrow> bytes" where
  "BitOps_bytes type j ops_size res p =
     (if j < ops_size then
        BitOps_bytes type (j + 1) ops_size (res[j := word_op type (res ! j) (p ! j)]) p
      else res)"
  by pat_completeness auto
termination by (relation "measure (\<lambda>(type, j, ops_size, res, p). ops_size - j)") auto

declare BitOps_bytes.simps [simp del]

definition BitOps :: "BitMap \<Rightarrow> BitOpsType \<Rightarrow> BitMap option \<Rightarrow> status \<times> BitMap" where
  "BitOps m type other =
     (case other of
        None \<Rightarrow> (InvalidArgument ''bit operate with nullptr'', m)
      | Some p \<Rightarrow>
          if valid_bits m \<noteq> valid_bits p then (InvalidArgument ''valid bits not match'', m)
          else
            let ops_size = min (byte_size p) (byte_size m) in
            if ops_size = 0 then (OK, m)
            else case (bits m, bits p) of
                (Some res, Some src) \<Rightarrow>
                  if length res < ops_size \<or> length src < ops_size
                  then (Undefined ''access past bits_'', m)
                  else
                    let (res', j) = BitOps_fast type 0 ops_size res src
                    in (OK, m\<lparr> bits := Some (BitOps_bytes type j ops_size res' src) \<rparr>)
              | _ \<Rightarrow> (Undefined ''null bits_'', m))"

text \<open>\<open>CopyTo\<close> returns the status and the destination.\<close>

definition CopyTo :: "BitMap \<Rightarrow> BitMap \<Rightarrow> status \<times> BitMap" where
  "CopyTo m dest =
     (if bits dest \<noteq> None then (Corruption ''other bimap already been inited.'', dest)
      else case bits m of
        None \<Rightarrow> if byte_size m = 0 then (OK, \<lparr> valid_bits = valid_bits m, byte_size = 0, bits = Some [] \<rparr>)
                else (Undefined ''null bits_'', dest)
      | Some bs \<Rightarrow>
          if length bs < byte_size m then (Undefined ''read past bits_'', dest)
          else (OK, \<lparr> valid_bits = valid_bits m, byte_size = byte_size m,
                      bits = Some (take (byte_size m) bs) \<rparr>))"
section \<open>Invariant and abstraction\<close>

definition BitMap_inv :: "BitMap \<Rightarrow> bool" where
  "BitMap_inv m \<longleftrightarrow>
     byte_size m = unat (drop_bit 3 (valid_bits m)) + 1 \<and>
     (case bits m of None \<Rightarrow> False | Some bs \<Rightarrow> length bs = byte_size m)"

text \<open>The set of offsets whose bit is one.\<close>

definition bits_nth :: "bytes \<Rightarrow> nat \<Rightarrow> bool" where
  "bits_nth bs i = bit (bs ! (i div 8)) (7 - i mod 8)"

definition BitMap_mem :: "u64 \<Rightarrow> BitMap \<Rightarrow> bool" where
  "BitMap_mem i m \<longleftrightarrow> GetBit m i = Inr 1"

lemma BitMap_invE:
  assumes "BitMap_inv m"
  obtains bs where "bits m = Some bs" "length bs = byte_size m"
    "byte_size m = unat (valid_bits m) div 8 + 1"
  using assms by (auto simp: BitMap_inv_def unat_drop_bit_div split: option.splits)

lemma unat_and_7: "unat (x AND 7 :: u64) = unat x mod 8"
proof -
  have "x AND 7 = take_bit 3 x"
    by (simp add: take_bit_eq_mask mask_eq_exp_minus_1)
  then have "unat (x AND 7) = take_bit 3 (unat x)"
    by (simp only: unsigned_take_bit_eq)
  then show ?thesis
    by (simp add: take_bit_eq_mod)
qed

lemma div8_mono: "o' \<le> v \<Longrightarrow> unat (o' :: u64) div 8 \<le> unat v div 8"
  by (simp add: div_le_mono word_le_nat_alt)

lemma and_exp_eq_0 [simp]: "(b :: byte) AND 2 ^ k = 0 \<longleftrightarrow> \<not> bit b k"
  using bit_iff_and_push_bit_not_eq_0 [of b k] by simp

lemma clear_then_set [simp]:
  "(b :: byte) AND NOT (2 ^ k) = unset_bit k b" "b OR 2 ^ k = set_bit k b"
  "set_bit k (unset_bit k b) = set_bit k b"
  by (rule bit_word_eqI; auto simp: bit_simps)+

lemma set_bit_idle: "bit (b :: byte) k \<Longrightarrow> set_bit k b = b" "\<not> bit b k \<Longrightarrow> unset_bit k b = b"
  by (rule bit_word_eqI; auto simp: bit_simps)+

lemma GetBit_eq:
  assumes "BitMap_inv m" "bits m = Some bs"
  shows "GetBit m i = (if valid_bits m < i then Inl (InvalidArgument ''bit is not an integer or out of range'')
                       else Inr (if bits_nth bs (unat i) then 1 else 0))"
proof -
  have "unat i div 8 < length bs" if "\<not> valid_bits m < i"
    using assms that div8_mono [of i "valid_bits m"]
    by (auto elim!: BitMap_invE simp: not_less)
  then show ?thesis
    using assms(2)
    by (cases "valid_bits m < i")
      (simp_all add: GetBit_def Let_def bits_nth_def unat_drop_bit_div unat_and_7 not_le [symmetric])
qed

lemma SetBit_eq:
  assumes "BitMap_inv m" "bits m = Some bs" "i \<le> valid_bits m" "on \<in> {0, 1}"
  shows "SetBit m i on =
    (OK, m\<lparr> bits := Some (bs[unat i div 8 :=
        (if on = 1 then set_bit else unset_bit) (7 - unat i mod 8) (bs ! (unat i div 8))]) \<rparr>)"
proof -
  have len: "unat i div 8 < length bs"
    using assms(1,2) div8_mono [OF assms(3)] by (auto elim!: BitMap_invE)
  have "on AND NOT 1 = 0" using assms(4) by auto
  then show ?thesis
    using assms(2-4) len
    by (cases "bit (bs ! (unat i div 8)) (7 - unat i mod 8)")
      (auto simp: SetBit_def Let_def unat_drop_bit_div unat_and_7 set_bit_idle)
qed

lemma bits_nth_update:
  assumes "i div 8 < length bs" "j div 8 < length bs"
  shows "bits_nth (bs[i div 8 := (if on then set_bit else unset_bit) (7 - i mod 8) (bs ! (i div 8))]) j
    = (if j = i then on else bits_nth bs j)"
proof -
  have ne: "7 - i mod 8 \<noteq> 7 - j mod 8" if "j div 8 = i div 8" "j \<noteq> i"
  proof
    assume "7 - i mod 8 = 7 - j mod 8"
    then have "j mod 8 = i mod 8"
      using mod_less_divisor [of 8 i] mod_less_divisor [of 8 j] by simp
    then show False using that by (metis div_mult_mod_eq)
  qed
  have "bit ((if on then set_bit else unset_bit) k (b :: byte)) n = (if n = k then on else bit b n)"
    if "k < 8" for k n b
    using that by (simp add: bit_simps)
  from this [of "7 - i mod 8"] show ?thesis
    using assms ne by (cases "j = i"; cases "j div 8 = i div 8") (simp_all add: bits_nth_def)
qed

lemma SetBit_inv: "BitMap_inv m \<Longrightarrow> SetBit m i on = (s, m') \<Longrightarrow> BitMap_inv m' \<and> valid_bits m' = valid_bits m"
  by (auto simp: SetBit_def BitMap_inv_def Let_def split: if_splits option.splits)

lemma SetBit_ok_iff:
  "BitMap_inv m \<Longrightarrow> fst (SetBit m i on) = OK \<longleftrightarrow> i \<le> valid_bits m \<and> on \<in> {0, 1}"
proof
  assume inv: "BitMap_inv m"
  then obtain bs where bs: "bits m = Some bs" by (rule BitMap_invE)
  have "on \<in> {0, 1}" if "on AND NOT 1 = 0"
  proof -
    have "on = (on AND NOT 1) OR (on AND 1)" by (rule bit_eqI) (auto simp: bit_simps)
    then have "on = on AND 1" using that by simp
    then have "on = of_bool (odd on)" by (simp add: and_one_eq mod_2_eq_odd)
    then show ?thesis by (metis insert_iff of_bool_eq)
  qed
  then show "i \<le> valid_bits m \<and> on \<in> {0, 1}" if "fst (SetBit m i on) = OK"
    using that by (auto simp: SetBit_def split: if_splits)
  show "fst (SetBit m i on) = OK" if "i \<le> valid_bits m \<and> on \<in> {0, 1}"
    using SetBit_eq [OF inv bs] that by simp
qed

lemma GetBit_SetBit:
  assumes "BitMap_inv m" "i \<le> valid_bits m" "j \<le> valid_bits m" "on \<in> {0, 1}"
  shows "GetBit (snd (SetBit m i on)) j = (if j = i then Inr on else GetBit m j)"
proof -
  obtain bs where bs: "bits m = Some bs" "length bs = byte_size m" "byte_size m = unat (valid_bits m) div 8 + 1"
    using assms(1) by (rule BitMap_invE)
  have len: "unat i div 8 < length bs" "unat j div 8 < length bs"
    using bs div8_mono [OF assms(2)] div8_mono [OF assms(3)] by simp_all
  let ?bs = "bs[unat i div 8 := (if on = 1 then set_bit else unset_bit) (7 - unat i mod 8) (bs ! (unat i div 8))]"
  let ?m = "m\<lparr> bits := Some ?bs \<rparr>"
  have set: "SetBit m i on = (OK, ?m)"
    by (rule SetBit_eq [OF assms(1) bs(1) assms(2,4)])
  have "BitMap_inv ?m"
    using SetBit_inv [OF assms(1) set] by simp
  then have "GetBit ?m j = Inr (if bits_nth ?bs (unat j) then 1 else 0)"
    using GetBit_eq [of ?m ?bs j] assms(3) by (simp add: not_less)
  moreover have "GetBit m j = Inr (if bits_nth bs (unat j) then 1 else 0)"
    using GetBit_eq [OF assms(1) bs(1), of j] assms(3) by (simp add: not_less)
  ultimately show ?thesis
    unfolding set snd_conv bits_nth_update [OF len]
    using assms(4) by (auto simp: word_unat_eq_iff)
qed

section \<open>Bitwise operations\<close>

fun bool_op :: "BitOpsType \<Rightarrow> bool \<Rightarrow> bool \<Rightarrow> bool" where
  "bool_op kBitAnd a b = (a \<and> b)"
| "bool_op kBitOr a b = (a \<or> b)"
| "bool_op kBitXor a b = (a \<noteq> b)"

lemma bit_word_op: "n < LENGTH('w) \<Longrightarrow> bit (word_op type (a :: 'w::len word) b) n = bool_op type (bit a n) (bit b n)"
  by (cases type) (simp_all add: bit_simps)

lemma byte_bit_less: "bit (b :: byte) n \<Longrightarrow> n < 8"
  using bit_imp_le_length [of b n] by simp

lemma bit_DecodeFixed32:
  assumes "k < 4" "j < 8"
  shows "bit (DecodeFixed32 p) (8 * k + j) = bit (p ! k) j"
proof -
  have "k = 0 \<or> k = 1 \<or> k = 2 \<or> k = 3" using assms(1) by auto
  then show ?thesis
    using assms(2) by (elim disjE) (auto simp: DecodeFixed32_def bit_simps dest: byte_bit_less)
qed

lemma bit_DecodeFixed64:
  assumes "k < 8" "j < 8" "8 \<le> length p"
  shows "bit (DecodeFixed64 p) (8 * k + j) = bit (p ! k) j"
proof (cases "k < 4")
  case True
  then show ?thesis
    using assms bit_DecodeFixed32 [OF True assms(2), of p]
    by (simp add: DecodeFixed64_def Let_def bit_simps)
next
  case False
  have "bit (DecodeFixed32 p) (8 * k + j) = False"
    using False bit_imp_le_length [of "DecodeFixed32 p" "8 * k + j"] by auto
  moreover have "8 * k + j - 32 = 8 * (k - 4) + j" "8 * (k - 4) + j < 64"
    using False assms(1,2) by simp_all
  ultimately show ?thesis
    using False assms bit_DecodeFixed32 [of "k - 4" j "drop 4 p"]
    by (simp add: DecodeFixed64_def Let_def bit_simps)
qed

lemma bit_EncodeFixed64:
  assumes "k < 8" "j < 8"
  shows "bit (EncodeFixed64 v ! k) j = bit v (8 * k + j)"
proof -
  have "k \<in> {0, 1, 2, 3, 4, 5, 6, 7}" using assms(1) by auto
  then show ?thesis
    using assms(2) by (elim insertE emptyE) (simp_all add: EncodeFixed64_def ff_mask bit_simps)
qed

lemma op_long_bytes:
  assumes "8 \<le> length res" "8 \<le> length p"
  shows "op_long type res p = map2 (word_op type) (take 8 res) (take 8 p)"
proof (rule nth_equalityI)
  show "length (op_long type res p) = length (map2 (word_op type) (take 8 res) (take 8 p))"
    using assms by (simp add: op_long_def)
  fix k assume "k < length (op_long type res p)"
  then have k: "k < 8" by (simp add: op_long_def)
  have "op_long type res p ! k = word_op type (res ! k) (p ! k)"
  proof (rule bit_word_eqI)
    fix j assume "j < LENGTH(8)"
    then have "j < 8" by simp
    moreover have "8 * k + j < 64" using k \<open>j < 8\<close> by simp
    ultimately show "bit (op_long type res p ! k) j = bit (word_op type (res ! k) (p ! k)) j"
      using k assms by (simp add: op_long_def bit_EncodeFixed64 bit_word_op bit_DecodeFixed64)
  qed
  then show "op_long type res p ! k = map2 (word_op type) (take 8 res) (take 8 p) ! k"
    using k assms by simp
qed

lemma op_longs_bytes:
  assumes "32 \<le> length res" "32 \<le> length p"
  shows "op_longs type res p = map2 (word_op type) (take 32 res) (take 32 p)"
proof -
  have "take 32 xs = take 8 xs @ take 8 (drop 8 xs) @ take 8 (drop 16 xs) @ take 8 (drop 24 xs)" for xs :: bytes
    using take_add [of 8 24 xs] take_add [of 8 16 "drop 8 xs"] take_add [of 8 8 "drop 16 xs"] by simp
  then show ?thesis
    using assms by (simp add: op_longs_def op_long_bytes)
qed

text \<open>Both loops compute the bytewise operation on a prefix.\<close>

definition op_prefix :: "BitOpsType \<Rightarrow> nat \<Rightarrow> bytes \<Rightarrow> bytes \<Rightarrow> bytes" where
  "op_prefix type n res p = map2 (word_op type) (take n res) (take n p) @ drop n res"

lemma length_op_prefix [simp]:
  "n \<le> length p \<Longrightarrow> n \<le> length res \<Longrightarrow> length (op_prefix type n res p) = length res"
  by (simp add: op_prefix_def)

lemma drop_op_prefix:
  "n \<le> length p \<Longrightarrow> n \<le> length res \<Longrightarrow> n \<le> k \<Longrightarrow> drop k (op_prefix type n res p) = drop k res"
  by (simp add: op_prefix_def)

lemma take_op_prefix:
  "n \<le> length p \<Longrightarrow> n \<le> length res \<Longrightarrow>
   take n (op_prefix type n res p) = map2 (word_op type) (take n res) (take n p)"
  by (simp add: op_prefix_def)

lemma op_prefix_longs:
  assumes "n + 32 \<le> length res" "n + 32 \<le> length p"
  shows "take n (op_prefix type n res p) @ op_longs type (drop n (op_prefix type n res p)) (drop n p)
           @ drop (n + 32) (op_prefix type n res p) = op_prefix type (n + 32) res p"
proof -
  have "map2 (word_op type) (take (n + 32) res) (take (n + 32) p) =
    map2 (word_op type) (take n res) (take n p) @ map2 (word_op type) (take 32 (drop n res)) (take 32 (drop n p))"
    using assms by (simp add: take_add zip_append)
  then show ?thesis
    using assms by (simp add: take_op_prefix drop_op_prefix op_longs_bytes op_prefix_def [of _ "n + 32"])
qed

lemma op_prefix_byte:
  assumes "n < length res" "n < length p"
  shows "(op_prefix type n res p)[n := word_op type (op_prefix type n res p ! n) (p ! n)] =
         op_prefix type (n + 1) res p"
  using assms
  by (auto simp: op_prefix_def take_Suc_conv_app_nth nth_append list_update_append
      Cons_nth_drop_Suc [symmetric] zip_append)

lemma BitOps_fast_eq:
  "\<lbrakk>j + remain \<le> length res; j + remain \<le> length p\<rbrakk> \<Longrightarrow>
   \<exists>j'. BitOps_fast type j remain (op_prefix type j res p) p = (op_prefix type j' res p, j') \<and> j' \<le> j + remain"
proof (induction remain arbitrary: j rule: less_induct)
  case (less remain)
  show ?case
  proof (cases "32 \<le> remain")
    case True
    have "\<exists>j'. BitOps_fast type (j + 32) (remain - 32) (op_prefix type (j + 32) res p) p =
               (op_prefix type j' res p, j') \<and> j' \<le> (j + 32) + (remain - 32)"
      using less.prems True by (intro less.IH) auto
    moreover have "BitOps_fast type j remain (op_prefix type j res p) p =
        BitOps_fast type (j + 32) (remain - 32) (op_prefix type (j + 32) res p) p"
      using op_prefix_longs [of j res p type] less.prems True by (subst BitOps_fast.simps) simp
    ultimately show ?thesis using True by simp
  next
    case False
    then show ?thesis by (subst BitOps_fast.simps) auto
  qed
qed

lemma BitOps_bytes_eq:
  "\<lbrakk>j \<le> n; n \<le> length res; n \<le> length p\<rbrakk> \<Longrightarrow>
   BitOps_bytes type j n (op_prefix type j res p) p = op_prefix type n res p"
proof (induction "n - j" arbitrary: j)
  case 0
  then show ?case by (subst BitOps_bytes.simps) simp
next
  case (Suc k)
  then have "BitOps_bytes type (j + 1) n (op_prefix type (j + 1) res p) p = op_prefix type n res p"
    by (intro Suc.hyps) auto
  then show ?case
    using Suc.prems Suc.hyps(2) op_prefix_byte [of j res p type] by (subst BitOps_bytes.simps) auto
qed

text \<open>The reference: the operation byte by byte.\<close>

lemma BitOps_eq:
  assumes "BitMap_inv m" "BitMap_inv p" "valid_bits m = valid_bits p" "bits m = Some a" "bits p = Some b"
  shows "BitOps m type (Some p) = (OK, m\<lparr> bits := Some (map2 (word_op type) a b) \<rparr>)"
proof -
  let ?n = "unat (drop_bit 3 (valid_bits p)) + 1"
  have len: "length a = ?n" "length b = ?n" "byte_size m = ?n" "byte_size p = ?n"
    using assms by (auto simp: BitMap_inv_def)
  have a: "op_prefix type 0 a b = a" by (simp add: op_prefix_def)
  obtain j where j: "BitOps_fast type 0 ?n a b = (op_prefix type j a b, j)" "j \<le> ?n"
    using BitOps_fast_eq [of 0 ?n a b type] len a by auto
  have "BitOps_bytes type j ?n (op_prefix type j a b) b = map2 (word_op type) a b"
    using BitOps_bytes_eq [OF j(2), of a b type] len by (simp add: op_prefix_def)
  then show ?thesis
    using assms(3-5) len j by (simp add: BitOps_def Let_def del: One_nat_def)
qed

lemma BitOps_inv:
  assumes "BitMap_inv m" "BitMap_inv p" "valid_bits m = valid_bits p"
  shows "BitMap_inv (snd (BitOps m type (Some p)))" "valid_bits (snd (BitOps m type (Some p))) = valid_bits m"
proof -
  obtain a b where ab: "bits m = Some a" "bits p = Some b"
    using assms(1,2) by (auto elim!: BitMap_invE)
  show "BitMap_inv (snd (BitOps m type (Some p)))" "valid_bits (snd (BitOps m type (Some p))) = valid_bits m"
    using assms ab by (auto simp: BitOps_eq [OF assms ab] BitMap_inv_def)
qed

lemma BitOps_mem:
  assumes "BitMap_inv m" "BitMap_inv p" "valid_bits m = valid_bits p" "i \<le> valid_bits m"
  shows "BitMap_mem i (snd (BitOps m type (Some p))) = bool_op type (BitMap_mem i m) (BitMap_mem i p)"
proof -
  obtain a where a: "bits m = Some a" "length a = byte_size m" "byte_size m = unat (valid_bits m) div 8 + 1"
    using assms(1) by (rule BitMap_invE)
  obtain b where b: "bits p = Some b" "length b = byte_size p" "byte_size p = unat (valid_bits p) div 8 + 1"
    using assms(2) by (rule BitMap_invE)
  let ?r = "m\<lparr> bits := Some (map2 (word_op type) a b) \<rparr>"
  have r: "BitOps m type (Some p) = (OK, ?r)"
    by (rule BitOps_eq [OF assms(1-3) a(1) b(1)])
  have inv: "BitMap_inv ?r" using BitOps_inv(1) [OF assms(1-3), of type] r by simp
  have len: "unat i div 8 < length a" "unat i div 8 < length b"
    using a b assms(3) div8_mono [OF assms(4)] by simp_all
  have "bits_nth (map2 (word_op type) a b) (unat i) = bool_op type (bits_nth a (unat i)) (bits_nth b (unat i))"
    using len by (simp add: bits_nth_def bit_word_op)
  moreover have "\<not> valid_bits m < i" "\<not> valid_bits p < i" using assms(3,4) by auto
  ultimately show ?thesis
    using GetBit_eq [OF inv, of "map2 (word_op type) a b" i] GetBit_eq [OF assms(1) a(1), of i]
      GetBit_eq [OF assms(2) b(1), of i]
    by (simp add: BitMap_mem_def r)
qed

lemma BitMap_new_inv: "BitMap_inv (BitMap_new n)" "valid_bits (BitMap_new n) = n"
  by (simp_all add: BitMap_inv_def BitMap_new_def Let_def)

lemma BitMap_new_mem: "\<not> BitMap_mem i (BitMap_new n)"
proof (cases "n < i")
  case True
  then show ?thesis by (simp add: BitMap_mem_def GetBit_def BitMap_new_def Let_def)
next
  case False
  then have "unat i div 8 \<le> unat n div 8" by (simp add: div8_mono not_less)
  then show ?thesis
    using GetBit_eq [OF BitMap_new_inv(1), of n "replicate (unat (drop_bit 3 n) + 1) 0" i]
    by (simp add: BitMap_mem_def BitMap_new_def Let_def bits_nth_def unat_drop_bit_div del: replicate.simps replicate_Suc)
qed

lemma CopyTo_default: "BitMap_inv m \<Longrightarrow> CopyTo m BitMap_default = (OK, m)"
  by (auto simp: CopyTo_def BitMap_default_def BitMap_inv_def split: option.splits)

section \<open>The interface the garbage collector relies on\<close>

locale bit_array =
  fixes inv :: "'m \<Rightarrow> bool"
    and lim :: "'m \<Rightarrow> u64"
    and get :: "'m \<Rightarrow> u64 \<Rightarrow> status + int"
    and put :: "'m \<Rightarrow> u64 \<Rightarrow> int \<Rightarrow> status \<times> 'm"
  assumes put_ok: "\<lbrakk>inv m; i \<le> lim m; on \<in> {0, 1}\<rbrakk> \<Longrightarrow> fst (put m i on) = OK"
    and put_inv: "inv m \<Longrightarrow> inv (snd (put m i on)) \<and> lim (snd (put m i on)) = lim m"
    and get_put: "\<lbrakk>inv m; i \<le> lim m; j \<le> lim m; on \<in> {0, 1}\<rbrakk> \<Longrightarrow>
      get (snd (put m i on)) j = (if j = i then Inr on else get m j)"
begin

lemma put_all_inv:
  "inv m \<Longrightarrow> inv (foldl (\<lambda>m i. snd (put m i 1)) m is) \<and> lim (foldl (\<lambda>m i. snd (put m i 1)) m is) = lim m"
  by (induction "is" arbitrary: m) (use put_inv in fastforce)+

lemma get_put_all:
  "\<lbrakk>inv m; \<forall>i\<in>set is. i \<le> lim m; j \<le> lim m\<rbrakk> \<Longrightarrow>
   get (foldl (\<lambda>m i. snd (put m i 1)) m is) j = (if j \<in> set is then Inr 1 else get m j)"
proof (induction "is" arbitrary: m)
  case (Cons i "is")
  then show ?case
    using put_inv [of m i 1] get_put [of m i j 1] by (auto simp: Cons.IH)
qed simp

end

interpretation bm: bit_array BitMap_inv valid_bits GetBit SetBit
proof
  show "fst (SetBit m i on) = OK" if "BitMap_inv m" "i \<le> valid_bits m" "on \<in> {0, 1}" for m i on
    using that SetBit_ok_iff by blast
  show "BitMap_inv (snd (SetBit m i on)) \<and> valid_bits (snd (SetBit m i on)) = valid_bits m"
    if "BitMap_inv m" for m i on
    using SetBit_inv [OF that] by (metis prod.collapse)
qed (rule GetBit_SetBit)

section \<open>Properties\<close>

text \<open>
  C15: the bulk operation on bitmaps, with its pass over four words at a time and its byte-wise rest,
  is the operation on every bit: for well-formed bitmaps of the same length it succeeds, keeps the
  left one well formed and sets each of its bits to the operation applied to the two bits.
\<close>

theorem BitOps_is_bitwise:
  assumes "BitMap_inv m" "BitMap_inv p" "valid_bits m = valid_bits p" "i \<le> valid_bits m"
  shows "fst (BitOps m type (Some p)) = OK \<and> BitMap_inv (snd (BitOps m type (Some p))) \<and>
    valid_bits (snd (BitOps m type (Some p))) = valid_bits m \<and>
    BitMap_mem i (snd (BitOps m type (Some p))) = bool_op type (BitMap_mem i m) (BitMap_mem i p)"
proof -
  obtain a b where "bits m = Some a" "bits p = Some b" using assms(1,2) by (meson BitMap_invE)
  then show ?thesis using BitOps_eq [OF assms(1-3)] BitOps_inv [OF assms(1-3)] BitOps_mem [OF assms] by simp
qed

definition demo_bits :: BitMap where
  "demo_bits = snd (SetBit (BitMap_new 300) 299 1)"

theorem BitOps_is_bitwise_witness:
  "fst (BitOps (BitMap_new 300) kBitOr (Some demo_bits)) = OK \<and>
   BitMap_mem 299 (snd (BitOps (BitMap_new 300) kBitOr (Some demo_bits)))"
proof -
  have i: "BitMap_inv demo_bits" "valid_bits demo_bits = 300"
    using SetBit_inv [OF BitMap_new_inv(1), of 300 299 1] BitMap_new_inv(2) [of 300] by (metis demo_bits_def prod.collapse)+
  have "GetBit demo_bits 299 = Inr 1"
    unfolding demo_bits_def using GetBit_SetBit [OF BitMap_new_inv(1), of 299 300 299 1] BitMap_new_inv(2) [of 300] by simp
  then show ?thesis
    using BitOps_is_bitwise [OF BitMap_new_inv(1) i(1), of 300 299 kBitOr] i(2) BitMap_new_inv(2) [of 300]
    by (simp add: BitMap_mem_def)
qed

text \<open>
  C17: setting a bit sets that bit and no other, an index past the end or a value that is no bit is
  rejected and leaves the bitmap as it was, and reading past the end is an error.
\<close>

theorem SetBit_GetBit:
  assumes "BitMap_inv m" "j \<le> valid_bits m"
  shows "if i \<le> valid_bits m \<and> on \<in> {0, 1}
         then fst (SetBit m i on) = OK \<and> BitMap_inv (snd (SetBit m i on)) \<and>
              GetBit (snd (SetBit m i on)) j = (if j = i then Inr on else GetBit m j)
         else fst (SetBit m i on) \<noteq> OK \<and> snd (SetBit m i on) = m \<and>
              (valid_bits m < i \<longleftrightarrow> GetBit m i = Inl (InvalidArgument ''bit is not an integer or out of range''))"
proof (cases "i \<le> valid_bits m \<and> on \<in> {0, 1}")
  case True
  have "BitMap_inv (snd (SetBit m i on))" using SetBit_inv [OF assms(1)] by (metis prod.collapse)
  moreover have "fst (SetBit m i on) = OK" using SetBit_ok_iff [OF assms(1)] True by blast
  ultimately show ?thesis using True GetBit_SetBit [OF assms(1) _ assms(2)] by simp
next
  case False
  obtain bs where bs: "bits m = Some bs" using assms(1) by (rule BitMap_invE)
  have "fst (SetBit m i on) \<noteq> OK" using False SetBit_ok_iff [OF assms(1)] by blast
  moreover from this have "snd (SetBit m i on) = m" by (auto simp: SetBit_def Let_def split: option.splits if_splits)
  moreover have "valid_bits m < i \<longleftrightarrow> GetBit m i = Inl (InvalidArgument ''bit is not an integer or out of range'')"
    using GetBit_eq [OF assms(1) bs, of i] by simp
  ultimately show ?thesis using False by (simp only: if_False) simp
qed

theorem SetBit_GetBit_witness:
  "fst (SetBit (BitMap_new 5) 3 1) = OK \<and> GetBit (snd (SetBit (BitMap_new 5) 3 1)) 3 = Inr 1"
  using SetBit_GetBit [OF BitMap_new_inv(1), of 3 5 3 1] BitMap_new_inv(2) [of 5] by simp

end
