(* ===== verification/Titan_Stats.thy ===== *)
theory Titan_Stats
  imports Titan_Prelude
begin

text \<open>
  The counters of \<open>src/titan_stats.h\<close>. A counter is an atomic 64-bit word; additions and
  subtractions wrap, and a signed argument is converted to the unsigned parameter.
\<close>

datatype StatsType =
    LIVE_BLOB_SIZE
  | NUM_LIVE_BLOB_FILE
  | NUM_OBSOLETE_BLOB_FILE
  | LIVE_BLOB_FILE_SIZE
  | OBSOLETE_BLOB_FILE_SIZE
  | NUM_DISCARDABLE_RATIO_LE0
  | NUM_DISCARDABLE_RATIO_LE20
  | NUM_DISCARDABLE_RATIO_LE50
  | NUM_DISCARDABLE_RATIO_LE80
  | NUM_DISCARDABLE_RATIO_LE100

type_synonym stats = "StatsType \<Rightarrow> u64"

definition Clear :: "stats \<Rightarrow> stats" where
  "Clear st = (\<lambda>_. 0)"

definition ResetStats :: "StatsType \<Rightarrow> stats \<Rightarrow> stats" where
  "ResetStats type st = st(type := 0)"

definition AddStats :: "StatsType \<Rightarrow> u64 \<Rightarrow> stats \<Rightarrow> stats" where
  "AddStats type v st = st(type := st type + v)"

definition SubStats :: "StatsType \<Rightarrow> u64 \<Rightarrow> stats \<Rightarrow> stats" where
  "SubStats type v st = st(type := st type - v)"

lemma SubStats_AddStats: "SubStats type v (AddStats type v st) = st"
  by (simp add: SubStats_def AddStats_def)

lemma AddStats_commute: "AddStats a v (AddStats b w st) = AddStats b w (AddStats a v st)"
  by (auto simp: AddStats_def fun_eq_iff)

lemma stats_apply [simp]:
  "AddStats type v st k = (if k = type then st k + v else st k)"
  "SubStats type v st k = (if k = type then st k - v else st k)"
  "ResetStats type st k = (if k = type then 0 else st k)"
  "Clear st k = 0"
  by (simp_all add: AddStats_def SubStats_def ResetStats_def Clear_def)

end
