(* ===== verification/Blob_Format.thy ===== *)
theory Blob_Format
  imports Crc32c Bit_Map Titan_Stats
begin

text \<open>
  \<open>src/blob_format.{h,cc}\<close>: the on-disk formats of blob records, handles, indexes, file metadata,
  headers and footers, and the in-memory \<open>BlobFileMeta\<close> with its file-state machine. The
  compression library is a parameter: \<open>CompressData\<close> and \<open>UncompressData\<close> take the compression
  type and the input. \<open>DecodeFrom\<close> decodes into a default-constructed object, as all callers do.
\<close>

section \<open>Sizes\<close>

definition kBlobMaxHeaderSize :: u64 where "kBlobMaxHeaderSize = 12"
definition kRecordHeaderSize :: u64 where "kRecordHeaderSize = 9"
definition kBlobFooterSize :: u64 where "kBlobFooterSize = 32"

section \<open>Generic helpers\<close>

definition GetChar :: "bytes \<Rightarrow> (byte \<times> bytes) option" where
  "GetChar src = (case src of [] \<Rightarrow> None | c # src' \<Rightarrow> Some (c, src'))"

definition DecodeInto ::
    "(bytes \<Rightarrow> status + ('a \<times> bytes)) \<Rightarrow> bytes \<Rightarrow> bool \<Rightarrow> status + 'a" where
  "DecodeInto DecodeFrom src ignore_extra_bytes =
     (case DecodeFrom src of
        Inl s \<Rightarrow> Inl s
      | Inr (target, tmp) \<Rightarrow>
          if \<not> ignore_extra_bytes \<and> tmp \<noteq> [] then
            Inl (Corruption ''redundant bytes when decoding blob file'')
          else Inr target)"

section \<open>Blob records\<close>

record BlobRecord =
  rec_key :: bytes
  rec_value :: bytes

definition BlobRecord_EncodeTo :: "BlobRecord \<Rightarrow> bytes" where
  "BlobRecord_EncodeTo r =
     PutLengthPrefixedSlice (rec_key r) @ PutLengthPrefixedSlice (rec_value r)"

definition BlobRecord_DecodeFrom :: "bytes \<Rightarrow> status + (BlobRecord \<times> bytes)" where
  "BlobRecord_DecodeFrom src =
     (case GetLengthPrefixedSlice src of
        None \<Rightarrow> Inl (Corruption ''BlobRecord'')
      | Some (k, src1) \<Rightarrow>
          (case GetLengthPrefixedSlice src1 of
             None \<Rightarrow> Inl (Corruption ''BlobRecord'')
           | Some (v, src2) \<Rightarrow> Inr (\<lparr> rec_key = k, rec_value = v \<rparr>, src2)))"

definition BlobRecord_size :: "BlobRecord \<Rightarrow> nat" where
  "BlobRecord_size r = length (rec_key r) + length (rec_value r)"

section \<open>Compression (\<open>src/util.cc\<close>)\<close>

definition kNoCompression :: byte where "kNoCompression = 0"

definition GoodCompressionRatio :: "u64 \<Rightarrow> u64 \<Rightarrow> bool" where
  "GoodCompressionRatio compressed_size raw_size \<longleftrightarrow> compressed_size < raw_size - raw_size div 8"

definition Compress ::
    "(byte \<Rightarrow> bytes \<Rightarrow> bytes option) \<Rightarrow> byte \<Rightarrow> bytes \<Rightarrow> bytes \<times> byte" where
  "Compress CompressData info_type input =
     (if info_type = kNoCompression then (input, info_type)
      else case CompressData info_type input of
             None \<Rightarrow> (input, kNoCompression)
           | Some output \<Rightarrow> (output, info_type))"

definition Uncompress ::
    "(byte \<Rightarrow> bytes \<Rightarrow> bytes option) \<Rightarrow> byte \<Rightarrow> bytes \<Rightarrow> status + bytes" where
  "Uncompress UncompressData info_type input =
     (case UncompressData info_type input of
        None \<Rightarrow> Inl (Corruption ''Corrupted compressed blob'')
      | Some output \<Rightarrow> Inr output)"

section \<open>Record encoder and decoder\<close>

record BlobEncoder =
  enc_header :: bytes
  enc_record :: bytes

definition EncodeSlice ::
    "(byte \<Rightarrow> bytes \<Rightarrow> bytes option) \<Rightarrow> byte \<Rightarrow> bytes \<Rightarrow> BlobEncoder" where
  "EncodeSlice CompressData ctype input =
     (let (rec, compression) = Compress CompressData ctype input;
          tail = EncodeFixed32 (of_nat (length rec)) @ [compression];
          crc = crc32c_Value tail;
          crc = Extend crc rec
      in \<lparr> enc_header = EncodeFixed32 crc @ tail, enc_record = rec \<rparr>)"

text \<open>The assertion of \<open>EncodeSlice\<close>, as a predicate beside it: the stored size fits its four bytes, with one value to spare.\<close>

definition EncodeSlice_assert ::
    "(byte \<Rightarrow> bytes \<Rightarrow> bytes option) \<Rightarrow> byte \<Rightarrow> bytes \<Rightarrow> bool" where
  "EncodeSlice_assert CompressData ctype input \<longleftrightarrow> length (fst (Compress CompressData ctype input)) < 2 ^ 32 - 1"

definition EncodeRecord ::
    "(byte \<Rightarrow> bytes \<Rightarrow> bytes option) \<Rightarrow> byte \<Rightarrow> BlobRecord \<Rightarrow> BlobEncoder" where
  "EncodeRecord CompressData ctype r = EncodeSlice CompressData ctype (BlobRecord_EncodeTo r)"

definition GetEncodedSize :: "BlobEncoder \<Rightarrow> nat" where
  "GetEncodedSize e = length (enc_header e) + length (enc_record e)"

record BlobDecoder =
  dec_crc :: u32
  dec_header_crc :: u32
  dec_record_size :: u32
  dec_compression :: byte

definition DecodeHeader :: "bytes \<Rightarrow> status + (BlobDecoder \<times> bytes)" where
  "DecodeHeader src =
     (case GetFixed32 src of
        None \<Rightarrow> Inl (Corruption ''BlobHeader'')
      | Some (crc, src1) \<Rightarrow>
          let header_crc = crc32c_Value (take 5 src1) in
          (case GetFixed32 src1 of
             None \<Rightarrow> Inl (Corruption ''BlobHeader'')
           | Some (record_size, src2) \<Rightarrow>
               (case GetChar src2 of
                  None \<Rightarrow> Inl (Corruption ''BlobHeader'')
                | Some (compression, src3) \<Rightarrow>
                    Inr (\<lparr> dec_crc = crc, dec_header_crc = header_crc,
                           dec_record_size = record_size, dec_compression = compression \<rparr>, src3))))"

text \<open>
  The first test of \<open>DecodeRecord\<close> is the assertion of \<open>Slice::remove_prefix\<close> (\<open>slice.h\<close>), which the
  source calls with the size in the header: when it does not hold the source stops there, or, with
  assertions compiled out, reads past the end of its input.
\<close>

definition DecodeRecord ::
    "(byte \<Rightarrow> bytes \<Rightarrow> bytes option) \<Rightarrow> BlobDecoder \<Rightarrow> bytes \<Rightarrow> status + (BlobRecord \<times> bytes)" where
  "DecodeRecord UncompressData d src =
     (let n = unat (dec_record_size d) in
      if length src < n then Inl (Undefined ''record past the end of its slice'')
      else
        let input = take n src; src' = drop n src;
            crc = Extend (dec_header_crc d) input
        in if crc \<noteq> dec_crc d then Inl (Corruption ''BlobRecord: checksum mismatch'')
           else if dec_compression d = kNoCompression then
             (case DecodeInto BlobRecord_DecodeFrom input False of
                Inl s \<Rightarrow> Inl s | Inr r \<Rightarrow> Inr (r, src'))
           else
             (case Uncompress UncompressData (dec_compression d) input of
                Inl s \<Rightarrow> Inl s
              | Inr buffer \<Rightarrow>
                  (case DecodeInto BlobRecord_DecodeFrom buffer False of
                     Inl s \<Rightarrow> Inl s | Inr r \<Rightarrow> Inr (r, src'))))"

section \<open>Handles and indexes\<close>

record BlobHandle =
  bh_offset :: u64
  bh_size :: u64
  bh_index :: u64

definition BlobHandle_default :: BlobHandle where
  "BlobHandle_default = \<lparr> bh_offset = 0, bh_size = 0, bh_index = 0 \<rparr>"

definition BlobHandle_EncodeTo :: "BlobHandle \<Rightarrow> bytes" where
  "BlobHandle_EncodeTo h = PutVarint64 (bh_offset h) @ PutVarint64 (bh_size h) @ PutVarint64 (bh_index h)"

definition BlobHandle_DecodeFrom :: "bytes \<Rightarrow> status + (BlobHandle \<times> bytes)" where
  "BlobHandle_DecodeFrom src =
     (case do { (off, src) \<leftarrow> GetVarint64 src;
                (sz, src) \<leftarrow> GetVarint64 src;
                (ix, src) \<leftarrow> GetVarint64 src;
                Some (\<lparr> bh_offset = off, bh_size = sz, bh_index = ix \<rparr>, src) } of
        None \<Rightarrow> Inl (Corruption ''BlobHandle'')
      | Some r \<Rightarrow> Inr r)"

definition BlobHandle_eq :: "BlobHandle \<Rightarrow> BlobHandle \<Rightarrow> bool" where
  "BlobHandle_eq lhs rhs \<longleftrightarrow> bh_offset lhs = bh_offset rhs \<and> bh_size lhs = bh_size rhs"

definition kBlobRecord :: byte where "kBlobRecord = 1"

record BlobIndex =
  bi_file_number :: u64
  bi_blob_handle :: BlobHandle
  bi_old_file_number :: u64
  bi_old_blob_handle :: BlobHandle

definition BlobIndex_EncodeTo :: "BlobIndex \<Rightarrow> bytes" where
  "BlobIndex_EncodeTo i =
     [kBlobRecord] @ PutVarint64 (bi_file_number i) @ BlobHandle_EncodeTo (bi_blob_handle i)
     @ (if 0 < bi_old_file_number i
        then PutVarint64 (bi_old_file_number i) @ BlobHandle_EncodeTo (bi_old_blob_handle i)
        else [])"

definition BlobIndex_DecodeFrom :: "bytes \<Rightarrow> status + (BlobIndex \<times> bytes)" where
  "BlobIndex_DecodeFrom src =
     (case do { (type, src) \<leftarrow> GetChar src;
                if type \<noteq> kBlobRecord then None else GetVarint64 src } of
        None \<Rightarrow> Inl (Corruption ''BlobIndex1'')
      | Some (fn, src) \<Rightarrow>
          (case BlobHandle_DecodeFrom src of
             Inl s \<Rightarrow> Inl (Corruption ''BlobIndex2'')
           | Inr (h, src) \<Rightarrow>
               if src \<noteq> [] then
                 (case GetVarint64 src of
                    None \<Rightarrow> Inl (Corruption ''BlobIndex3'')
                  | Some (ofn, src) \<Rightarrow>
                      (case BlobHandle_DecodeFrom src of
                         Inl s \<Rightarrow> Inl (Corruption ''BlobIndex4'')
                       | Inr (oh, src) \<Rightarrow>
                           Inr (\<lparr> bi_file_number = fn, bi_blob_handle = h,
                                  bi_old_file_number = ofn, bi_old_blob_handle = oh \<rparr>, src)))
               else Inr (\<lparr> bi_file_number = fn, bi_blob_handle = h,
                           bi_old_file_number = 0, bi_old_blob_handle = BlobHandle_default \<rparr>, src)))"

definition BlobIndex_eq :: "BlobIndex \<Rightarrow> BlobIndex \<Rightarrow> bool" where
  "BlobIndex_eq lhs rhs \<longleftrightarrow>
     bi_file_number lhs = bi_file_number rhs \<and> BlobHandle_eq (bi_blob_handle lhs) (bi_blob_handle rhs)"

section \<open>File metadata\<close>

datatype FileEvent =
    kInitEvent
  | kFlushCompleted
  | kCompactionCompleted
  | kGCCompleted
  | kGCBegin
  | kGCOutput
  | kFlushOrCompactionOutput
  | kDbRestart
  | kDelete
  | kNeedMerge
  | kReset

datatype FileState =
    kInit
  | kNormal
  | kPendingLSM
  | kBeingGC
  | kPendingGC
  | kObsolete
  | kToMerge

record BlobFileMeta =
  file_number :: u64
  file_size :: u64
  file_entries :: u64
  file_level :: u32
  smallest_key :: bytes
  largest_key :: bytes
  live_data_size :: u64
  file_state :: FileState
  invalid_entry_indexes :: "BitMap option"

definition BlobFileMeta_new :: "u64 \<Rightarrow> u64 \<Rightarrow> u64 \<Rightarrow> u32 \<Rightarrow> bytes \<Rightarrow> bytes \<Rightarrow> BlobFileMeta" where
  "BlobFileMeta_new number sz entries level smallest largest =
     \<lparr> file_number = number, file_size = sz, file_entries = entries, file_level = level,
       smallest_key = smallest, largest_key = largest, live_data_size = 0, file_state = kInit,
       invalid_entry_indexes = Some (BitMap_new entries) \<rparr>"

definition BlobFileMeta_EncodeTo :: "BlobFileMeta \<Rightarrow> bytes" where
  "BlobFileMeta_EncodeTo m =
     PutVarint64 (file_number m) @ PutVarint64 (file_size m) @ PutVarint64 (file_entries m)
     @ PutVarint32 (file_level m) @ PutLengthPrefixedSlice (smallest_key m)
     @ PutLengthPrefixedSlice (largest_key m)"

text \<open>
  The legacy format leaves \<open>file_entries_\<close> and \<open>file_level_\<close> at the indeterminate values
  \<open>entries\<close> and \<open>level\<close> of the default-constructed object, and its bitmap null.
\<close>

definition BlobFileMeta_DecodeFromLegacy ::
    "u64 \<Rightarrow> u32 \<Rightarrow> bytes \<Rightarrow> status + (BlobFileMeta \<times> bytes)" where
  "BlobFileMeta_DecodeFromLegacy entries level src =
     (case do { (fn, src) \<leftarrow> GetVarint64 src; (fs, src) \<leftarrow> GetVarint64 src; Some (fn, fs, src) } of
        None \<Rightarrow> Inl (Corruption ''BlobFileMeta decode legacy failed'')
      | Some (fn, fs, src) \<Rightarrow>
          Inr (\<lparr> file_number = fn, file_size = fs, file_entries = entries, file_level = level,
                 smallest_key = [], largest_key = [], live_data_size = 0, file_state = kInit,
                 invalid_entry_indexes = None \<rparr>, src))"

definition BlobFileMeta_DecodeFrom :: "bytes \<Rightarrow> status + (BlobFileMeta \<times> bytes)" where
  "BlobFileMeta_DecodeFrom src =
     (case do { (fn, src) \<leftarrow> GetVarint64 src;
                (fs, src) \<leftarrow> GetVarint64 src;
                (fe, src) \<leftarrow> GetVarint64 src;
                (fl, src) \<leftarrow> GetVarint32 src;
                Some (fn, fs, fe, fl, src) } of
        None \<Rightarrow> Inl (Corruption ''BlobFileMeta decode failed'')
      | Some (fn, fs, fe, fl, src) \<Rightarrow>
          (case GetLengthPrefixedSlice src of
             None \<Rightarrow> Inl (Corruption ''BlobSmallestKey Decode failed'')
           | Some (smallest, src) \<Rightarrow>
               (case GetLengthPrefixedSlice src of
                  None \<Rightarrow> Inl (Corruption ''BlobLargestKey decode failed'')
                | Some (largest, src) \<Rightarrow>
                    Inr (BlobFileMeta_new fn fs fe fl smallest largest, src))))"

definition BlobFileMeta_eq :: "BlobFileMeta \<Rightarrow> BlobFileMeta \<Rightarrow> bool" where
  "BlobFileMeta_eq lhs rhs \<longleftrightarrow>
     file_number lhs = file_number rhs \<and> file_size lhs = file_size rhs
     \<and> file_entries lhs = file_entries rhs \<and> file_level lhs = file_level rhs"

text \<open>The assertion of each case, and the state it moves to.\<close>

definition transit_assert :: "FileEvent \<Rightarrow> FileState \<Rightarrow> bool" where
  "transit_assert event st =
     (case event of
        kFlushCompleted \<Rightarrow> st \<in> {kPendingLSM, kPendingGC, kNormal, kBeingGC, kObsolete}
      | kGCCompleted \<Rightarrow> st = kObsolete \<or> st = kPendingGC \<or> st = kBeingGC
      | kCompactionCompleted \<Rightarrow> st = kPendingLSM
      | kGCBegin \<Rightarrow> st = kNormal
      | kGCOutput \<Rightarrow> st = kInit
      | kFlushOrCompactionOutput \<Rightarrow> st = kInit
      | kDbRestart \<Rightarrow> st = kInit
      | kDelete \<Rightarrow> st \<noteq> kObsolete
      | kNeedMerge \<Rightarrow> st = kToMerge \<or> st = kNormal
      | kReset \<Rightarrow> True
      | kInitEvent \<Rightarrow> False)"

definition transit :: "FileEvent \<Rightarrow> FileState \<Rightarrow> FileState" where
  "transit event st =
     (case event of
        kFlushCompleted \<Rightarrow> if st = kPendingLSM then kNormal else st
      | kGCCompleted \<Rightarrow> if st = kObsolete then st else kNormal
      | kCompactionCompleted \<Rightarrow> kNormal
      | kGCBegin \<Rightarrow> kBeingGC
      | kGCOutput \<Rightarrow> kPendingGC
      | kFlushOrCompactionOutput \<Rightarrow> kPendingLSM
      | kDbRestart \<Rightarrow> kNormal
      | kDelete \<Rightarrow> kObsolete
      | kNeedMerge \<Rightarrow> if st = kToMerge then st else kToMerge
      | kReset \<Rightarrow> kNormal
      | kInitEvent \<Rightarrow> st)"

definition FileStateTransit :: "FileEvent \<Rightarrow> BlobFileMeta \<Rightarrow> BlobFileMeta" where
  "FileStateTransit event m = m\<lparr> file_state := transit event (file_state m) \<rparr>"

definition is_obsolete :: "BlobFileMeta \<Rightarrow> bool" where
  "is_obsolete m \<longleftrightarrow> file_state m = kObsolete"

definition UpdateLiveDataSize :: "64 word \<Rightarrow> BlobFileMeta \<Rightarrow> bool \<times> BlobFileMeta" where
  "UpdateLiveDataSize delta m =
     (let result = live_data_size m + delta in
      if sint result < 0 then (False, m\<lparr> live_data_size := 0 \<rparr>)
      else (True, m\<lparr> live_data_size := result \<rparr>))"

definition NoLiveData :: "BlobFileMeta \<Rightarrow> bool" where
  "NoLiveData m \<longleftrightarrow> live_data_size m = 0"

text \<open>
  Doubles are exact rationals with the special values the division can yield: the arithmetic is
  modelled without rounding.
\<close>

datatype dbl = Fin rat | NegInf | NaN

fun dbl_less :: "dbl \<Rightarrow> dbl \<Rightarrow> bool" where
  "dbl_less (Fin a) (Fin b) = (a < b)"
| "dbl_less NegInf (Fin b) = True"
| "dbl_less _ _ = False"

fun dbl_le :: "dbl \<Rightarrow> dbl \<Rightarrow> bool" where
  "dbl_le (Fin a) (Fin b) = (a \<le> b)"
| "dbl_le NegInf (Fin b) = True"
| "dbl_le NegInf NegInf = True"
| "dbl_le _ _ = False"

definition GetDiscardableRatio :: "BlobFileMeta \<Rightarrow> dbl" where
  "GetDiscardableRatio m =
     (if file_size m = 0 then Fin 0
      else
        let denom = file_size m - kBlobMaxHeaderSize - kBlobFooterSize in
        if denom = 0 then (if live_data_size m = 0 then NaN else NegInf)
        else Fin (1 - of_nat (unat (live_data_size m)) / of_nat (unat denom)))"

definition dbl_epsilon :: rat where "dbl_epsilon = 1 / 2 ^ 52"

definition GetDiscardableRatioLevel :: "BlobFileMeta \<Rightarrow> StatsType" where
  "GetDiscardableRatioLevel m =
     (let ratio = GetDiscardableRatio m in
      if dbl_less ratio (Fin dbl_epsilon) then NUM_DISCARDABLE_RATIO_LE0
      else if dbl_le ratio (Fin (1 / 5)) then NUM_DISCARDABLE_RATIO_LE20
      else if dbl_le ratio (Fin (1 / 2)) then NUM_DISCARDABLE_RATIO_LE50
      else if dbl_le ratio (Fin (4 / 5)) then NUM_DISCARDABLE_RATIO_LE80
      else NUM_DISCARDABLE_RATIO_LE100)"

definition UpdateInvalidEntryIndexes :: "BitMap \<Rightarrow> BlobFileMeta \<Rightarrow> status \<times> BlobFileMeta" where
  "UpdateInvalidEntryIndexes invalid_bits m =
     (case invalid_entry_indexes m of
        None \<Rightarrow> (Undefined ''null invalid_entry_indexes_'', m)
      | Some b \<Rightarrow>
          let (s, b') = BitOps b kBitOr (Some invalid_bits)
          in (s, m\<lparr> invalid_entry_indexes := Some b' \<rparr>))"

definition CopyInvalidEntryIndexesTo :: "BlobFileMeta \<Rightarrow> BitMap \<Rightarrow> status \<times> BitMap" where
  "CopyInvalidEntryIndexesTo m dest =
     (case invalid_entry_indexes m of
        None \<Rightarrow> (Undefined ''null invalid_entry_indexes_'', dest)
      | Some b \<Rightarrow> CopyTo b dest)"

section \<open>File header and footer\<close>

definition kHeaderMagicNumber :: u32 where "kHeaderMagicNumber = 0x2be0a614"
definition kVersion1 :: u32 where "kVersion1 = 1"
definition kVersion2 :: u32 where "kVersion2 = 2"
definition kHasUncompressionDictionary :: u32 where "kHasUncompressionDictionary = 1"

record BlobFileHeader =
  hdr_version :: u32
  hdr_flags :: u32

definition ValidateVersion :: "u32 \<Rightarrow> status" where
  "ValidateVersion ver =
     (if ver \<noteq> kVersion1 \<and> ver \<noteq> kVersion2
      then InvalidArgument ''unrecognized blob file version'' else OK)"

definition BlobFileHeader_size :: "BlobFileHeader \<Rightarrow> u64" where
  "BlobFileHeader_size h = (if hdr_version h = kVersion1 then 8 else 12)"

definition BlobFileHeader_EncodeTo :: "BlobFileHeader \<Rightarrow> bytes" where
  "BlobFileHeader_EncodeTo h =
     PutFixed32 kHeaderMagicNumber @ PutFixed32 (hdr_version h)
     @ (if hdr_version h = kVersion2 then PutFixed32 (hdr_flags h) else [])"

definition BlobFileHeader_DecodeFrom :: "bytes \<Rightarrow> status + (BlobFileHeader \<times> bytes)" where
  "BlobFileHeader_DecodeFrom src =
     (case GetFixed32 src of
        None \<Rightarrow> Inl (Corruption ''Blob file header magic number missing or mismatched.'')
      | Some (magic_number, src) \<Rightarrow>
          if magic_number \<noteq> kHeaderMagicNumber then
            Inl (Corruption ''Blob file header magic number missing or mismatched.'')
          else
            (case GetFixed32 src of
               None \<Rightarrow> Inl (Corruption ''Blob file header version missing or invalid.'')
             | Some (version, src) \<Rightarrow>
                 if version \<noteq> kVersion1 \<and> version \<noteq> kVersion2 then
                   Inl (Corruption ''Blob file header version missing or invalid.'')
                 else if version = kVersion2 then
                   (case GetFixed32 src of
                      None \<Rightarrow> Inl (Corruption ''Blob file header flags missing or invalid.'')
                    | Some (flags, src) \<Rightarrow>
                        if flags AND NOT kHasUncompressionDictionary \<noteq> 0 then
                          Inl (Corruption ''Blob file header flags missing or invalid.'')
                        else Inr (\<lparr> hdr_version = version, hdr_flags = flags \<rparr>, src))
                 else Inr (\<lparr> hdr_version = version, hdr_flags = 0 \<rparr>, src)))"

text \<open>\<open>BlockHandle\<close> of \<open>table/format.cc\<close>; its \<open>DecodeFrom\<close> zeroes the handle on failure.\<close>

record BlockHandle =
  blk_offset :: u64
  blk_size :: u64

definition NullBlockHandle :: BlockHandle where
  "NullBlockHandle = \<lparr> blk_offset = 0, blk_size = 0 \<rparr>"

definition BlockHandle_IsNull :: "BlockHandle \<Rightarrow> bool" where
  "BlockHandle_IsNull h \<longleftrightarrow> blk_offset h = 0 \<and> blk_size h = 0"

definition BlockHandle_EncodeTo :: "BlockHandle \<Rightarrow> bytes" where
  "BlockHandle_EncodeTo h = PutVarint64Varint64 (blk_offset h) (blk_size h)"

definition BlockHandle_DecodeFrom :: "bytes \<Rightarrow> status + (BlockHandle \<times> bytes)" where
  "BlockHandle_DecodeFrom src =
     (case do { (off, src) \<leftarrow> GetVarint64 src; (sz, src) \<leftarrow> GetVarint64 src;
                Some (\<lparr> blk_offset = off, blk_size = sz \<rparr>, src) } of
        None \<Rightarrow> Inl (Corruption ''bad block handle'')
      | Some r \<Rightarrow> Inr r)"

definition kFooterMagicNumber :: u64 where "kFooterMagicNumber = 0x2be0a6148e39edc6"

record BlobFileFooter =
  meta_index_handle :: BlockHandle

definition BlobFileFooter_EncodeTo :: "BlobFileFooter \<Rightarrow> bytes" where
  "BlobFileFooter_EncodeTo f =
     (let h = BlockHandle_EncodeTo (meta_index_handle f);
          padded = take 20 (h @ replicate 20 0);
          encoded = padded @ PutFixed64 kFooterMagicNumber
      in encoded @ PutFixed32 (crc32c_Value encoded))"

definition BlobFileFooter_DecodeFrom :: "bytes \<Rightarrow> status + (BlobFileFooter \<times> bytes)" where
  "BlobFileFooter_DecodeFrom data =
     (case BlockHandle_DecodeFrom data of
        Inl s \<Rightarrow> Inl (Corruption ''BlobFileFooter'')
      | Inr (h, src) \<Rightarrow>
          if length data < 20 then Inl (Undefined ''footer shorter than its padding'')
          else
            (case GetFixed64 (drop 20 data) of
               None \<Rightarrow> Inl (Corruption ''BlobFileFooter: magic number'')
             | Some (magic_number, src) \<Rightarrow>
                 if magic_number \<noteq> kFooterMagicNumber then
                   Inl (Corruption ''BlobFileFooter: magic number'')
                 else
                   let decoded = take 28 data in
                   (case GetFixed32 src of
                      None \<Rightarrow> Inl (Corruption ''BlobFileFooter: checksum'')
                    | Some (checksum, src) \<Rightarrow>
                        if crc32c_Value decoded \<noteq> checksum then
                          Inl (Corruption ''BlobFileFooter: checksum'')
                        else Inr (\<lparr> meta_index_handle = h \<rparr>, src))))"

definition BlobFileFooter_eq :: "BlobFileFooter \<Rightarrow> BlobFileFooter \<Rightarrow> bool" where
  "BlobFileFooter_eq lhs rhs \<longleftrightarrow>
     blk_offset (meta_index_handle lhs) = blk_offset (meta_index_handle rhs)
     \<and> blk_size (meta_index_handle lhs) = blk_size (meta_index_handle rhs)"

section \<open>Round trips\<close>

lemma GetChar_Cons [simp]: "GetChar (c # src) = Some (c, src)"
  by (simp add: GetChar_def)

lemma length_consumes:
  "GetVarint64 src = Some (x, r) \<Longrightarrow> length r < length src"
  "GetVarint32 src = Some (y, r) \<Longrightarrow> length r < length src"
  "GetFixed32 src = Some (y, r) \<Longrightarrow> length r < length src"
  "GetLengthPrefixedSlice src = Some (z, r) \<Longrightarrow> length r < length src"
  by (rule get_consumes, assumption)+

definition BlobRecord_wf :: "BlobRecord \<Rightarrow> bool" where
  "BlobRecord_wf r \<longleftrightarrow> length (rec_key r) < 2 ^ 32 \<and> length (rec_value r) < 2 ^ 32"

interpretation blob_record: status_codec BlobRecord_EncodeTo BlobRecord_DecodeFrom BlobRecord_wf
proof
  show "BlobRecord_DecodeFrom (BlobRecord_EncodeTo x @ rest) = Inr (x, rest)" if "BlobRecord_wf x" for x rest
    using that by (simp add: BlobRecord_wf_def BlobRecord_DecodeFrom_def BlobRecord_EncodeTo_def)
  show "length rest < length bs" if "BlobRecord_DecodeFrom bs = Inr (x, rest)" for bs x rest
    using that by (fastforce simp: BlobRecord_DecodeFrom_def split: option.splits prod.splits dest: length_consumes)
qed

interpretation blob_handle: status_codec BlobHandle_EncodeTo BlobHandle_DecodeFrom "\<lambda>_. True"
proof
  show "BlobHandle_DecodeFrom (BlobHandle_EncodeTo x @ rest) = Inr (x, rest)" for x rest
    by (simp add: BlobHandle_DecodeFrom_def BlobHandle_EncodeTo_def)
  show "length rest < length bs" if "BlobHandle_DecodeFrom bs = Inr (x, rest)" for bs x rest
    using that by (fastforce simp: BlobHandle_DecodeFrom_def bind_eq_Some_conv split: option.splits prod.splits dest: length_consumes)
qed

text \<open>What the manifest keeps of a file: its persistent fields, with fresh transient ones.\<close>

definition persistent :: "BlobFileMeta \<Rightarrow> BlobFileMeta" where
  "persistent m = BlobFileMeta_new (file_number m) (file_size m) (file_entries m) (file_level m)
                    (smallest_key m) (largest_key m)"

definition keys_short :: "BlobFileMeta \<Rightarrow> bool" where
  "keys_short m \<longleftrightarrow> length (smallest_key m) < 2 ^ 32 \<and> length (largest_key m) < 2 ^ 32"

lemma BlobFileMeta_roundtrip:
  "keys_short m \<Longrightarrow> BlobFileMeta_DecodeFrom (BlobFileMeta_EncodeTo m @ rest) = Inr (persistent m, rest)"
  by (simp add: keys_short_def BlobFileMeta_DecodeFrom_def BlobFileMeta_EncodeTo_def persistent_def)

lemma BlobFileMeta_consumes:
  "BlobFileMeta_DecodeFrom bs = Inr (x, rest) \<Longrightarrow> length rest < length bs"
  by (fastforce simp: BlobFileMeta_DecodeFrom_def bind_eq_Some_conv split: option.splits prod.splits dest: length_consumes)

interpretation blob_meta: status_codec BlobFileMeta_EncodeTo BlobFileMeta_DecodeFrom
  "\<lambda>m. keys_short m \<and> persistent m = m"
  by unfold_locales (simp_all add: BlobFileMeta_roundtrip BlobFileMeta_consumes)

lemma persistent_fields [simp]:
  "file_number (persistent m) = file_number m" "file_size (persistent m) = file_size m"
  "file_entries (persistent m) = file_entries m" "file_level (persistent m) = file_level m"
  "smallest_key (persistent m) = smallest_key m" "largest_key (persistent m) = largest_key m"
  "live_data_size (persistent m) = 0" "file_state (persistent m) = kInit"
  "invalid_entry_indexes (persistent m) = Some (BitMap_new (file_entries m))"
  by (simp_all add: persistent_def BlobFileMeta_new_def)

lemma persistent_idem [simp]: "persistent (persistent m) = persistent m"
  by (simp add: persistent_def BlobFileMeta_new_def)

definition BlobFileHeader_wf :: "BlobFileHeader \<Rightarrow> bool" where
  "BlobFileHeader_wf h \<longleftrightarrow>
     hdr_version h = kVersion1 \<and> hdr_flags h = 0
     \<or> hdr_version h = kVersion2 \<and> hdr_flags h AND NOT kHasUncompressionDictionary = 0"

interpretation blob_header: status_codec BlobFileHeader_EncodeTo BlobFileHeader_DecodeFrom BlobFileHeader_wf
proof
  show "BlobFileHeader_DecodeFrom (BlobFileHeader_EncodeTo x @ rest) = Inr (x, rest)" if "BlobFileHeader_wf x" for x rest
    using that
    by (cases x) (auto simp: BlobFileHeader_wf_def BlobFileHeader_DecodeFrom_def BlobFileHeader_EncodeTo_def
        kVersion1_def kVersion2_def)
  show "length rest < length bs" if "BlobFileHeader_DecodeFrom bs = Inr (x, rest)" for bs x rest
    using that by (fastforce simp: BlobFileHeader_DecodeFrom_def split: option.splits prod.splits if_splits dest: length_consumes)
qed

lemma length_BlobFileHeader:
  "BlobFileHeader_wf h \<Longrightarrow> length (BlobFileHeader_EncodeTo h) = unat (BlobFileHeader_size h)"
  by (auto simp: BlobFileHeader_wf_def BlobFileHeader_EncodeTo_def BlobFileHeader_size_def
      PutFixed32_def kVersion1_def kVersion2_def)

interpretation block_handle: status_codec BlockHandle_EncodeTo BlockHandle_DecodeFrom "\<lambda>_. True"
proof
  show "BlockHandle_DecodeFrom (BlockHandle_EncodeTo x @ rest) = Inr (x, rest)" for x rest
    by (simp add: BlockHandle_DecodeFrom_def BlockHandle_EncodeTo_def PutVarint64Varint64_def flip: PutVarint64_def)
  show "length rest < length bs" if "BlockHandle_DecodeFrom bs = Inr (x, rest)" for bs x rest
    using that by (fastforce simp: BlockHandle_DecodeFrom_def bind_eq_Some_conv split: option.splits prod.splits dest: length_consumes)
qed

lemma length_BlockHandle: "length (BlockHandle_EncodeTo h) \<le> 20"
  using length_PutVarint(1) [of "blk_offset h"] length_PutVarint(1) [of "blk_size h"]
  by (simp add: BlockHandle_EncodeTo_def PutVarint64Varint64_def flip: PutVarint64_def)

lemma length_BlobFileFooter: "length (BlobFileFooter_EncodeTo f) = unat kBlobFooterSize"
  by (simp add: BlobFileFooter_EncodeTo_def Let_def PutFixed64_def PutFixed32_def kBlobFooterSize_def)

interpretation blob_footer: status_codec BlobFileFooter_EncodeTo BlobFileFooter_DecodeFrom "\<lambda>_. True"
proof
  show "BlobFileFooter_DecodeFrom (BlobFileFooter_EncodeTo f @ rest) = Inr (f, rest)" for f rest
  proof -
    define h where "h = BlockHandle_EncodeTo (meta_index_handle f)"
    define pad where "pad = take (20 - length h) (replicate 20 (0 :: byte))"
    define encoded where "encoded = h @ pad @ PutFixed64 kFooterMagicNumber"
    have len: "length h \<le> 20" by (simp add: h_def length_BlockHandle)
    then have enc: "BlobFileFooter_EncodeTo f = encoded @ PutFixed32 (crc32c_Value encoded)"
      by (simp add: BlobFileFooter_EncodeTo_def Let_def encoded_def pad_def h_def)
    have hp: "length (h @ pad) = 20" using len by (simp add: pad_def)
    have d: "BlockHandle_DecodeFrom (BlobFileFooter_EncodeTo f @ rest) =
        Inr (meta_index_handle f, pad @ PutFixed64 kFooterMagicNumber @ PutFixed32 (crc32c_Value encoded) @ rest)"
      unfolding enc encoded_def h_def by (simp add: block_handle.decode_encode)
    have t: "take 28 (BlobFileFooter_EncodeTo f @ rest) = encoded"
      using hp by (simp add: enc encoded_def PutFixed64_def)
    have dr: "drop 20 (BlobFileFooter_EncodeTo f @ rest) =
        PutFixed64 kFooterMagicNumber @ PutFixed32 (crc32c_Value encoded) @ rest"
      using hp by (simp add: enc encoded_def)
    have "\<not> length (BlobFileFooter_EncodeTo f @ rest) < 20"
      using length_BlobFileFooter [of f] by (simp add: kBlobFooterSize_def)
    then show ?thesis
      unfolding BlobFileFooter_DecodeFrom_def Let_def d t dr by simp
  qed
  show "length rest < length bs" if "BlobFileFooter_DecodeFrom bs = Inr (x, rest)" for bs x rest
    using that
    by (auto simp: BlobFileFooter_DecodeFrom_def Let_def GetFixed64_def GetFixed32_def split: sum.splits option.splits prod.splits if_splits)
qed

definition BlobIndex_wf :: "BlobIndex \<Rightarrow> bool" where
  "BlobIndex_wf i \<longleftrightarrow> (bi_old_file_number i = 0 \<longrightarrow> bi_old_blob_handle i = BlobHandle_default)"

lemma BlobIndex_roundtrip:
  assumes "BlobIndex_wf i"
  shows "BlobIndex_DecodeFrom (BlobIndex_EncodeTo i) = Inr (i, [])"
proof (cases "bi_old_file_number i = 0")
  case True
  then show ?thesis
    using assms blob_handle.decode_encode [of "bi_blob_handle i" "[]"]
    by (cases i) (simp add: BlobIndex_DecodeFrom_def BlobIndex_EncodeTo_def BlobIndex_wf_def)
next
  case False
  then have "0 < bi_old_file_number i" by (simp add: word_gt_0)
  moreover have "PutVarint64 (bi_old_file_number i) \<noteq> []" by (rule varint64.enc_nonempty) simp
  ultimately show ?thesis
    using blob_handle.decode_encode [of "bi_old_blob_handle i" "[]"]
    by (cases i) (simp add: BlobIndex_DecodeFrom_def BlobIndex_EncodeTo_def blob_handle.decode_encode)
qed

section \<open>Encoding and decoding a record\<close>

lemma Compress_size: "Compress C t input = (out, t') \<Longrightarrow> t' = t \<or> t' = kNoCompression"
  by (auto simp: Compress_def split: if_splits option.splits)

lemma length_enc_header [simp]: "length (enc_header (EncodeSlice C t input)) = 9"
  by (simp add: EncodeSlice_def Let_def split: prod.splits)

text \<open>The contract of the compression library: what it compressed it can restore.\<close>

definition compression_ok :: "(byte \<Rightarrow> bytes \<Rightarrow> bytes option) \<Rightarrow> (byte \<Rightarrow> bytes \<Rightarrow> bytes option) \<Rightarrow> bool" where
  "compression_ok C U \<longleftrightarrow> (\<forall>t input out. C t input = Some out \<longrightarrow> U t out = Some input)"

lemma DecodeHeader_EncodeSlice:
  "DecodeHeader (enc_header (EncodeSlice C t input) @ rest) =
     Inr (\<lparr> dec_crc = Extend (crc32c_Value (EncodeFixed32 (of_nat (length (fst (Compress C t input)))) @ [snd (Compress C t input)]))
                         (fst (Compress C t input)),
            dec_header_crc = crc32c_Value (EncodeFixed32 (of_nat (length (fst (Compress C t input)))) @ [snd (Compress C t input)]),
            dec_record_size = of_nat (length (fst (Compress C t input))),
            dec_compression = snd (Compress C t input) \<rparr>, rest)"
  using get_put(1) [unfolded PutFixed32_def]
  by (simp add: DecodeHeader_def EncodeSlice_def Let_def split: prod.splits)

lemma EncodeSlice_assert_size: "EncodeSlice_assert C t input \<Longrightarrow> length (enc_record (EncodeSlice C t input)) < 2 ^ 32"
  by (auto simp: EncodeSlice_assert_def EncodeSlice_def Let_def case_prod_unfold)

lemma DecodeInto_record:
  "BlobRecord_wf r \<Longrightarrow> DecodeInto BlobRecord_DecodeFrom (BlobRecord_EncodeTo r) False = Inr r"
  using blob_record.decode_encode [of r "[]"] by (simp add: DecodeInto_def)

lemma DecodeRecord_EncodeRecord:
  assumes "BlobRecord_wf r" "compression_ok C U"
    and "length (enc_record (EncodeRecord C t r)) < 2 ^ 32"
  shows "\<exists>d. DecodeHeader (enc_header (EncodeRecord C t r) @ enc_record (EncodeRecord C t r) @ rest)
               = Inr (d, enc_record (EncodeRecord C t r) @ rest)
           \<and> unat (dec_record_size d) = length (enc_record (EncodeRecord C t r))
           \<and> DecodeRecord U d (enc_record (EncodeRecord C t r) @ rest) = Inr (r, rest)"
proof -
  let ?in = "BlobRecord_EncodeTo r"
  have rc: "enc_record (EncodeRecord C t r) = fst (Compress C t ?in)"
    by (simp add: EncodeRecord_def EncodeSlice_def Let_def split: prod.splits)
  have sz: "unat (of_nat (length (fst (Compress C t ?in))) :: u32) = length (fst (Compress C t ?in))"
    using assms(3) by (simp add: rc)
  have body: "(if snd (Compress C t ?in) = kNoCompression then fst (Compress C t ?in) = ?in
               else U (snd (Compress C t ?in)) (fst (Compress C t ?in)) = Some ?in)"
    using assms(2) by (auto simp: Compress_def compression_ok_def split: option.splits)
  have dh: "DecodeHeader (enc_header (EncodeRecord C t r) @ x) = DecodeHeader (enc_header (EncodeSlice C t ?in) @ x)" for x
    by (simp add: EncodeRecord_def)
  show ?thesis
    unfolding rc dh DecodeHeader_EncodeSlice
    using body sz DecodeInto_record [OF assms(1)]
    by (auto simp: DecodeRecord_def Uncompress_def Let_def split: if_splits)
qed

text \<open>
  The checksum of a record whose bytes are all in the input: the stored one against that of the
  five remaining header bytes and the payload.
\<close>

lemma DecodeInto_not_mismatch: "DecodeInto BlobRecord_DecodeFrom src eof \<noteq> Inl (Corruption ''BlobRecord: checksum mismatch'')"
  by (auto simp: DecodeInto_def BlobRecord_DecodeFrom_def split: option.splits sum.splits if_splits)

lemma DecodeRecord_checksum:
  assumes "DecodeHeader src = Inr (d, src1)" "unat (dec_record_size d) \<le> length src1"
  shows "src1 = drop 9 src \<and>
    (crc32c_Value (take (5 + unat (dec_record_size d)) (drop 4 src)) = DecodeFixed32 src \<longleftrightarrow>
      Extend (dec_header_crc d) (take (unat (dec_record_size d)) src1) = dec_crc d)"
proof -
  have d8: "\<exists>c. drop 8 src = c # src1"
    and d: "dec_crc d = DecodeFixed32 src" "dec_header_crc d = crc32c_Value (take 5 (drop 4 src))"
    using assms(1)
    by (auto simp: DecodeHeader_def GetFixed32_def GetChar_def Let_def
        split: option.splits if_splits list.splits)
  have len: "9 \<le> length src" using d8 arg_cong [of "drop 8 src" _ length] by fastforce
  obtain c where c: "drop 8 src = c # src1" using d8 by blast
  have "drop 9 src = drop 1 (drop 8 src)" by (subst drop_drop) simp
  also have "\<dots> = src1" unfolding c by simp
  finally have src1: "src1 = drop 9 src" ..
  let ?n = "unat (dec_record_size d)"
  have "take (5 + ?n) (drop 4 src) = take 5 (drop 4 src) @ take ?n src1"
    by (simp add: take_add src1)
  then have "crc32c_Value (take (5 + ?n) (drop 4 src)) = Extend (dec_header_crc d) (take ?n src1)"
    using d by (simp add: crc32c_Value_def flip: Extend_append)
  then show ?thesis using d src1 by simp
qed

section \<open>The life cycle of a blob file\<close>

text \<open>
  A step applies an event whose assertion holds; \<open>kReset\<close> serves tests only. A run is the list
  of events a file goes through.
\<close>

inductive file_run :: "FileState \<Rightarrow> FileEvent list \<Rightarrow> FileState \<Rightarrow> bool" where
  run_nil: "file_run st [] st"
| run_step: "\<lbrakk>transit_assert ev st; ev \<noteq> kReset; file_run (transit ev st) evs st'\<rbrakk>
             \<Longrightarrow> file_run st (ev # evs) st'"

inductive_cases file_run_ConsE: "file_run st (ev # evs) st'"

lemma obsolete_absorbing:
  "\<lbrakk>transit_assert ev kObsolete; ev \<noteq> kReset\<rbrakk> \<Longrightarrow> transit ev kObsolete = kObsolete \<and> ev \<in> {kFlushCompleted, kGCCompleted}"
  by (cases ev) (auto simp: transit_assert_def transit_def)

lemma transit_not_init: "transit_assert ev st \<Longrightarrow> transit ev st \<noteq> kInit"
  by (cases ev; cases st) (auto simp: transit_assert_def transit_def)

lemma file_run_obsolete:
  "file_run st evs st' \<Longrightarrow> st = kObsolete \<Longrightarrow> st' = kObsolete \<and> set evs \<subseteq> {kFlushCompleted, kGCCompleted}"
proof (induction rule: file_run.induct)
  case (run_step ev st evs st')
  then show ?case using obsolete_absorbing [of ev] by auto
qed simp

lemma file_run_not_init: "file_run st evs st' \<Longrightarrow> evs \<noteq> [] \<or> st \<noteq> kInit \<Longrightarrow> st' \<noteq> kInit"
proof (induction rule: file_run.induct)
  case (run_step ev st evs st')
  then show ?case using transit_not_init [of ev st] by auto
qed simp

lemma file_run_delete_once:
  "file_run st evs st' \<Longrightarrow> count_list evs kDelete \<le> 1 \<and> (kDelete \<in> set evs \<longrightarrow> st' = kObsolete)"
proof (induction rule: file_run.induct)
  case (run_step ev st evs st')
  show ?case
  proof (cases "ev = kDelete")
    case True
    then have "file_run kObsolete evs st'" using run_step.hyps(3) by (simp add: transit_def)
    then have "st' = kObsolete" "set evs \<subseteq> {kFlushCompleted, kGCCompleted}"
      using file_run_obsolete by blast+
    moreover from this have "kDelete \<notin> set evs" by auto
    ultimately show ?thesis using True by simp
  next
    case False
    then show ?thesis using run_step.IH by auto
  qed
qed simp

text \<open>An input of garbage collection is first marked, and then either released or deleted.\<close>

lemma being_gc_events:
  "\<lbrakk>transit_assert ev kBeingGC; ev \<noteq> kReset\<rbrakk> \<Longrightarrow>
   ev \<in> {kFlushCompleted, kGCCompleted, kDelete} \<and>
   transit ev kBeingGC = (case ev of kGCCompleted \<Rightarrow> kNormal | kDelete \<Rightarrow> kObsolete | _ \<Rightarrow> kBeingGC)"
  by (cases ev) (auto simp: transit_assert_def transit_def)

section \<open>Live data\<close>

lemma signed_take_bit_small: "int n < 2 ^ 63 \<Longrightarrow> signed_take_bit 63 (int n) = int n"
  by (rule signed_take_bit_int_eq_self) simp_all

lemma sint_of_small: "unat (x :: u64) < 2 ^ 63 \<Longrightarrow> sint x = int (unat x)"
proof -
  assume "unat x < 2 ^ 63"
  then have "int (unat x) < 2 ^ 63"
    by (simp only: of_nat_less_iff [where 'a = int, symmetric] of_nat_power of_nat_numeral)
  then have "signed_take_bit 63 (int (unat x)) = int (unat x)"
    by (rule signed_take_bit_small)
  moreover have "sint x = signed_take_bit 63 (uint x)" by (simp add: sint_uint)
  ultimately show ?thesis by (simp only: uint_nat)
qed

lemma UpdateLiveDataSize_eq:
  assumes "unat (live_data_size m) < 2 ^ 62" "- (2 ^ 62) \<le> sint delta" "sint delta < 2 ^ 62"
  shows "UpdateLiveDataSize delta m =
    (0 \<le> int (unat (live_data_size m)) + sint delta,
     m\<lparr> live_data_size := of_int (max 0 (int (unat (live_data_size m)) + sint delta)) \<rparr>)"
proof -
  let ?r = "int (unat (live_data_size m)) + sint delta"
  have w: "live_data_size m + delta = of_int ?r" by simp
  have "int (unat (live_data_size m)) < 2 ^ 62"
    using assms(1) by (simp only: of_nat_less_iff [where 'a = int, symmetric] of_nat_power of_nat_numeral)
  moreover have "0 \<le> int (unat (live_data_size m))" by (rule of_nat_0_le_iff)
  moreover have "- (2 ^ 63) \<le> u + v \<and> u + v < 2 ^ 63" if "0 \<le> u" "u < 2 ^ 62" "- (2 ^ 62) \<le> v" "v < 2 ^ 62"
    for u v :: int using that by simp
  ultimately have "- (2 ^ 63) \<le> ?r" "?r < 2 ^ 63" using assms(2,3) by blast+
  then have "signed_take_bit 63 ?r = ?r" by (rule signed_take_bit_int_eq_self)
  moreover have "sint (of_int ?r :: u64) = signed_take_bit 63 ?r"
    using sint_sbintrunc' [where 'a = 64, of ?r] by simp
  ultimately have "sint (of_int ?r :: u64) = ?r" by simp
  then have "sint (live_data_size m + delta) = ?r" by (simp only: w)
  then show ?thesis
    by (cases "?r < 0") (simp_all add: UpdateLiveDataSize_def Let_def max_def)
qed

lemma file_run_append: "file_run st (evs @ evs') st' \<Longrightarrow> \<exists>s. file_run st evs s \<and> file_run s evs' st'"
proof (induction evs arbitrary: st)
  case (Cons ev evs)
  from Cons.prems have "transit_assert ev st" "ev \<noteq> kReset" "file_run (transit ev st) (evs @ evs') st'"
    by (auto elim: file_run_ConsE)
  then show ?case using Cons.IH by (blast intro: run_step)
qed (auto intro: run_nil)

section \<open>Properties\<close>

text \<open>
  C12: an encoded record decodes to itself. For keys and values of less than 4 GiB, a compression
  library that restores what it compressed and a stored size within the bound the encoder asserts,
  the decoder reads the header the encoder wrote, finds the checksum right, returns the record and
  leaves what follows.
\<close>

theorem record_roundtrip:
  assumes "BlobRecord_wf r" "compression_ok C U" "EncodeSlice_assert C t (BlobRecord_EncodeTo r)"
  shows "\<exists>d. DecodeHeader (enc_header (EncodeRecord C t r) @ enc_record (EncodeRecord C t r) @ rest)
               = Inr (d, enc_record (EncodeRecord C t r) @ rest)
           \<and> unat (dec_record_size d) = length (enc_record (EncodeRecord C t r))
           \<and> DecodeRecord U d (enc_record (EncodeRecord C t r) @ rest) = Inr (r, rest)"
  using EncodeSlice_assert_size [OF assms(3)] by (intro DecodeRecord_EncodeRecord [OF assms(1,2)]) (simp add: EncodeRecord_def)

theorem record_roundtrip_witness:
  "\<exists>d. DecodeHeader (enc_header (EncodeRecord (\<lambda>t x. Some (0 # x)) 1 \<lparr> rec_key = [1], rec_value = [2] \<rparr>)
         @ enc_record (EncodeRecord (\<lambda>t x. Some (0 # x)) 1 \<lparr> rec_key = [1], rec_value = [2] \<rparr>) @ [9])
       = Inr (d, enc_record (EncodeRecord (\<lambda>t x. Some (0 # x)) 1 \<lparr> rec_key = [1], rec_value = [2] \<rparr>) @ [9]) \<and>
     DecodeRecord (\<lambda>t x. Some (tl x)) d (enc_record (EncodeRecord (\<lambda>t x. Some (0 # x)) 1 \<lparr> rec_key = [1], rec_value = [2] \<rparr>) @ [9])
       = Inr (\<lparr> rec_key = [1], rec_value = [2] \<rparr>, [9])"
proof -
  let ?r = "\<lparr> rec_key = [1], rec_value = [2] \<rparr> :: BlobRecord"
  have "length (fst (Compress (\<lambda>t x. Some (0 # x)) 1 (BlobRecord_EncodeTo ?r))) = 5" by code_simp
  then have "EncodeSlice_assert (\<lambda>t x. Some (0 # x)) 1 (BlobRecord_EncodeTo ?r)" by (simp add: EncodeSlice_assert_def)
  then show ?thesis
    using record_roundtrip [of ?r "\<lambda>t x. Some (0 # x)" "\<lambda>t x. Some (tl x)" 1 "[9]"]
    by (auto simp: BlobRecord_wf_def compression_ok_def)
qed

text \<open>
  C13: the decoder believes a record exactly when its checksum is right. For a header whose record
  lies within the input (the assertion of \<open>Slice::remove_prefix\<close>), a mismatch is reported exactly
  when the stored checksum is not that of the rest of the header and of the payload, whatever the
  compression; and a record that is returned has the right checksum, and what is left of the input
  is what follows its bytes.
\<close>

theorem decode_certifies_checksum:
  assumes "DecodeHeader src = Inr (d, src1)" "unat (dec_record_size d) \<le> length src1"
  shows "(DecodeRecord U d src1 = Inl (Corruption ''BlobRecord: checksum mismatch'') \<longleftrightarrow>
      DecodeFixed32 src \<noteq> crc32c_Value (take (5 + unat (dec_record_size d)) (drop 4 src))) \<and>
    (\<forall>r rest. DecodeRecord U d src1 = Inr (r, rest) \<longrightarrow>
      DecodeFixed32 src = crc32c_Value (take (5 + unat (dec_record_size d)) (drop 4 src)) \<and>
      rest = drop (9 + unat (dec_record_size d)) src)"
proof -
  note c = DecodeRecord_checksum [OF assms]
  let ?crc = "Extend (dec_header_crc d) (take (unat (dec_record_size d)) src1)"
  have "?crc \<noteq> dec_crc d" if "DecodeRecord U d src1 = Inl (Corruption ''BlobRecord: checksum mismatch'')"
    using that assms(2) DecodeInto_not_mismatch by (auto simp: DecodeRecord_def Uncompress_def Let_def split: if_splits sum.splits option.splits)
  moreover have "DecodeRecord U d src1 = Inl (Corruption ''BlobRecord: checksum mismatch'')" if "?crc \<noteq> dec_crc d"
    using that assms(2) by (simp add: DecodeRecord_def Let_def)
  moreover have "?crc = dec_crc d \<and> rest = drop (unat (dec_record_size d)) src1" if "DecodeRecord U d src1 = Inr (r, rest)" for r rest
    using that by (auto simp: DecodeRecord_def Let_def split: if_splits sum.splits)
  moreover have "drop (unat (dec_record_size d)) src1 = drop (9 + unat (dec_record_size d)) src" using c by (simp add: add.commute)
  ultimately show ?thesis using c by metis
qed

theorem decode_certifies_checksum_witness:
  "DecodeFixed32 [253, 51, 56, 107, 2, 0, 0, 0, 0, 0, 0] = crc32c_Value [2, 0, 0, 0, 0, 0, 0] \<and>
   DecodeFixed32 [253, 51, 56, 107, 2, 0, 0, 0, 0, 0, 1] \<noteq> crc32c_Value [2, 0, 0, 0, 0, 0, 1]"
proof -
  let ?d = "\<lparr> dec_crc = 0x6b3833fd, dec_header_crc = crc32c_Value [2, 0, 0, 0, 0], dec_record_size = 2, dec_compression = 0 \<rparr> :: BlobDecoder"
  have h: "DecodeHeader [253, 51, 56, 107, 2, 0, 0, 0, 0, 0, 0] = Inr (?d, [0, 0])" "DecodeHeader [253, 51, 56, 107, 2, 0, 0, 0, 0, 0, 1] = Inr (?d, [0, 1])"
    by code_simp+
  have r: "DecodeRecord (\<lambda>_ _. None) ?d [0, 0] = Inr (\<lparr> rec_key = [], rec_value = [] \<rparr>, [])"
    "DecodeRecord (\<lambda>_ _. None) ?d [0, 1] = Inl (Corruption ''BlobRecord: checksum mismatch'')"
    by code_simp+
  have n: "unat (dec_record_size ?d) = 2" by simp
  have "DecodeFixed32 [253, 51, 56, 107, 2, 0, 0, 0, 0, 0, 0] = crc32c_Value (take (5 + 2) (drop 4 [253, 51, 56, 107, 2, 0, 0, 0, 0, 0, 0]))"
    using decode_certifies_checksum [OF h(1), of "\<lambda>_ _. None", unfolded n] r(1) by fastforce
  moreover have "DecodeFixed32 [253, 51, 56, 107, 2, 0, 0, 0, 0, 0, 1] \<noteq> crc32c_Value (take (5 + 2) (drop 4 [253, 51, 56, 107, 2, 0, 0, 0, 0, 0, 1]))"
    using decode_certifies_checksum [OF h(2), of "\<lambda>_ _. None", unfolded n] r(2) by fastforce
  ultimately show ?thesis by (simp only: drop_Cons_numeral take_Cons_numeral) simp
qed

text \<open>
  C11: the life cycle of a blob file: in every sequence of events whose assertions hold, a file never
  returns to its initial state, it is deleted at most once, and once obsolete it stays obsolete and
  only the completion of a flush or of a garbage collection can still reach it.
\<close>

theorem file_life_cycle:
  assumes "file_run kInit (evs @ evs') st'" "evs \<noteq> []"
  shows "st' \<noteq> kInit \<and> count_list (evs @ evs') kDelete \<le> 1 \<and>
    (kDelete \<in> set evs \<longrightarrow> st' = kObsolete \<and> set evs' \<subseteq> {kFlushCompleted, kGCCompleted})"
proof -
  obtain st where st: "file_run kInit evs st" "file_run st evs' st'" using file_run_append [OF assms(1)] by blast
  show ?thesis
    using file_run_not_init [OF assms(1)] file_run_delete_once [OF assms(1)] assms(2)
      file_run_delete_once [OF st(1)] file_run_obsolete [OF st(2)] by auto
qed

theorem file_life_cycle_witness:
  "file_run kInit [kFlushOrCompactionOutput, kFlushCompleted, kGCBegin, kDelete, kGCCompleted] kObsolete \<and>
   set [kGCCompleted] \<subseteq> {kFlushCompleted, kGCCompleted}"
proof -
  have "file_run kInit ([kFlushOrCompactionOutput, kFlushCompleted, kGCBegin, kDelete] @ [kGCCompleted]) kObsolete"
    by (simp, (rule run_step; simp add: transit_assert_def transit_def)+, rule run_nil)
  from file_life_cycle [OF this] this show ?thesis by simp
qed

text \<open>
  C24: the live size of a file does not wrap around: while sizes and deltas stay below \<open>2 ^ 62\<close>, an
  update adds the signed delta, and one that would go below zero is reported and leaves zero.
\<close>

theorem live_data_size_saturates:
  assumes "unat (live_data_size m) < 2 ^ 62" "- (2 ^ 62) \<le> sint delta" "sint delta < 2 ^ 62"
  shows "UpdateLiveDataSize delta m =
    (0 \<le> int (unat (live_data_size m)) + sint delta,
     m\<lparr> live_data_size := of_int (max 0 (int (unat (live_data_size m)) + sint delta)) \<rparr>)"
  by (rule UpdateLiveDataSize_eq [OF assms])

theorem live_data_size_saturates_witness:
  "UpdateLiveDataSize (- 7) (BlobFileMeta_new 1 100 2 0 [1] [2]) = (False, BlobFileMeta_new 1 100 2 0 [1] [2])"
  using live_data_size_saturates [of "BlobFileMeta_new 1 100 2 0 [1] [2]" "- 7"] by (simp add: BlobFileMeta_new_def)

end
