(* ===== verification/Titan_Options.thy ===== *)
theory Titan_Options
  imports Titan_Prelude
begin

text \<open>
  \<open>include/titan/options.h\<close> and \<open>src/options.cc\<close>: the column family options, their split into an
  immutable and a mutable part, and the reassembly. Of the base \<open>ColumnFamilyOptions\<close> the model
  keeps what Titan reads. The user's comparator is a field, as in the source; the locale \<open>comparator\<close>
  states its documented contract, a total order on keys.
\<close>

section \<open>Model\<close>

datatype TitanBlobRunMode = kNormalMode | kReadOnly | kFallback

type_synonym comparator = "bytes \<Rightarrow> bytes \<Rightarrow> int"

record ColumnFamilyOptions =
  opt_comparator :: comparator
  opt_num_levels :: nat
  opt_dynamic_level_bytes :: bool

text \<open>Of RocksDB's \<open>CompressionOptions\<close>, what concerns the compression dictionary.\<close>

record CompressionOptions =
  max_dict_bytes :: u32
  zstd_max_train_bytes :: u32

definition CompressionOptions_default :: CompressionOptions where
  "CompressionOptions_default = \<lparr> max_dict_bytes = 0, zstd_max_train_bytes = 0 \<rparr>"

record TitanCFOptions = ColumnFamilyOptions +
  min_blob_size :: u64
  blob_file_compression :: byte
  blob_file_compression_options :: CompressionOptions
  blob_file_target_size :: u64
  blob_cache :: bool
  max_gc_batch_size :: u64
  min_gc_batch_size :: u64
  blob_file_discardable_ratio :: rat
  merge_small_file_threshold :: u64
  blob_run_mode :: TitanBlobRunMode
  level_merge :: bool
  range_merge :: bool
  max_sorted_runs :: int
  skip_value_in_compaction_filter :: bool
  use_bitmap :: bool
  gc_offload :: bool
  binary_file_path :: string

definition TitanCFOptions_default :: "ColumnFamilyOptions \<Rightarrow> TitanCFOptions" where
  "TitanCFOptions_default base = ColumnFamilyOptions.extend base
     \<lparr> min_blob_size = 4096, blob_file_compression = 0,
       blob_file_compression_options = CompressionOptions_default, blob_file_target_size = 268435456,
       blob_cache = False, max_gc_batch_size = 1073741824, min_gc_batch_size = 536870912,
       blob_file_discardable_ratio = 1 / 2, merge_small_file_threshold = 8388608,
       blob_run_mode = kNormalMode, level_merge = False, range_merge = False, max_sorted_runs = 20,
       skip_value_in_compaction_filter = False, use_bitmap = False, gc_offload = False,
       binary_file_path = [] \<rparr>"

record ImmutableTitanCFOptions =
  im_min_blob_size :: u64
  im_blob_file_compression :: byte
  im_blob_file_target_size :: u64
  im_blob_cache :: bool
  im_max_gc_batch_size :: u64
  im_min_gc_batch_size :: u64
  im_blob_file_discardable_ratio :: rat
  im_merge_small_file_threshold :: u64
  im_level_merge :: bool
  im_skip_value_in_compaction_filter :: bool
  im_use_bitmap :: bool
  im_gc_offload :: bool
  im_binary_file_path :: string

record MutableTitanCFOptions =
  mu_blob_run_mode :: TitanBlobRunMode

definition ImmutableTitanCFOptions_of :: "TitanCFOptions \<Rightarrow> ImmutableTitanCFOptions" where
  "ImmutableTitanCFOptions_of opts =
     \<lparr> im_min_blob_size = min_blob_size opts,
       im_blob_file_compression = blob_file_compression opts,
       im_blob_file_target_size = blob_file_target_size opts,
       im_blob_cache = blob_cache opts,
       im_max_gc_batch_size = max_gc_batch_size opts,
       im_min_gc_batch_size = min_gc_batch_size opts,
       im_blob_file_discardable_ratio = blob_file_discardable_ratio opts,
       im_merge_small_file_threshold = merge_small_file_threshold opts,
       im_level_merge = level_merge opts,
       im_skip_value_in_compaction_filter = skip_value_in_compaction_filter opts,
       im_use_bitmap = use_bitmap opts,
       im_gc_offload = gc_offload opts,
       im_binary_file_path = binary_file_path opts \<rparr>"

definition MutableTitanCFOptions_of :: "TitanCFOptions \<Rightarrow> MutableTitanCFOptions" where
  "MutableTitanCFOptions_of opts = \<lparr> mu_blob_run_mode = blob_run_mode opts \<rparr>"

text \<open>The reassembling constructor leaves the members it does not name at their defaults.\<close>

definition TitanCFOptions_join ::
    "ColumnFamilyOptions \<Rightarrow> ImmutableTitanCFOptions \<Rightarrow> MutableTitanCFOptions \<Rightarrow> TitanCFOptions" where
  "TitanCFOptions_join cf_opts immutable_opts mutable_opts =
     (TitanCFOptions_default cf_opts)
       \<lparr> min_blob_size := im_min_blob_size immutable_opts,
         blob_file_compression := im_blob_file_compression immutable_opts,
         blob_file_target_size := im_blob_file_target_size immutable_opts,
         blob_cache := im_blob_cache immutable_opts,
         max_gc_batch_size := im_max_gc_batch_size immutable_opts,
         min_gc_batch_size := im_min_gc_batch_size immutable_opts,
         blob_file_discardable_ratio := im_blob_file_discardable_ratio immutable_opts,
         merge_small_file_threshold := im_merge_small_file_threshold immutable_opts,
         blob_run_mode := mu_blob_run_mode mutable_opts,
         skip_value_in_compaction_filter := im_skip_value_in_compaction_filter immutable_opts \<rparr>"

definition blob_run_mode_to_string :: "(TitanBlobRunMode \<times> string) list" where
  "blob_run_mode_to_string =
     [(kNormalMode, ''kNormal''), (kReadOnly, ''kReadOnly''), (kFallback, ''kFallback'')]"

definition blob_run_mode_string_map :: "(string \<times> TitanBlobRunMode) list" where
  "blob_run_mode_string_map =
     [(''kNormal'', kNormalMode), (''kReadOnly'', kReadOnly), (''kFallback'', kFallback)]"

section \<open>Properties\<close>

lemma run_mode_strings:
  "map_of blob_run_mode_to_string m = Some s \<longleftrightarrow> map_of blob_run_mode_string_map s = Some m"
  by (cases m) (auto simp: blob_run_mode_to_string_def blob_run_mode_string_map_def split: if_splits)

lemma run_mode_strings_total: "\<exists>s. map_of blob_run_mode_to_string m = Some s"
  by (cases m) (auto simp: blob_run_mode_to_string_def)

lemma join_split:
  "TitanCFOptions_join (ColumnFamilyOptions.truncate o1) (ImmutableTitanCFOptions_of o1) (MutableTitanCFOptions_of o1) =
   o1\<lparr> blob_file_compression_options := CompressionOptions_default, level_merge := False, range_merge := False, max_sorted_runs := 20, use_bitmap := False,
       gc_offload := False, binary_file_path := [] \<rparr>"
  by (cases o1) (simp add: TitanCFOptions_join_def TitanCFOptions_default_def ImmutableTitanCFOptions_of_def
      MutableTitanCFOptions_of_def ColumnFamilyOptions.extend_def ColumnFamilyOptions.truncate_def)

section \<open>Comparators\<close>

text \<open>The order a comparator induces, and its contract.\<close>

locale comparator =
  fixes cmp :: "bytes \<Rightarrow> bytes \<Rightarrow> int"
  assumes cmp_eq: "cmp a b = 0 \<longleftrightarrow> a = b"
    and cmp_swap: "cmp a b < 0 \<longleftrightarrow> 0 < cmp b a"
    and cmp_trans: "\<lbrakk>cmp a b \<le> 0; cmp b c \<le> 0\<rbrakk> \<Longrightarrow> cmp a c \<le> 0"
begin

lemma cmp_refl [simp]: "cmp a a = 0"
  by (simp add: cmp_eq)

lemma cmp_total: "cmp a b \<le> 0 \<or> cmp b a \<le> 0"
  using cmp_swap [of b a] by linarith

lemma cmp_antisym: "\<lbrakk>cmp a b \<le> 0; cmp b a \<le> 0\<rbrakk> \<Longrightarrow> a = b"
  using cmp_swap [of a b] cmp_eq [of a b] by linarith

lemma cmp_not_less: "\<not> cmp a b < 0 \<longleftrightarrow> cmp b a \<le> 0"
  using cmp_swap [of a b] by linarith

lemma cmp_less_le_trans: "\<lbrakk>cmp a b < 0; cmp b c \<le> 0\<rbrakk> \<Longrightarrow> cmp a c < 0"
  using cmp_trans [of b c a] cmp_not_less [of a c] cmp_not_less [of a b] by linarith

end

text \<open>\<open>BytewiseComparator\<close>: \<open>Slice::compare\<close>, \<open>memcmp\<close> on the common prefix and then the lengths.\<close>

fun bytewise_compare :: "bytes \<Rightarrow> bytes \<Rightarrow> int" where
  "bytewise_compare [] [] = 0"
| "bytewise_compare [] (b # bs) = - 1"
| "bytewise_compare (a # as) [] = 1"
| "bytewise_compare (a # as) (b # bs) =
     (if a < b then - 1 else if b < a then 1 else bytewise_compare as bs)"

lemma bytewise_eq: "bytewise_compare a b = 0 \<longleftrightarrow> a = b"
  by (induction a b rule: bytewise_compare.induct) auto

lemma bytewise_swap: "bytewise_compare b a = - bytewise_compare a b"
  by (induction a b rule: bytewise_compare.induct) auto

lemma bytewise_trans:
  "\<lbrakk>bytewise_compare a b \<le> 0; bytewise_compare b c \<le> 0\<rbrakk> \<Longrightarrow> bytewise_compare a c \<le> 0"
proof (induction a b arbitrary: c rule: bytewise_compare.induct)
  case (2 b bs)
  then show ?case by (cases c) simp_all
next
  case (4 a as b bs)
  then show ?case by (cases c) (auto split: if_splits)
qed (auto split: if_splits)

interpretation bytewise: comparator bytewise_compare
proof
  show "bytewise_compare a b < 0 \<longleftrightarrow> 0 < bytewise_compare b a" for a b
    using bytewise_swap [of a b] by simp
qed (rule bytewise_eq, rule bytewise_trans)

text \<open>Options for examples.\<close>

definition demo_options :: TitanCFOptions where
  "demo_options = TitanCFOptions_default
     \<lparr> opt_comparator = bytewise_compare, opt_num_levels = 7, opt_dynamic_level_bytes = False \<rparr>"

lemma demo_options_comparator [simp]: "opt_comparator demo_options = bytewise_compare"
  by (simp add: demo_options_def TitanCFOptions_default_def ColumnFamilyOptions.defs)

text \<open>
  C25: splitting the column family options and putting them together again loses options: the
  constructor that joins the immutable and the mutable part resets the compression options, level
  merge, range merge, the number of sorted runs, the use of the bitmap, the offloading and the path
  of the kernel to their defaults, and keeps all others.
\<close>

theorem options_join_drops:
  "TitanCFOptions_join (ColumnFamilyOptions.truncate o1) (ImmutableTitanCFOptions_of o1) (MutableTitanCFOptions_of o1) =
   o1\<lparr> blob_file_compression_options := CompressionOptions_default, level_merge := False, range_merge := False,
       max_sorted_runs := 20, use_bitmap := False, gc_offload := False, binary_file_path := [] \<rparr>"
  by (rule join_split)

end
