(* ===== verification/Blob_Storage.thy ===== *)
theory Blob_Storage
  imports Blob_Format Titan_Options "HOL-Library.Multiset"
begin

text \<open>
  \<open>src/blob_storage.{h,cc}\<close>: the in-memory metadata of the blob files of one column family.

  \<open>files\<close> is the unordered map from file numbers, as an association list in its iteration order;
  the theorems hold for every order. \<open>BlobStorage\<close> owns the \<open>BlobFileMeta\<close> objects, so a shared
  pointer to one held elsewhere (in \<open>blob_ranges\<close>, in a garbage collection) is its file number,
  and \<open>update_file\<close> is a mutation through such a pointer. \<open>blob_ranges\<close> is the multimap as the
  list of its entries in order. \<open>file_cache\<close> is the set of files with an open reader. The
  storage's slice of the shared statistics is the field \<open>st_stats\<close>. File names returned by the
  operations are represented by their file numbers.
\<close>

section \<open>Association lists\<close>

definition upd :: "'k \<Rightarrow> ('v \<Rightarrow> 'v) \<Rightarrow> ('k \<times> 'v) list \<Rightarrow> ('k \<times> 'v) list" where
  "upd n g xs = map (\<lambda>(k, v). if k = n then (k, g v) else (k, v)) xs"

definition emplace :: "'k \<Rightarrow> 'v \<Rightarrow> ('k \<times> 'v) list \<Rightarrow> ('k \<times> 'v) list" where
  "emplace k v xs = (if k \<in> fst ` set xs then xs else xs @ [(k, v)])"

definition erase_key :: "'k \<Rightarrow> ('k \<times> 'v) list \<Rightarrow> ('k \<times> 'v) list" where
  "erase_key n xs = filter (\<lambda>(k, v). k \<noteq> n) xs"

section \<open>Model\<close>

record GCScore =
  gcs_file_number :: u64
  gcs_score :: dbl

record BlobStorage =
  cf_options :: TitanCFOptions
  run_mode :: TitanBlobRunMode
  cf_id :: u32
  files :: "(u64 \<times> BlobFileMeta) list"
  levels_file_count :: "int list"
  blob_ranges :: "(bytes \<times> u64) list"
  file_cache :: "u64 list"
  gc_score :: "GCScore list"
  obsolete_files :: "(u64 \<times> u64) list"
  destroyed :: bool
  st_stats :: stats

abbreviation storage_cmp :: "BlobStorage \<Rightarrow> comparator" where
  "storage_cmp st \<equiv> opt_comparator (cf_options st)"

definition BlobStorage_new :: "TitanCFOptions \<Rightarrow> u32 \<Rightarrow> BlobStorage" where
  "BlobStorage_new opts cfid =
     \<lparr> cf_options = opts, run_mode = blob_run_mode opts, cf_id = cfid, files = [],
       levels_file_count = replicate (opt_num_levels opts) 0, blob_ranges = [], file_cache = [],
       gc_score = [], obsolete_files = [], destroyed = False, st_stats = (\<lambda>_. 0) \<rparr>"

definition FindFile :: "u64 \<Rightarrow> BlobStorage \<Rightarrow> BlobFileMeta option" where
  "FindFile number st = map_of (files st) number"

definition update_file :: "u64 \<Rightarrow> (BlobFileMeta \<Rightarrow> BlobFileMeta) \<Rightarrow> BlobStorage \<Rightarrow> BlobStorage" where
  "update_file number g st = st\<lparr> files := upd number g (files st) \<rparr>"

definition ExportBlobFiles :: "BlobStorage \<Rightarrow> u64 \<Rightarrow> BlobFileMeta option" where
  "ExportBlobFiles st = map_of (files st)"

text \<open>\<open>std::multimap::emplace\<close> inserts after the entries with an equivalent key.\<close>

fun multimap_emplace :: "comparator \<Rightarrow> bytes \<Rightarrow> 'v \<Rightarrow> (bytes \<times> 'v) list \<Rightarrow> (bytes \<times> 'v) list" where
  "multimap_emplace cmp k v [] = [(k, v)]"
| "multimap_emplace cmp k v ((k', v') # xs) =
     (if cmp k k' < 0 then (k, v) # (k', v') # xs else (k', v') # multimap_emplace cmp k v xs)"

text \<open>
  A level outside the vector is undefined behaviour in the code; here it leaves the counts as they are.
\<close>

definition bump_level :: "u32 \<Rightarrow> int \<Rightarrow> int list \<Rightarrow> int list" where
  "bump_level level d counts = counts[unat level := counts ! unat level + d]"

definition AddBlobFile :: "BlobFileMeta \<Rightarrow> BlobStorage \<Rightarrow> BlobStorage" where
  "AddBlobFile file st =
     (let st = st\<lparr> files := emplace (file_number file) file (files st),
                   blob_ranges := multimap_emplace (storage_cmp st) (smallest_key file) (file_number file)
                                    (blob_ranges st),
                   levels_file_count := bump_level (file_level file) 1 (levels_file_count st) \<rparr>;
          stats0 = st_stats st;
          stats1 = (if live_data_size file \<noteq> 0 then AddStats (GetDiscardableRatioLevel file) 1 stats0 else stats0);
          stats2 = AddStats LIVE_BLOB_FILE_SIZE (file_size file) stats1;
          stats3 = AddStats NUM_LIVE_BLOB_FILE 1 stats2
      in st\<lparr> st_stats := stats3 \<rparr>)"

definition MarkFileObsoleteLocked :: "BlobFileMeta \<Rightarrow> u64 \<Rightarrow> BlobStorage \<Rightarrow> BlobStorage" where
  "MarkFileObsoleteLocked file obsolete_sequence st =
     (let st = st\<lparr> obsolete_files := obsolete_files st @ [(file_number file, obsolete_sequence)] \<rparr>;
          st = update_file (file_number file) (FileStateTransit kDelete) st;
          st = st\<lparr> levels_file_count := bump_level (file_level file) (- 1) (levels_file_count st) \<rparr>;
          stats1 = SubStats (GetDiscardableRatioLevel file) 1 (st_stats st);
          stats2 = SubStats LIVE_BLOB_SIZE (live_data_size file) stats1;
          stats3 = SubStats LIVE_BLOB_FILE_SIZE (file_size file) stats2;
          stats4 = SubStats NUM_LIVE_BLOB_FILE 1 stats3;
          stats5 = AddStats OBSOLETE_BLOB_FILE_SIZE (file_size file) stats4;
          stats6 = AddStats NUM_OBSOLETE_BLOB_FILE 1 stats5
      in st\<lparr> st_stats := stats6 \<rparr>)"

definition MarkFileObsolete :: "u64 \<Rightarrow> u64 \<Rightarrow> BlobStorage \<Rightarrow> bool \<times> BlobStorage" where
  "MarkFileObsolete number obsolete_sequence st =
     (case map_of (files st) number of
        None \<Rightarrow> (False, st)
      | Some file \<Rightarrow> (True, MarkFileObsoleteLocked file obsolete_sequence st))"

text \<open>Erases the first entry of the file among those whose key is equivalent to \<open>k\<close>.\<close>

fun erase_range :: "comparator \<Rightarrow> bytes \<Rightarrow> u64 \<Rightarrow> (bytes \<times> u64) list \<Rightarrow> (bytes \<times> u64) list" where
  "erase_range cmp k number [] = []"
| "erase_range cmp k number ((k', n) # xs) =
     (if \<not> cmp k' k < 0 \<and> \<not> cmp k k' < 0 \<and> n = number then xs
      else (k', n) # erase_range cmp k number xs)"

definition RemoveFile :: "u64 \<Rightarrow> BlobStorage \<Rightarrow> bool \<times> BlobStorage" where
  "RemoveFile number st =
     (case map_of (files st) number of
        None \<Rightarrow> (False, st)
      | Some file \<Rightarrow>
          (True, st\<lparr> blob_ranges := erase_range (storage_cmp st) (smallest_key file) (file_number file) (blob_ranges st),
                     st_stats := SubStats NUM_OBSOLETE_BLOB_FILE 1
                                   (SubStats OBSOLETE_BLOB_FILE_SIZE (file_size file) (st_stats st)),
                     files := erase_key number (files st),
                     file_cache := removeAll number (file_cache st) \<rparr>))"

text \<open>
  The loop over \<open>obsolete_files_\<close>: the numbers of the files removed, the entries kept, and the
  storage.
\<close>

fun obsolete_loop ::
    "u64 \<Rightarrow> (u64 \<times> u64) list \<Rightarrow> BlobStorage \<Rightarrow> u64 list \<times> (u64 \<times> u64) list \<times> BlobStorage" where
  "obsolete_loop oldest_sequence [] st = ([], [], st)"
| "obsolete_loop oldest_sequence ((number, obsolete_sequence) # xs) st =
     (if obsolete_sequence < oldest_sequence then
        let (removed, st) = RemoveFile number st;
            (names, kept, st) = obsolete_loop oldest_sequence xs st
        in (number # names, kept, st)
      else
        let (names, kept, st) = obsolete_loop oldest_sequence xs st
        in (names, (number, obsolete_sequence) # kept, st))"

definition GetObsoleteFiles :: "u64 \<Rightarrow> BlobStorage \<Rightarrow> u64 list \<times> BlobStorage" where
  "GetObsoleteFiles oldest_sequence st =
     (let (names, kept, st) = obsolete_loop oldest_sequence (obsolete_files st) st
      in (names, st\<lparr> obsolete_files := kept \<rparr>))"

definition GetAllFiles :: "BlobStorage \<Rightarrow> u64 list" where
  "GetAllFiles st = map fst (files st)"

text \<open>\<open>std::sort\<close> by decreasing score, as an insertion sort.\<close>

fun insert_score :: "GCScore \<Rightarrow> GCScore list \<Rightarrow> GCScore list" where
  "insert_score s [] = [s]"
| "insert_score s (t # ts) =
     (if dbl_less (gcs_score s) (gcs_score t) then t # insert_score s ts else s # t # ts)"

definition sort_scores :: "GCScore list \<Rightarrow> GCScore list" where
  "sort_scores ss = foldr insert_score ss []"

definition score_of :: "TitanCFOptions \<Rightarrow> BlobFileMeta \<Rightarrow> dbl" where
  "score_of opts file =
     (if file_size file < merge_small_file_threshold opts
      then Fin (blob_file_discardable_ratio opts)
      else GetDiscardableRatio file)"

definition ComputeGCScore :: "BlobStorage \<Rightarrow> BlobStorage" where
  "ComputeGCScore st =
     (let scores = map (\<lambda>(n, file). \<lparr> gcs_file_number = n, gcs_score = score_of (cf_options st) file \<rparr>)
                     (filter (\<lambda>(n, file). \<not> is_obsolete file) (files st))
      in st\<lparr> gc_score := sort_scores scores \<rparr>)"

definition InitializeAllFiles :: "BlobStorage \<Rightarrow> BlobStorage" where
  "InitializeAllFiles st =
     ComputeGCScore (st\<lparr> files := map (\<lambda>(n, file). (n, FileStateTransit kDbRestart file)) (files st) \<rparr>)"

definition MarkDestroyed :: "BlobStorage \<Rightarrow> BlobStorage" where
  "MarkDestroyed st = st\<lparr> destroyed := True \<rparr>"

definition MaybeRemove :: "BlobStorage \<Rightarrow> bool" where
  "MaybeRemove st \<longleftrightarrow> destroyed st \<and> obsolete_files st = []"

definition NumBlobFiles :: "BlobStorage \<Rightarrow> nat" where
  "NumBlobFiles st = length (files st)"

definition NumBlobFilesAtLevel :: "int \<Rightarrow> BlobStorage \<Rightarrow> int" where
  "NumBlobFilesAtLevel level st =
     (if int (length (levels_file_count st)) \<le> level then 0 else levels_file_count st ! nat level)"

definition NumObsoleteBlobFiles :: "BlobStorage \<Rightarrow> nat" where
  "NumObsoleteBlobFiles st = length (obsolete_files st)"

definition SetBlobRunMode :: "TitanBlobRunMode \<Rightarrow> BlobStorage \<Rightarrow> BlobStorage" where
  "SetBlobRunMode mode st = st\<lparr> run_mode := mode \<rparr>"

text \<open>
  The positions the multimap iterators of a range start and stop at. A start beyond the stop
  would run past the end of the map.
\<close>

definition lower_bound :: "comparator \<Rightarrow> bytes option \<Rightarrow> (bytes \<times> 'v) list \<Rightarrow> nat" where
  "lower_bound cmp begin xs =
     (case begin of None \<Rightarrow> 0 | Some b \<Rightarrow> length (takeWhile (\<lambda>(k, v). cmp k b < 0) xs))"

definition upper_bound :: "comparator \<Rightarrow> bytes option \<Rightarrow> (bytes \<times> 'v) list \<Rightarrow> nat" where
  "upper_bound cmp limit xs =
     (case limit of None \<Rightarrow> length xs | Some e \<Rightarrow> length (takeWhile (\<lambda>(k, v). \<not> cmp e k < 0) xs))"

definition file_in_range :: "comparator \<Rightarrow> bytes option \<Rightarrow> bool \<Rightarrow> BlobFileMeta \<Rightarrow> bool" where
  "file_in_range cmp limit include_end file \<longleftrightarrow>
     \<not> is_obsolete file \<and> \<not> (largest_key file = [] \<and> limit \<noteq> None) \<and>
     (case limit of
        None \<Rightarrow> True
      | Some e \<Rightarrow> include_end \<and> cmp (largest_key file) e \<le> 0
                \<or> \<not> include_end \<and> cmp (largest_key file) e < 0)"

fun GetBlobFilesInRanges ::
    "(bytes option \<times> bytes option) list \<Rightarrow> bool \<Rightarrow> BlobStorage \<Rightarrow> status + u64 list" where
  "GetBlobFilesInRanges [] include_end st = Inr []"
| "GetBlobFilesInRanges ((begin, limit) # ranges) include_end st =
     (let cmp = storage_cmp st;
          lo = lower_bound cmp begin (blob_ranges st);
          hi = upper_bound cmp limit (blob_ranges st)
      in if hi < lo then Inl (Undefined ''range iterator past its end'')
         else
           let found = filter (\<lambda>n. case FindFile n st of
                                     None \<Rightarrow> False
                                   | Some file \<Rightarrow> file_in_range cmp limit include_end file)
                         (map snd (take (hi - lo) (drop lo (blob_ranges st))))
           in case GetBlobFilesInRanges ranges include_end st of
                Inl s \<Rightarrow> Inl s | Inr rest \<Rightarrow> Inr (found @ rest))"

section \<open>Association list lemmas\<close>

lemma assoc_split:
  assumes "distinct (map fst xs)" "map_of xs n = Some v"
  obtains ys zs where "xs = ys @ (n, v) # zs" "n \<notin> fst ` set ys" "n \<notin> fst ` set zs"
proof -
  obtain ys zs where xs: "xs = ys @ (n, v) # zs"
    using map_of_SomeD [OF assms(2)] by (auto dest: split_list)
  then have "n \<notin> fst ` set ys" "n \<notin> fst ` set zs" using assms(1) by force+
  with xs that show ?thesis by blast
qed

lemma upd_other: "n \<notin> fst ` set xs \<Longrightarrow> upd n g xs = xs"
  by (induction xs) (auto simp: upd_def)

lemma upd_append [simp]: "upd n g (xs @ ys) = upd n g xs @ upd n g ys"
  by (simp add: upd_def)

lemma upd_Cons [simp]: "upd n g ((k, v) # xs) = (if k = n then (k, g v) else (k, v)) # upd n g xs"
  by (simp add: upd_def)

lemma upd_Nil [simp]: "upd n g [] = []"
  by (simp add: upd_def)

lemma upd_split:
  "\<lbrakk>n \<notin> fst ` set ys; n \<notin> fst ` set zs\<rbrakk> \<Longrightarrow> upd n g (ys @ (n, v) # zs) = ys @ (n, g v) # zs"
  by (simp add: upd_other)

lemma fst_upd [simp]: "map fst (upd n g xs) = map fst xs"
  by (induction xs) (auto simp: upd_def)

lemma map_of_upd: "map_of (upd n g xs) k = (if k = n then map_option g (map_of xs k) else map_of xs k)"
  by (induction xs) (auto simp: upd_def)

lemma erase_key_other: "n \<notin> fst ` set xs \<Longrightarrow> erase_key n xs = xs"
  by (induction xs) (auto simp: erase_key_def)

lemma erase_key_split:
  "\<lbrakk>n \<notin> fst ` set ys; n \<notin> fst ` set zs\<rbrakk> \<Longrightarrow> erase_key n (ys @ (n, v) # zs) = ys @ zs"
  using erase_key_other [of n ys] erase_key_other [of n zs] by (simp add: erase_key_def)

lemma map_of_erase_key: "map_of (erase_key n xs) k = (if k = n then None else map_of xs k)"
  by (induction xs) (auto simp: erase_key_def)

lemma map_of_emplace:
  "map_of (emplace k v xs) k' = (if k' = k \<and> map_of xs k = None then Some v else map_of xs k')"
proof (cases "k \<in> fst ` set xs")
  case True
  then have "map_of xs k \<noteq> None" by (simp add: map_of_eq_None_iff)
  then show ?thesis using True by (simp add: emplace_def)
next
  case False
  then have "map_of xs k = None" by (simp add: map_of_eq_None_iff)
  then show ?thesis using False by (auto simp: emplace_def map_add_def split: option.splits)
qed

section \<open>Invariant\<close>

text \<open>
  \<open>storage_inv obs st\<close> relates the containers: file numbers are keys, the obsolete list
  \<open>obs\<close> names each obsolete file once, and \<open>blob_ranges\<close> holds every file under its smallest key,
  in order.
\<close>

definition storage_inv :: "(u64 \<times> u64) list \<Rightarrow> BlobStorage \<Rightarrow> bool" where
  "storage_inv obs st \<longleftrightarrow>
     distinct (map fst (files st)) \<and>
     list_all (\<lambda>(n, f). file_number f = n) (files st) \<and>
     distinct (map fst obs) \<and>
     fst ` set obs = fst ` set (filter (\<lambda>(n, f). is_obsolete f) (files st)) \<and>
     mset (blob_ranges st) = mset (map (\<lambda>(n, f). (smallest_key f, n)) (files st)) \<and>
     sorted_wrt (\<lambda>(a, _) (b, _). storage_cmp st a b \<le> 0) (blob_ranges st)"

definition BlobStorage_inv :: "BlobStorage \<Rightarrow> bool" where
  "BlobStorage_inv st = storage_inv (obsolete_files st) st"

text \<open>The counters describe the files, up to the wrap-around of 64-bit words.\<close>

definition live_list :: "BlobStorage \<Rightarrow> BlobFileMeta list" where
  "live_list st = filter (\<lambda>f. \<not> is_obsolete f) (map snd (files st))"

definition obsolete_list :: "BlobStorage \<Rightarrow> BlobFileMeta list" where
  "obsolete_list st = filter is_obsolete (map snd (files st))"

definition stats_inv :: "BlobStorage \<Rightarrow> bool" where
  "stats_inv st \<longleftrightarrow>
     st_stats st NUM_LIVE_BLOB_FILE = of_nat (length (live_list st)) \<and>
     st_stats st NUM_OBSOLETE_BLOB_FILE = of_nat (length (obsolete_list st)) \<and>
     st_stats st LIVE_BLOB_FILE_SIZE = sum_list (map file_size (live_list st)) \<and>
     st_stats st OBSOLETE_BLOB_FILE_SIZE = sum_list (map file_size (obsolete_list st))"

lemma ratio_level_other [simp]:
  "GetDiscardableRatioLevel f \<noteq> NUM_LIVE_BLOB_FILE" "GetDiscardableRatioLevel f \<noteq> NUM_OBSOLETE_BLOB_FILE"
  "GetDiscardableRatioLevel f \<noteq> LIVE_BLOB_FILE_SIZE" "GetDiscardableRatioLevel f \<noteq> OBSOLETE_BLOB_FILE_SIZE"
  "NUM_LIVE_BLOB_FILE \<noteq> GetDiscardableRatioLevel f" "NUM_OBSOLETE_BLOB_FILE \<noteq> GetDiscardableRatioLevel f"
  "LIVE_BLOB_FILE_SIZE \<noteq> GetDiscardableRatioLevel f" "OBSOLETE_BLOB_FILE_SIZE \<noteq> GetDiscardableRatioLevel f"
  by (auto simp: GetDiscardableRatioLevel_def Let_def split: if_splits)

lemma BlobStorage_new_inv: "BlobStorage_inv (BlobStorage_new opts cfid)" "stats_inv (BlobStorage_new opts cfid)"
  by (simp_all add: BlobStorage_inv_def storage_inv_def BlobStorage_new_def stats_inv_def live_list_def obsolete_list_def)

lemma mset_multimap_emplace: "mset (multimap_emplace cmp k v xs) = add_mset (k, v) (mset xs)"
  by (induction cmp k v xs rule: multimap_emplace.induct) auto

lemma set_multimap_emplace: "set (multimap_emplace cmp k v xs) = insert (k, v) (set xs)"
  using mset_multimap_emplace [of cmp k v xs] by (metis set_mset_add_mset_insert set_mset_mset)

lemma sorted_multimap_emplace:
  assumes "comparator cmp"
  shows "sorted_wrt (\<lambda>(a, _) (b, _). cmp a b \<le> 0) xs \<Longrightarrow>
         sorted_wrt (\<lambda>(a, _) (b, _). cmp a b \<le> 0) (multimap_emplace cmp k v xs)"
proof (induction xs)
  case (Cons x xs)
  obtain k' v' where x: "x = (k', v')" by (cases x)
  show ?case
  proof (cases "cmp k k' < 0")
    case True
    then show ?thesis
      using Cons.prems comparator.cmp_trans [OF assms, of k k'] by (fastforce simp: x)
  next
    case False
    then have "cmp k' k \<le> 0" using comparator.cmp_not_less [OF assms, of k k'] by simp
    then show ?thesis
      using Cons False by (auto simp: x set_multimap_emplace)
  qed
qed simp

lemma AddBlobFile_fields [simp]:
  "files (AddBlobFile f st) = emplace (file_number f) f (files st)"
  "obsolete_files (AddBlobFile f st) = obsolete_files st"
  "blob_ranges (AddBlobFile f st) = multimap_emplace (storage_cmp st) (smallest_key f) (file_number f) (blob_ranges st)"
  "cf_options (AddBlobFile f st) = cf_options st"
  "gc_score (AddBlobFile f st) = gc_score st" "destroyed (AddBlobFile f st) = destroyed st"
  "cf_id (AddBlobFile f st) = cf_id st" "file_cache (AddBlobFile f st) = file_cache st"
  by (simp_all add: AddBlobFile_def Let_def)

lemma AddBlobFile_inv:
  assumes "comparator (storage_cmp st)" "storage_inv obs st" "FindFile (file_number f) st = None" "\<not> is_obsolete f"
  shows "storage_inv obs (AddBlobFile f st)"
proof -
  have new: "file_number f \<notin> fst ` set (files st)"
    using assms(3) by (simp add: FindFile_def map_of_eq_None_iff)
  then show ?thesis
    using assms(2,4) sorted_multimap_emplace [OF assms(1)]
    by (auto simp: storage_inv_def emplace_def mset_multimap_emplace)
qed

lemma AddBlobFile_stats:
  assumes "stats_inv st" "FindFile (file_number f) st = None" "\<not> is_obsolete f"
  shows "stats_inv (AddBlobFile f st)"
proof -
  have "file_number f \<notin> fst ` set (files st)"
    using assms(2) by (simp add: FindFile_def map_of_eq_None_iff)
  then show ?thesis
    using assms(1,3)
    by (auto simp: stats_inv_def live_list_def obsolete_list_def AddBlobFile_def Let_def emplace_def)
qed

lemma storage_inv_find:
  "\<lbrakk>storage_inv obs st; map_of (files st) n = Some f\<rbrakk> \<Longrightarrow> file_number f = n"
  by (auto simp: storage_inv_def list_all_iff dest!: map_of_SomeD)

lemma FileStateTransit_fields [simp]:
  "file_number (FileStateTransit ev f) = file_number f" "file_size (FileStateTransit ev f) = file_size f"
  "smallest_key (FileStateTransit ev f) = smallest_key f" "largest_key (FileStateTransit ev f) = largest_key f"
  "file_entries (FileStateTransit ev f) = file_entries f" "file_level (FileStateTransit ev f) = file_level f"
  "live_data_size (FileStateTransit ev f) = live_data_size f"
  "invalid_entry_indexes (FileStateTransit ev f) = invalid_entry_indexes f"
  by (simp_all add: FileStateTransit_def)

lemma is_obsolete_delete [simp]: "is_obsolete (FileStateTransit kDelete f)"
  by (simp add: is_obsolete_def FileStateTransit_def transit_def)

lemma update_file_fields [simp]:
  "files (update_file n g st) = upd n g (files st)"
  "obsolete_files (update_file n g st) = obsolete_files st" "blob_ranges (update_file n g st) = blob_ranges st"
  "cf_options (update_file n g st) = cf_options st" "st_stats (update_file n g st) = st_stats st"
  "levels_file_count (update_file n g st) = levels_file_count st" "gc_score (update_file n g st) = gc_score st"
  "destroyed (update_file n g st) = destroyed st" "cf_id (update_file n g st) = cf_id st"
  by (simp_all add: update_file_def)

lemma MarkFileObsoleteLocked_fields [simp]:
  "files (MarkFileObsoleteLocked f seq st) = upd (file_number f) (FileStateTransit kDelete) (files st)"
  "obsolete_files (MarkFileObsoleteLocked f seq st) = obsolete_files st @ [(file_number f, seq)]"
  "blob_ranges (MarkFileObsoleteLocked f seq st) = blob_ranges st"
  "cf_options (MarkFileObsoleteLocked f seq st) = cf_options st"
  "destroyed (MarkFileObsoleteLocked f seq st) = destroyed st"
  "cf_id (MarkFileObsoleteLocked f seq st) = cf_id st"
  by (simp_all add: MarkFileObsoleteLocked_def Let_def)

lemma MarkFileObsolete_inv:
  assumes "BlobStorage_inv st" "FindFile n st = Some f" "\<not> is_obsolete f"
  shows "fst (MarkFileObsolete n seq st) \<and> BlobStorage_inv (snd (MarkFileObsolete n seq st))"
proof -
  have inv: "storage_inv (obsolete_files st) st" and fnd: "map_of (files st) n = Some f"
    using assms by (simp_all add: BlobStorage_inv_def FindFile_def)
  obtain ys zs where xs: "files st = ys @ (n, f) # zs" "n \<notin> fst ` set ys" "n \<notin> fst ` set zs"
    using inv fnd by (elim assoc_split [rotated]) (auto simp: storage_inv_def)
  have fn: "file_number f = n" using storage_inv_find [OF inv fnd] .
  have "n \<notin> fst ` set (filter (\<lambda>(n, f). is_obsolete f) (files st))"
    using xs assms(3) by force
  then show ?thesis
    using inv xs(2,3) fnd assms(3)
    by (auto simp: BlobStorage_inv_def MarkFileObsolete_def storage_inv_def fn xs(1) upd_other image_Un)
qed

lemma MarkFileObsolete_stats:
  assumes "BlobStorage_inv st" "stats_inv st" "FindFile n st = Some f" "\<not> is_obsolete f"
  shows "stats_inv (snd (MarkFileObsolete n seq st))"
proof -
  have inv: "storage_inv (obsolete_files st) st" and fnd: "map_of (files st) n = Some f"
    using assms by (simp_all add: BlobStorage_inv_def FindFile_def)
  obtain ys zs where xs: "files st = ys @ (n, f) # zs" "n \<notin> fst ` set ys" "n \<notin> fst ` set zs"
    using inv fnd by (elim assoc_split [rotated]) (auto simp: storage_inv_def)
  have fn: "file_number f = n" using storage_inv_find [OF inv fnd] .
  show ?thesis
    using assms(2,4) xs(2,3) fnd
    by (simp add: stats_inv_def live_list_def obsolete_list_def MarkFileObsolete_def
        MarkFileObsoleteLocked_def Let_def fn xs(1) upd_other algebra_simps)
qed

lemma mset_erase_range:
  assumes "comparator cmp" "(k, n) \<in> set xs"
  shows "mset (erase_range cmp k n xs) = mset xs - {#(k, n)#}"
  using assms(2)
proof (induction xs)
  case (Cons x xs)
  obtain k' n' where x: "x = (k', n')" by (cases x)
  have "\<not> cmp k' k < 0 \<and> \<not> cmp k k' < 0 \<longleftrightarrow> k' = k"
    using comparator.cmp_antisym [OF assms(1)] comparator.cmp_not_less [OF assms(1)]
      comparator.cmp_refl [OF assms(1)] by auto
  then show ?case
    using Cons by (auto simp: x)
qed simp

lemma sorted_erase_range:
  "sorted_wrt P xs \<Longrightarrow> sorted_wrt P (erase_range cmp k n xs) \<and> set (erase_range cmp k n xs) \<subseteq> set xs"
  by (induction cmp k n xs rule: erase_range.induct) auto

lemma RemoveFile_fields:
  assumes "map_of (files st) n = Some f"
  shows "fst (RemoveFile n st)" "files (snd (RemoveFile n st)) = erase_key n (files st)"
    "cf_options (snd (RemoveFile n st)) = cf_options st"
    "obsolete_files (snd (RemoveFile n st)) = obsolete_files st"
    "destroyed (snd (RemoveFile n st)) = destroyed st"
    "gc_score (snd (RemoveFile n st)) = gc_score st"
    "n \<notin> set (file_cache (snd (RemoveFile n st)))"
  using assms by (simp_all add: RemoveFile_def)

lemma RemoveFile_inv:
  assumes "comparator (storage_cmp st)" "storage_inv obs st" "n \<in> fst ` set obs"
  shows "storage_inv (erase_key n obs) (snd (RemoveFile n st))"
    and "files (snd (RemoveFile n st)) = erase_key n (files st)"
    and "cf_options (snd (RemoveFile n st)) = cf_options st"
    and "obsolete_files (snd (RemoveFile n st)) = obsolete_files st"
    and "stats_inv st \<Longrightarrow> stats_inv (snd (RemoveFile n st))"
proof -
  obtain f where f: "(n, f) \<in> set (files st)" "is_obsolete f"
    using assms(2,3) by (auto simp: storage_inv_def)
  then have fnd: "map_of (files st) n = Some f"
    using assms(2) by (simp add: storage_inv_def)
  have fn: "file_number f = n" using storage_inv_find [OF assms(2) fnd] .
  obtain ys zs where xs: "files st = ys @ (n, f) # zs" "n \<notin> fst ` set ys" "n \<notin> fst ` set zs"
    using assms(2) fnd by (elim assoc_split [rotated]) (auto simp: storage_inv_def)
  have br: "mset (blob_ranges st) = mset (map (\<lambda>(n, f). (smallest_key f, n)) (files st))"
    using assms(2) by (simp add: storage_inv_def)
  then have "(smallest_key f, n) \<in># mset (blob_ranges st)"
    using f(1) by (force simp: image_iff)
  then have mem: "(smallest_key f, n) \<in> set (blob_ranges st)" by simp
  have er: "mset (erase_range (storage_cmp st) (smallest_key f) n (blob_ranges st)) =
      mset (map (\<lambda>(n, f). (smallest_key f, n)) (ys @ zs))"
    unfolding mset_erase_range [OF assms(1) mem] br xs(1) by simp
  have ek: "erase_key n (files st) = ys @ zs" using xs by (simp add: erase_key_split)
  have obs: "fst ` set (erase_key n obs) = fst ` set obs - {n}" by (force simp: erase_key_def)
  have dist: "distinct (map fst (erase_key n obs))"
    using assms(2) by (simp add: erase_key_def storage_inv_def distinct_map_filter)
  have st': "files (snd (RemoveFile n st)) = ys @ zs"
    "blob_ranges (snd (RemoveFile n st)) = erase_range (storage_cmp st) (smallest_key f) n (blob_ranges st)"
    "cf_options (snd (RemoveFile n st)) = cf_options st"
    using ek by (simp_all add: RemoveFile_def fnd fn)
  have old: "distinct (map fst (ys @ (n, f) # zs))" "list_all (\<lambda>(n, f). file_number f = n) (ys @ (n, f) # zs)"
    "fst ` set obs = fst ` set (filter (\<lambda>(n, f). is_obsolete f) (ys @ (n, f) # zs))"
    "sorted_wrt (\<lambda>(a, _) (b, _). storage_cmp st a b \<le> 0) (blob_ranges st)"
    using assms(2) xs(1) by (simp_all add: storage_inv_def)
  have "fst ` set obs - {n} = fst ` set (filter (\<lambda>(n, f). is_obsolete f) (ys @ zs))"
    unfolding old(3) using xs(2,3) by (auto simp: image_iff)
  then show "storage_inv (erase_key n obs) (snd (RemoveFile n st))"
    unfolding storage_inv_def st' er obs using old dist sorted_erase_range [OF old(4)] by simp
  show "files (snd (RemoveFile n st)) = erase_key n (files st)"
    "cf_options (snd (RemoveFile n st)) = cf_options st"
    "obsolete_files (snd (RemoveFile n st)) = obsolete_files st"
    using RemoveFile_fields [OF fnd] by simp_all
  have stats: "st_stats (snd (RemoveFile n st)) =
      SubStats NUM_OBSOLETE_BLOB_FILE 1 (SubStats OBSOLETE_BLOB_FILE_SIZE (file_size f) (st_stats st))"
    by (simp add: RemoveFile_def fnd)
  show "stats_inv (snd (RemoveFile n st))" if "stats_inv st"
    using that f(2)
    by (simp add: stats_inv_def live_list_def obsolete_list_def st' stats xs(1) algebra_simps)
qed

lemma erase_key_append: "erase_key n (xs @ ys) = erase_key n xs @ erase_key n ys"
  by (simp add: erase_key_def)

lemma obsolete_loop_eq:
  assumes "comparator (storage_cmp st)" "storage_inv (pre @ xs) st"
  shows "\<exists>st'. obsolete_loop oldest xs st =
           (map fst (filter (\<lambda>x. snd x < oldest) xs), filter (\<lambda>x. \<not> snd x < oldest) xs, st')
         \<and> storage_inv (pre @ filter (\<lambda>x. \<not> snd x < oldest) xs) st'
         \<and> files st' = filter (\<lambda>x. fst x \<notin> fst ` {x \<in> set xs. snd x < oldest}) (files st)
         \<and> cf_options st' = cf_options st \<and> (stats_inv st \<longrightarrow> stats_inv st')"
  using assms
proof (induction xs arbitrary: pre st)
  case Nil
  then show ?case by simp
next
  case (Cons x xs)
  obtain n s where x: "x = (n, s)" by (cases x)
  show ?case
  proof (cases "s < oldest")
    case True
    let ?st = "snd (RemoveFile n st)"
    have n: "n \<in> fst ` set (pre @ x # xs)" by (simp add: x)
    note rm = RemoveFile_inv [OF Cons.prems n]
    have "n \<notin> fst ` set pre" "n \<notin> fst ` set xs"
      using Cons.prems(2) by (auto simp: storage_inv_def x)
    then have "erase_key n (pre @ x # xs) = pre @ xs"
      by (simp add: x erase_key_split)
    then have "comparator (storage_cmp ?st)" "storage_inv (pre @ xs) ?st"
      using rm(1,3) Cons.prems(1) by simp_all
    from Cons.IH [OF this] obtain st' where st':
      "obsolete_loop oldest xs ?st =
         (map fst (filter (\<lambda>x. snd x < oldest) xs), filter (\<lambda>x. \<not> snd x < oldest) xs, st')"
      "storage_inv (pre @ filter (\<lambda>x. \<not> snd x < oldest) xs) st'"
      "files st' = filter (\<lambda>x. fst x \<notin> fst ` {x \<in> set xs. snd x < oldest}) (files ?st)"
      "cf_options st' = cf_options ?st" "stats_inv ?st \<longrightarrow> stats_inv st'"
      by blast
    have ins: "{y \<in> set (x # xs). snd y < oldest} = insert x {y \<in> set xs. snd y < oldest}"
      using True by (auto simp: x)
    have "files st' = filter (\<lambda>y. fst y \<notin> fst ` {y \<in> set (x # xs). snd y < oldest}) (files st)"
      unfolding st'(3) rm(2) erase_key_def ins by (auto simp: x intro!: filter_cong)
    then show ?thesis
      using st' rm True by (simp add: x case_prod_beta Let_def)
  next
    case False
    have "storage_inv ((pre @ [x]) @ xs) st" using Cons.prems(2) by simp
    from Cons.IH [OF Cons.prems(1) this] obtain st' where st':
      "obsolete_loop oldest xs st =
         (map fst (filter (\<lambda>x. snd x < oldest) xs), filter (\<lambda>x. \<not> snd x < oldest) xs, st')"
      "storage_inv ((pre @ [x]) @ filter (\<lambda>x. \<not> snd x < oldest) xs) st'"
      "files st' = filter (\<lambda>x. fst x \<notin> fst ` {x \<in> set xs. snd x < oldest}) (files st)"
      "cf_options st' = cf_options st" "stats_inv st \<longrightarrow> stats_inv st'"
      by blast
    moreover have "{y \<in> set (x # xs). snd y < oldest} = {y \<in> set xs. snd y < oldest}"
      using False by (auto simp: x)
    ultimately show ?thesis using False by (auto simp: x)
  qed
qed

text \<open>
  What \<open>GetObsoleteFiles\<close> does: the files returned are those whose obsolete sequence lies before
  the oldest snapshot, exactly these leave the storage, and the invariants hold afterwards.
\<close>

lemma GetObsoleteFiles_eq:
  assumes "comparator (storage_cmp st)" "BlobStorage_inv st"
  shows "fst (GetObsoleteFiles oldest st) = map fst (filter (\<lambda>x. snd x < oldest) (obsolete_files st))"
    and "files (snd (GetObsoleteFiles oldest st)) =
         filter (\<lambda>x. fst x \<notin> set (fst (GetObsoleteFiles oldest st))) (files st)"
    and "obsolete_files (snd (GetObsoleteFiles oldest st)) = filter (\<lambda>x. \<not> snd x < oldest) (obsolete_files st)"
    and "BlobStorage_inv (snd (GetObsoleteFiles oldest st))"
    and "cf_options (snd (GetObsoleteFiles oldest st)) = cf_options st"
    and "stats_inv st \<Longrightarrow> stats_inv (snd (GetObsoleteFiles oldest st))"
proof -
  have inv: "storage_inv ([] @ obsolete_files st) st" using assms(2) by (simp add: BlobStorage_inv_def)
  from obsolete_loop_eq [OF assms(1) inv, of oldest] obtain st' where st':
    "obsolete_loop oldest (obsolete_files st) st =
       (map fst (filter (\<lambda>x. snd x < oldest) (obsolete_files st)), filter (\<lambda>x. \<not> snd x < oldest) (obsolete_files st), st')"
    "storage_inv (filter (\<lambda>x. \<not> snd x < oldest) (obsolete_files st)) st'"
    "files st' = filter (\<lambda>x. fst x \<notin> fst ` {x \<in> set (obsolete_files st). snd x < oldest}) (files st)"
    "cf_options st' = cf_options st" "stats_inv st \<longrightarrow> stats_inv st'"
    by auto
  then show "fst (GetObsoleteFiles oldest st) = map fst (filter (\<lambda>x. snd x < oldest) (obsolete_files st))"
    and "files (snd (GetObsoleteFiles oldest st)) =
         filter (\<lambda>x. fst x \<notin> set (fst (GetObsoleteFiles oldest st))) (files st)"
    and "obsolete_files (snd (GetObsoleteFiles oldest st)) = filter (\<lambda>x. \<not> snd x < oldest) (obsolete_files st)"
    and "BlobStorage_inv (snd (GetObsoleteFiles oldest st))"
    and "cf_options (snd (GetObsoleteFiles oldest st)) = cf_options st"
    and "stats_inv st \<Longrightarrow> stats_inv (snd (GetObsoleteFiles oldest st))"
    by (simp_all add: GetObsoleteFiles_def BlobStorage_inv_def storage_inv_def stats_inv_def live_list_def obsolete_list_def)
qed

section \<open>Scores\<close>

lemma mset_insert_score: "mset (insert_score s ss) = add_mset s (mset ss)"
  by (induction ss) auto

lemma mset_sort_scores: "mset (sort_scores ss) = mset ss"
  by (induction ss) (simp_all add: sort_scores_def mset_insert_score)

lemma dbl_not_less_trans:
  "\<lbrakk>b \<noteq> NaN; \<not> dbl_less a b; \<not> dbl_less b c\<rbrakk> \<Longrightarrow> \<not> dbl_less a c"
  by (cases a; cases b; cases c) auto

lemma dbl_less_asym: "dbl_less a b \<Longrightarrow> \<not> dbl_less b a"
  by (cases a; cases b) auto

lemma sorted_insert_score:
  assumes "\<forall>t\<in>set (s # ss). gcs_score t \<noteq> NaN"
    "sorted_wrt (\<lambda>s t. \<not> dbl_less (gcs_score s) (gcs_score t)) ss"
  shows "sorted_wrt (\<lambda>s t. \<not> dbl_less (gcs_score s) (gcs_score t)) (insert_score s ss)"
  using assms
proof (induction ss)
  case (Cons t ts)
  have set: "set (insert_score s ts) = insert s (set ts)"
    using mset_insert_score [of s ts] by (metis set_mset_add_mset_insert set_mset_mset)
  show ?case
  proof (cases "dbl_less (gcs_score s) (gcs_score t)")
    case True
    then show ?thesis using Cons dbl_less_asym by (auto simp: set)
  next
    case False
    then show ?thesis
      using Cons.prems dbl_not_less_trans [of "gcs_score t" "gcs_score s"] by auto
  qed
qed simp

lemma sorted_sort_scores:
  "\<forall>t\<in>set ss. gcs_score t \<noteq> NaN \<Longrightarrow>
   sorted_wrt (\<lambda>s t. \<not> dbl_less (gcs_score s) (gcs_score t)) (sort_scores ss)"
proof (induction ss)
  case (Cons s ss)
  have "set (sort_scores ss) = set ss" using mset_sort_scores by (metis set_mset_mset)
  then show ?case
    using Cons sorted_insert_score [of s "sort_scores ss"] by (simp add: sort_scores_def)
qed (simp add: sort_scores_def)

lemma ComputeGCScore_fields [simp]:
  "files (ComputeGCScore st) = files st" "obsolete_files (ComputeGCScore st) = obsolete_files st"
  "blob_ranges (ComputeGCScore st) = blob_ranges st" "cf_options (ComputeGCScore st) = cf_options st"
  "st_stats (ComputeGCScore st) = st_stats st" "destroyed (ComputeGCScore st) = destroyed st"
  "cf_id (ComputeGCScore st) = cf_id st" "levels_file_count (ComputeGCScore st) = levels_file_count st"
  by (simp_all add: ComputeGCScore_def Let_def)

lemma ComputeGCScore_inv [simp]:
  "BlobStorage_inv (ComputeGCScore st) = BlobStorage_inv st" "stats_inv (ComputeGCScore st) = stats_inv st"
  "storage_inv obs (ComputeGCScore st) = storage_inv obs st"
  by (simp_all add: BlobStorage_inv_def storage_inv_def stats_inv_def live_list_def obsolete_list_def)

lemma ComputeGCScore_scores:
  "mset (gc_score (ComputeGCScore st)) =
   mset (map (\<lambda>x. \<lparr> gcs_file_number = fst x, gcs_score = score_of (cf_options st) (snd x) \<rparr>)
           (filter (\<lambda>x. \<not> is_obsolete (snd x)) (files st)))"
  by (simp add: ComputeGCScore_def Let_def mset_sort_scores case_prod_unfold)

lemma InitializeAllFiles_files:
  "files (InitializeAllFiles st) = map (\<lambda>x. (fst x, FileStateTransit kDbRestart (snd x))) (files st)"
  by (simp add: InitializeAllFiles_def case_prod_unfold)

section \<open>Files in a range\<close>

lemma takeWhile_eq_filter:
  "\<lbrakk>sorted_wrt R xs; \<And>x y. R x y \<Longrightarrow> Q y \<Longrightarrow> Q x\<rbrakk> \<Longrightarrow> takeWhile Q xs = filter Q xs"
proof (induction xs)
  case (Cons a xs)
  show ?case
  proof (cases "Q a")
    case False
    then have "\<forall>x\<in>set xs. \<not> Q x" using Cons.prems by auto
    then have "filter Q xs = []" by (simp add: filter_empty_conv)
    then show ?thesis using False by simp
  qed (use Cons in simp)
qed simp

lemma dropWhile_eq_filter:
  "\<lbrakk>sorted_wrt R xs; \<And>x y. R x y \<Longrightarrow> P y \<Longrightarrow> P x\<rbrakk> \<Longrightarrow> dropWhile P xs = filter (\<lambda>x. \<not> P x) xs"
proof (induction xs)
  case (Cons a xs)
  show ?case
  proof (cases "P a")
    case False
    then have "\<forall>x\<in>set xs. \<not> P x" using Cons.prems by auto
    then have "filter (\<lambda>x. \<not> P x) xs = xs" by (simp add: filter_id_conv)
    then show ?thesis using False by simp
  qed (use Cons in simp)
qed simp

lemma takeWhile_mono_length:
  "(\<And>x. P x \<Longrightarrow> Q x) \<Longrightarrow> length (takeWhile P xs) \<le> length (takeWhile Q xs)"
  by (induction xs) auto

lemma range_slice:
  assumes "sorted_wrt R xs" "\<And>x y. R x y \<Longrightarrow> P y \<Longrightarrow> P x" "\<And>x y. R x y \<Longrightarrow> Q y \<Longrightarrow> Q x"
    and "\<And>x. P x \<Longrightarrow> Q x"
  shows "take (length (takeWhile Q xs) - length (takeWhile P xs)) (drop (length (takeWhile P xs)) xs) =
         filter (\<lambda>x. \<not> P x \<and> Q x) xs"
proof -
  have "takeWhile P (takeWhile Q xs) = takeWhile P xs"
    using assms(4) by (induction xs) auto
  then have "drop (length (takeWhile P xs)) (takeWhile Q xs) = dropWhile P (takeWhile Q xs)"
    by (simp add: dropWhile_eq_drop)
  also have "\<dots> = filter (\<lambda>x. \<not> P x) (filter Q xs)"
    using assms(1-3) by (simp add: takeWhile_eq_filter [OF assms(1,3)] dropWhile_eq_filter [of R] sorted_wrt_filter)
  finally show ?thesis
    by (simp add: drop_take [symmetric] takeWhile_eq_take [symmetric] conj_commute)
qed

text \<open>
  The files of one range \<open>[b, e]\<close>: those whose smallest and largest keys lie within, that are not
  obsolete and that know their keys.
\<close>

lemma GetBlobFilesInRanges_single:
  assumes "comparator (storage_cmp st)" "BlobStorage_inv st" "storage_cmp st b e \<le> 0"
  shows "\<exists>ns. GetBlobFilesInRanges [(Some b, Some e)] include_end st = Inr ns \<and>
    set ns = {n. \<exists>f. FindFile n st = Some f \<and> \<not> is_obsolete f \<and> largest_key f \<noteq> [] \<and>
                  storage_cmp st b (smallest_key f) \<le> 0 \<and> storage_cmp st (smallest_key f) e \<le> 0 \<and>
                  (if include_end then storage_cmp st (largest_key f) e \<le> 0 else storage_cmp st (largest_key f) e < 0)}"
proof -
  let ?cmp = "storage_cmp st" and ?xs = "blob_ranges st"
  let ?P = "\<lambda>(k, v :: u64). ?cmp k b < 0" and ?Q = "\<lambda>(k, v :: u64). \<not> ?cmp e k < 0"
  let ?R = "\<lambda>(a, _ :: u64) (c, _ :: u64). ?cmp a c \<le> 0"
  note le_less = comparator.cmp_not_less [OF assms(1)]
  have sorted: "sorted_wrt ?R ?xs" and dist: "distinct (map fst (files st))"
    and mset: "mset ?xs = mset (map (\<lambda>(n, f). (smallest_key f, n)) (files st))"
    using assms(2) by (simp_all add: BlobStorage_inv_def storage_inv_def)
  have tr: "?cmp x y \<le> 0 \<Longrightarrow> ?cmp y z < 0 \<Longrightarrow> ?cmp x z < 0" for x y z
    using le_less comparator.cmp_trans [OF assms(1), of z x y] by (metis not_less)
  have trQ: "?cmp x y \<le> 0 \<Longrightarrow> \<not> ?cmp e y < 0 \<Longrightarrow> \<not> ?cmp e x < 0" for x y
    using le_less comparator.cmp_trans [OF assms(1), of x y e] by blast
  have PQ: "?P x \<Longrightarrow> ?Q x" for x
    using assms(3) tr [of b e] le_less by (cases x) (force dest: comparator.cmp_trans [OF assms(1)])
  have slice: "take (length (takeWhile ?Q ?xs) - length (takeWhile ?P ?xs)) (drop (length (takeWhile ?P ?xs)) ?xs) =
      filter (\<lambda>x. \<not> ?P x \<and> ?Q x) ?xs"
  proof (rule range_slice [OF sorted _ _ PQ])
    show "?P x" if "?R x y" "?P y" for x y using that tr by (cases x; cases y) auto
    show "?Q x" if "?R x y" "?Q y" for x y
      using that trQ by (cases x; cases y) auto
  qed
  have mem: "(k, n) \<in> set ?xs \<longleftrightarrow> (\<exists>f. FindFile n st = Some f \<and> k = smallest_key f)" for k n
  proof -
    have "set ?xs = (\<lambda>(n, f). (smallest_key f, n)) ` set (files st)"
      using mset by (metis (no_types, lifting) list.set_map set_mset_mset)
    then show ?thesis
      using dist by (auto simp: FindFile_def image_iff map_of_eq_Some_iff intro!: bexI [of _ "(n, _)"])
  qed
  show ?thesis
    using takeWhile_mono_length [of ?P ?Q ?xs] PQ slice
    by (auto simp: lower_bound_def upper_bound_def Let_def mem file_in_range_def le_less image_iff
        split: option.splits)
qed

section \<open>Properties\<close>

text \<open>
  C10: purging removes exactly the obsolete files whose obsolete sequence is below the oldest
  snapshot's. A well-formed storage stays well formed with correct counters, and every other file
  and obsolete entry stays. The comment in the source calls a file invisible already when the two
  are equal; the code keeps it then, until the oldest snapshot has moved on.
\<close>

theorem purge_removes_invisible:
  assumes "comparator (storage_cmp st)" "BlobStorage_inv st" "stats_inv st"
  shows "BlobStorage_inv (snd (GetObsoleteFiles oldest st)) \<and> stats_inv (snd (GetObsoleteFiles oldest st)) \<and>
    fst (GetObsoleteFiles oldest st) = map fst (filter (\<lambda>x. snd x < oldest) (obsolete_files st)) \<and>
    obsolete_files (snd (GetObsoleteFiles oldest st)) = filter (\<lambda>x. \<not> snd x < oldest) (obsolete_files st) \<and>
    files (snd (GetObsoleteFiles oldest st)) = filter (\<lambda>x. fst x \<notin> set (fst (GetObsoleteFiles oldest st))) (files st)"
  using GetObsoleteFiles_eq [OF assms(1,2), of oldest] assms(3) by blast

definition demo_storage :: BlobStorage where
  "demo_storage = AddBlobFile (BlobFileMeta_new 2 200 1 0 [5] [7]) (AddBlobFile (BlobFileMeta_new 1 100 1 0 [1] [3]) (BlobStorage_new demo_options 0))"

definition demo_marked :: BlobStorage where
  "demo_marked = snd (MarkFileObsolete 1 40 demo_storage)"

lemma demo_storage_inv:
  "comparator (storage_cmp demo_storage)" "BlobStorage_inv demo_storage" "stats_inv demo_storage"
  "comparator (storage_cmp demo_marked)" "BlobStorage_inv demo_marked" "stats_inv demo_marked"
proof -
  let ?a = "BlobFileMeta_new 1 100 1 0 [1] [3]" and ?b = "BlobFileMeta_new 2 200 1 0 [5] [7]"
  let ?s = "BlobStorage_new demo_options 0"
  have c: "comparator (storage_cmp ?s)" using bytewise.comparator_axioms by (simp add: BlobStorage_new_def)
  have n: "FindFile 1 ?s = None" "FindFile 2 (AddBlobFile ?a ?s) = None"
    by (simp_all add: FindFile_def BlobStorage_new_def emplace_def BlobFileMeta_new_def)
  have o: "\<not> is_obsolete ?a" "\<not> is_obsolete ?b" "file_number ?a = 1" "file_number ?b = 2"
    by (simp_all add: is_obsolete_def BlobFileMeta_new_def)
  note i1 = AddBlobFile_inv [OF c BlobStorage_new_inv(1) [unfolded BlobStorage_inv_def], of ?a] AddBlobFile_stats [OF BlobStorage_new_inv(2), of ?a]
  have a: "BlobStorage_inv (AddBlobFile ?a ?s)" "stats_inv (AddBlobFile ?a ?s)" "comparator (storage_cmp (AddBlobFile ?a ?s))"
    using i1 n o c by (simp_all add: BlobStorage_inv_def)
  show d: "comparator (storage_cmp demo_storage)" "BlobStorage_inv demo_storage" "stats_inv demo_storage"
    using AddBlobFile_inv [OF a(3) a(1) [unfolded BlobStorage_inv_def], of ?b] AddBlobFile_stats [OF a(2), of ?b] n o a(3)
    by (simp_all add: BlobStorage_inv_def demo_storage_def)
  have f: "FindFile 1 demo_storage = Some ?a"
    using n o by (simp add: demo_storage_def FindFile_def BlobStorage_new_def emplace_def)
  show "BlobStorage_inv demo_marked" "stats_inv demo_marked"
    using MarkFileObsolete_inv [OF d(2) f o(1)] MarkFileObsolete_stats [OF d(2,3) f o(1)] by (simp_all add: demo_marked_def)
  show "comparator (storage_cmp demo_marked)"
    using d(1) f by (simp add: demo_marked_def MarkFileObsolete_def FindFile_def)
qed

theorem purge_removes_invisible_witness:
  "fst (GetObsoleteFiles 41 demo_marked) = [1] \<and> map fst (files (snd (GetObsoleteFiles 41 demo_marked))) = [2]"
proof -
  have "obsolete_files demo_marked = [(1, 40)]" "map fst (files demo_marked) = [1, 2]" by code_simp+
  then show ?thesis
    using purge_removes_invisible [OF demo_storage_inv(4,5,6), of 41] by (auto simp: filter_map comp_def simp flip: filter_map)
qed

text \<open>
  C19: a range query returns exactly the live files inside the range: those whose smallest key is not
  below its beginning and whose largest key is not beyond its end, exclusive or inclusive as asked.
  Files of the old format, which have no keys, are left out.
\<close>

theorem files_in_range:
  assumes "comparator (storage_cmp st)" "BlobStorage_inv st" "storage_cmp st b e \<le> 0"
  shows "\<exists>ns. GetBlobFilesInRanges [(Some b, Some e)] include_end st = Inr ns \<and>
    set ns = {n. \<exists>f. FindFile n st = Some f \<and> \<not> is_obsolete f \<and> largest_key f \<noteq> [] \<and>
                  storage_cmp st b (smallest_key f) \<le> 0 \<and> storage_cmp st (smallest_key f) e \<le> 0 \<and>
                  (if include_end then storage_cmp st (largest_key f) e \<le> 0 else storage_cmp st (largest_key f) e < 0)}"
  by (rule GetBlobFilesInRanges_single [OF assms])

theorem files_in_range_witness:
  "\<exists>ns. GetBlobFilesInRanges [(Some [1], Some [4])] True demo_storage = Inr ns \<and> set ns = {1}"
proof -
  have c: "storage_cmp demo_storage = bytewise_compare" by (simp add: demo_storage_def BlobStorage_new_def)
  obtain ns where "GetBlobFilesInRanges [(Some [1], Some [4])] True demo_storage = Inr ns"
    "set ns = {n. \<exists>f. FindFile n demo_storage = Some f \<and> \<not> is_obsolete f \<and> largest_key f \<noteq> [] \<and>
                  bytewise_compare [1] (smallest_key f) \<le> 0 \<and> bytewise_compare (smallest_key f) [4] \<le> 0 \<and>
                  bytewise_compare (largest_key f) [4] \<le> 0}"
    using files_in_range [OF demo_storage_inv(1,2), of "[1]" "[4]" True] by (auto simp: c)
  moreover have "FindFile n demo_storage = (if n = 1 then Some (BlobFileMeta_new 1 100 1 0 [1] [3])
      else if n = 2 then Some (BlobFileMeta_new 2 200 1 0 [5] [7]) else None)" for n
    by (simp add: demo_storage_def FindFile_def BlobStorage_new_def emplace_def BlobFileMeta_new_def)
  ultimately show ?thesis by (auto simp: BlobFileMeta_new_def is_obsolete_def split: if_splits)
qed

text \<open>
  C20: the scores for garbage collection are those of the live files, in an order in which no score is
  below a later one, provided no file has the size of a header and a footer alone: such a file
  without live data has no score that can be compared.
\<close>

theorem gc_scores_sorted:
  assumes "\<forall>f\<in>snd ` set (files st). unat (file_size f) \<noteq> 44"
  shows "mset (gc_score (ComputeGCScore st)) =
      mset (map (\<lambda>x. \<lparr> gcs_file_number = fst x, gcs_score = score_of (cf_options st) (snd x) \<rparr>)
              (filter (\<lambda>x. \<not> is_obsolete (snd x)) (files st))) \<and>
    sorted_wrt (\<lambda>s t. \<not> dbl_less (gcs_score s) (gcs_score t)) (gc_score (ComputeGCScore st))"
proof -
  let ?ss = "map (\<lambda>(n, f). \<lparr> gcs_file_number = n, gcs_score = score_of (cf_options st) f \<rparr>) (filter (\<lambda>(n, f). \<not> is_obsolete f) (files st))"
  have "score_of (cf_options st) f \<noteq> NaN" if "f \<in> snd ` set (files st)" for f
  proof -
    have "file_size f - kBlobMaxHeaderSize - kBlobFooterSize \<noteq> 0"
    proof
      assume "file_size f - kBlobMaxHeaderSize - kBlobFooterSize = 0"
      then have "file_size f = 44" by (simp add: kBlobMaxHeaderSize_def kBlobFooterSize_def)
      then show False using assms that by auto
    qed
    then show ?thesis by (simp add: score_of_def GetDiscardableRatio_def Let_def)
  qed
  then have "\<forall>t\<in>set ?ss. gcs_score t \<noteq> NaN" by force
  from sorted_sort_scores [OF this] show ?thesis
    using ComputeGCScore_scores [of st] by (simp add: ComputeGCScore_def Let_def)
qed

theorem gc_scores_sorted_witness:
  "sorted_wrt (\<lambda>s t. \<not> dbl_less (gcs_score s) (gcs_score t)) (gc_score (ComputeGCScore demo_storage)) \<and>
   size (mset (gc_score (ComputeGCScore demo_storage))) = 2"
proof -
  have "files demo_storage = [(1, BlobFileMeta_new 1 100 1 0 [1] [3]), (2, BlobFileMeta_new 2 200 1 0 [5] [7])]"
    by (simp add: demo_storage_def BlobStorage_new_def emplace_def BlobFileMeta_new_def)
  then show ?thesis using gc_scores_sorted [of demo_storage] by (simp add: BlobFileMeta_new_def is_obsolete_def)
qed

end
