(* ===== verification/Version_Edit.thy ===== *)
theory Version_Edit
  imports Blob_Format
begin

text \<open>
  \<open>src/version_edit.{h,cc}\<close>: one record of Titan's manifest, the changes of a column family.
  A decode failure of a file's metadata reports a message read through a dangling pointer; the
  model keeps the status and drops the text. \<open>junk\<close> is the indeterminate content of
  the fields a legacy record does not set.
\<close>

section \<open>Model\<close>

definition kNextFileNumber :: u32 where "kNextFileNumber = 1"
definition kColumnFamilyID :: u32 where "kColumnFamilyID = 10"
definition kAddedBlobFile :: u32 where "kAddedBlobFile = 11"
definition kDeletedBlobFile :: u32 where "kDeletedBlobFile = 12"
definition kAddedBlobFileV2 :: u32 where "kAddedBlobFileV2 = 13"

lemmas tag_defs = kNextFileNumber_def kColumnFamilyID_def kAddedBlobFile_def kDeletedBlobFile_def
  kAddedBlobFileV2_def

record VersionEdit =
  ve_has_next_file_number :: bool
  ve_next_file_number :: u64
  ve_column_family_id :: u32
  ve_added_files :: "BlobFileMeta list"
  ve_deleted_files :: "(u64 \<times> u64) list"

definition VersionEdit_default :: VersionEdit where
  "VersionEdit_default =
     \<lparr> ve_has_next_file_number = False, ve_next_file_number = 0, ve_column_family_id = 0,
       ve_added_files = [], ve_deleted_files = [] \<rparr>"

definition SetNextFileNumber :: "u64 \<Rightarrow> VersionEdit \<Rightarrow> VersionEdit" where
  "SetNextFileNumber v e = e\<lparr> ve_has_next_file_number := True, ve_next_file_number := v \<rparr>"

definition SetColumnFamilyID :: "u32 \<Rightarrow> VersionEdit \<Rightarrow> VersionEdit" where
  "SetColumnFamilyID v e = e\<lparr> ve_column_family_id := v \<rparr>"

definition ve_AddBlobFile :: "BlobFileMeta \<Rightarrow> VersionEdit \<Rightarrow> VersionEdit" where
  "ve_AddBlobFile file e = e\<lparr> ve_added_files := ve_added_files e @ [file] \<rparr>"

definition ve_DeleteBlobFile :: "u64 \<Rightarrow> u64 \<Rightarrow> VersionEdit \<Rightarrow> VersionEdit" where
  "ve_DeleteBlobFile number obsolete_sequence e =
     e\<lparr> ve_deleted_files := ve_deleted_files e @ [(number, obsolete_sequence)] \<rparr>"

definition VersionEdit_EncodeTo :: "VersionEdit \<Rightarrow> bytes" where
  "VersionEdit_EncodeTo e =
     (if ve_has_next_file_number e then PutVarint32Varint64 kNextFileNumber (ve_next_file_number e) else [])
     @ PutVarint32Varint32 kColumnFamilyID (ve_column_family_id e)
     @ concat (map (\<lambda>file. PutVarint32 kAddedBlobFileV2 @ BlobFileMeta_EncodeTo file) (ve_added_files e))
     @ concat (map (\<lambda>file. PutVarint32Varint64 kDeletedBlobFile (fst file)) (ve_deleted_files e))"

text \<open>The body of the decoding loop for one tag.\<close>

definition decode_tag :: "u64 \<times> u32 \<Rightarrow> u32 \<Rightarrow> VersionEdit \<Rightarrow> bytes \<Rightarrow> status + (VersionEdit \<times> bytes)" where
  "decode_tag junk tag e src =
     (if tag = kNextFileNumber then
        (case GetVarint64 src of
           Some (v, src) \<Rightarrow> Inr (e\<lparr> ve_has_next_file_number := True, ve_next_file_number := v \<rparr>, src)
         | None \<Rightarrow> Inl (Corruption ''VersionEdit: next file number''))
      else if tag = kColumnFamilyID then
        (case GetVarint32 src of
           Some (v, src) \<Rightarrow> Inr (e\<lparr> ve_column_family_id := v \<rparr>, src)
         | None \<Rightarrow> Inl (Corruption ''VersionEdit: column family id''))
      else if tag = kAddedBlobFile then
        (case BlobFileMeta_DecodeFromLegacy (fst junk) (snd junk) src of
           Inr (file, src) \<Rightarrow> Inr (ve_AddBlobFile file e, src)
         | Inl s \<Rightarrow> Inl (Corruption ''VersionEdit''))
      else if tag = kAddedBlobFileV2 then
        (case BlobFileMeta_DecodeFrom src of
           Inr (file, src) \<Rightarrow> Inr (ve_AddBlobFile file e, src)
         | Inl s \<Rightarrow> Inl (Corruption ''VersionEdit''))
      else if tag = kDeletedBlobFile then
        (case GetVarint64 src of
           Some (v, src) \<Rightarrow> Inr (ve_DeleteBlobFile v 0 e, src)
         | None \<Rightarrow> Inl (Corruption ''VersionEdit: deleted blob file''))
      else Inl (Corruption ''VersionEdit: unknown tag''))"

lemma decode_tag_consumes:
  "decode_tag junk tag e src = Inr (e', src') \<Longrightarrow> length src' < length src"
  by (fastforce simp: decode_tag_def BlobFileMeta_DecodeFromLegacy_def bind_eq_Some_conv
      split: if_splits option.splits sum.splits prod.splits dest: length_consumes BlobFileMeta_consumes)

function VersionEdit_loop :: "u64 \<times> u32 \<Rightarrow> VersionEdit \<Rightarrow> bytes \<Rightarrow> status + VersionEdit" where
  "VersionEdit_loop junk e src =
     (if src = [] then Inr e
      else case GetVarint32 src of
             None \<Rightarrow> Inl (Corruption ''VersionEdit: invalid tag'')
           | Some (tag, src) \<Rightarrow>
               (case decode_tag junk tag e src of
                  Inl s \<Rightarrow> Inl s
                | Inr (e, src) \<Rightarrow> VersionEdit_loop junk e src))"
  by pat_completeness auto
termination
  by (relation "measure (\<lambda>(junk, e, src). length src)")
    (auto dest!: length_consumes(2) decode_tag_consumes)

declare VersionEdit_loop.simps [simp del]

definition VersionEdit_DecodeFrom :: "u64 \<times> u32 \<Rightarrow> bytes \<Rightarrow> status + VersionEdit" where
  "VersionEdit_DecodeFrom junk src = VersionEdit_loop junk VersionEdit_default src"

text \<open>\<open>operator==\<close>: added files are compared through a map from file numbers, keeping the first.\<close>

definition VersionEdit_eq :: "VersionEdit \<Rightarrow> VersionEdit \<Rightarrow> bool" where
  "VersionEdit_eq lhs rhs \<longleftrightarrow>
     length (ve_added_files lhs) = length (ve_added_files rhs) \<and>
     (let blob_files = map_of (map (\<lambda>f. (file_number f, f)) (ve_added_files lhs)) in
      list_all (\<lambda>f. case blob_files (file_number f) of
                      None \<Rightarrow> False | Some g \<Rightarrow> BlobFileMeta_eq g f) (ve_added_files rhs)) \<and>
     ve_has_next_file_number lhs = ve_has_next_file_number rhs \<and>
     ve_next_file_number lhs = ve_next_file_number rhs \<and>
     ve_column_family_id lhs = ve_column_family_id rhs \<and>
     ve_deleted_files lhs = ve_deleted_files rhs"

section \<open>Round trip\<close>

lemma VersionEdit_loop_tag:
  "decode_tag junk tag e src = Inr (e', src') \<Longrightarrow>
   VersionEdit_loop junk e (PutVarint32 tag @ src) = VersionEdit_loop junk e' src'"
  using varint32.enc_nonempty [of tag] by (subst VersionEdit_loop.simps) simp

lemma VersionEdit_loop_nil [simp]: "VersionEdit_loop junk e [] = Inr e"
  by (subst VersionEdit_loop.simps) simp

lemma loop_next_file_number:
  "VersionEdit_loop junk e (PutVarint32Varint64 kNextFileNumber v @ src) =
   VersionEdit_loop junk (SetNextFileNumber v e) src"
  using VersionEdit_loop_tag [of junk kNextFileNumber e "PutVarint64 v @ src"]
  by (simp add: decode_tag_def PutVarint32Varint64_def SetNextFileNumber_def flip: PutVarint32_def PutVarint64_def)

lemma loop_column_family:
  "VersionEdit_loop junk e (PutVarint32Varint32 kColumnFamilyID v @ src) =
   VersionEdit_loop junk (SetColumnFamilyID v e) src"
  using VersionEdit_loop_tag [of junk kColumnFamilyID e "PutVarint32 v @ src"]
  by (simp add: decode_tag_def PutVarint32Varint32_def SetColumnFamilyID_def tag_defs flip: PutVarint32_def)

lemma loop_deleted:
  "VersionEdit_loop junk e (concat (map (\<lambda>f. PutVarint32Varint64 kDeletedBlobFile (fst f)) fs) @ src) =
   VersionEdit_loop junk (e\<lparr> ve_deleted_files := ve_deleted_files e @ map (\<lambda>f. (fst f, 0)) fs \<rparr>) src"
proof (induction fs arbitrary: e)
  case (Cons f fs)
  have "VersionEdit_loop junk e (PutVarint32Varint64 kDeletedBlobFile (fst f) @ rest) =
        VersionEdit_loop junk (ve_DeleteBlobFile (fst f) 0 e) rest" for rest
    using VersionEdit_loop_tag [of junk kDeletedBlobFile e "PutVarint64 (fst f) @ rest"]
    by (simp add: decode_tag_def PutVarint32Varint64_def tag_defs flip: PutVarint32_def PutVarint64_def)
  then show ?case by (simp add: Cons.IH ve_DeleteBlobFile_def)
qed simp

lemma loop_added:
  "\<forall>f\<in>set fs. keys_short f \<Longrightarrow>
   VersionEdit_loop junk e (concat (map (\<lambda>f. PutVarint32 kAddedBlobFileV2 @ BlobFileMeta_EncodeTo f) fs) @ src) =
   VersionEdit_loop junk (e\<lparr> ve_added_files := ve_added_files e @ map persistent fs \<rparr>) src"
proof (induction fs arbitrary: e)
  case (Cons f fs)
  have "VersionEdit_loop junk e (PutVarint32 kAddedBlobFileV2 @ BlobFileMeta_EncodeTo f @ rest) =
        VersionEdit_loop junk (ve_AddBlobFile (persistent f) e) rest" for rest
    using VersionEdit_loop_tag [of junk kAddedBlobFileV2 e "BlobFileMeta_EncodeTo f @ rest"] Cons.prems
    by (simp add: decode_tag_def tag_defs BlobFileMeta_roundtrip)
  then show ?case using Cons by (simp add: ve_AddBlobFile_def)
qed simp

text \<open>What the manifest keeps of an edit.\<close>

definition VersionEdit_persistent :: "VersionEdit \<Rightarrow> VersionEdit" where
  "VersionEdit_persistent e =
     e\<lparr> ve_added_files := map persistent (ve_added_files e),
        ve_deleted_files := map (\<lambda>f. (fst f, 0)) (ve_deleted_files e) \<rparr>"

definition VersionEdit_wf :: "VersionEdit \<Rightarrow> bool" where
  "VersionEdit_wf e \<longleftrightarrow> list_all keys_short (ve_added_files e) \<and>
     (ve_has_next_file_number e \<or> ve_next_file_number e = 0)"

lemma VersionEdit_roundtrip:
  assumes "VersionEdit_wf e"
  shows "VersionEdit_DecodeFrom junk (VersionEdit_EncodeTo e) = Inr (VersionEdit_persistent e)"
proof -
  have deleted: "VersionEdit_loop junk e' (concat (map (\<lambda>f. PutVarint32Varint64 kDeletedBlobFile (fst f)) fs)) =
      Inr (e'\<lparr> ve_deleted_files := ve_deleted_files e' @ map (\<lambda>f. (fst f, 0)) fs \<rparr>)" for e' fs
    using loop_deleted [of junk e' fs "[]"] by simp
  show ?thesis
    using assms
    by (cases e) (auto simp: VersionEdit_DecodeFrom_def VersionEdit_EncodeTo_def loop_next_file_number
        loop_column_family loop_added deleted VersionEdit_default_def SetNextFileNumber_def
        SetColumnFamilyID_def VersionEdit_persistent_def VersionEdit_wf_def list_all_iff)
qed

section \<open>Properties\<close>

text \<open>
  C18: a version edit survives the manifest: the decoder gets back the column family, the next file
  number, the persistent fields of every added file and the number of every deleted file. Only
  the sequence numbers of deletions and the in-memory state of the files are lost.
\<close>

theorem edit_roundtrip:
  assumes "VersionEdit_wf e"
  shows "VersionEdit_DecodeFrom junk (VersionEdit_EncodeTo e) = Inr (VersionEdit_persistent e)"
  by (rule VersionEdit_roundtrip [OF assms])

definition demo_version_edit :: VersionEdit where
  "demo_version_edit = SetNextFileNumber 300 (ve_DeleteBlobFile 4 77 (ve_AddBlobFile (BlobFileMeta_new 5 1000 9 2 [1, 2] [3]) VersionEdit_default))"

theorem edit_roundtrip_witness:
  "VersionEdit_DecodeFrom (0, 0) (VersionEdit_EncodeTo demo_version_edit) =
     Inr (demo_version_edit\<lparr> ve_deleted_files := [(4, 0)] \<rparr>)"
proof -
  have "VersionEdit_wf demo_version_edit"
    by (simp add: demo_version_edit_def VersionEdit_wf_def SetNextFileNumber_def ve_DeleteBlobFile_def ve_AddBlobFile_def
        VersionEdit_default_def keys_short_def BlobFileMeta_new_def)
  from edit_roundtrip [OF this] show ?thesis
    by (simp add: VersionEdit_persistent_def demo_version_edit_def SetNextFileNumber_def ve_DeleteBlobFile_def
        ve_AddBlobFile_def VersionEdit_default_def persistent_def BlobFileMeta_new_def)
qed

end
