(* ===== verification/Blob_File_Set.thy ===== *)
theory Blob_File_Set
  imports Blob_Storage Version_Edit
begin

text \<open>
  \<open>src/blob_file_set.{h,cc}\<close> and \<open>src/edit_collector.h\<close>: the blob storages of all column families,
  the manifest that persists them, and recovery from it.

  The manifest is the list of the records its log writer holds. What the file system returns is an
  argument: \<open>ManifestIO\<close> for the writes of one call, \<open>ManifestEnv\<close> for the files recovery reads.
  Error messages omit the file number the source appends. Unordered maps are association lists in
  their iteration order.
\<close>

section \<open>Model of the edit collector\<close>

record CFEditCollector =
  cc_added_files :: "(u64 \<times> BlobFileMeta) list"
  cc_deleted_files :: "(u64 \<times> u64) list"

record EditCollector =
  ec_status :: status
  ec_sealed :: bool
  ec_has_next_file_number :: bool
  ec_next_file_number :: u64
  ec_column_families :: "(u32 \<times> CFEditCollector) list"

definition CFEditCollector_default :: CFEditCollector where
  "CFEditCollector_default = \<lparr> cc_added_files = [], cc_deleted_files = [] \<rparr>"

definition EditCollector_default :: EditCollector where
  "EditCollector_default =
     \<lparr> ec_status = OK, ec_sealed = False, ec_has_next_file_number = False, ec_next_file_number = 0,
       ec_column_families = [] \<rparr>"

definition has_key :: "'k \<Rightarrow> ('k \<times> 'v) list \<Rightarrow> bool" where
  "has_key k xs \<longleftrightarrow> map_of xs k \<noteq> None"

definition cc_AddFile :: "BlobFileMeta \<Rightarrow> CFEditCollector \<Rightarrow> status \<times> CFEditCollector" where
  "cc_AddFile file c =
     (if has_key (file_number file) (cc_added_files c)
      then (Corruption ''Blob file has been added twice'', c)
      else (OK, c\<lparr> cc_added_files := emplace (file_number file) file (cc_added_files c) \<rparr>))"

definition cc_DeleteFile :: "u64 \<Rightarrow> u64 \<Rightarrow> CFEditCollector \<Rightarrow> status \<times> CFEditCollector" where
  "cc_DeleteFile number obsolete_sequence c =
     (if has_key number (cc_deleted_files c)
      then (Corruption ''Blob file has been deleted twice'', c)
      else (OK, c\<lparr> cc_deleted_files := emplace number obsolete_sequence (cc_deleted_files c) \<rparr>))"

text \<open>A loop that stops at the first call that fails, keeping the state reached so far.\<close>

fun while_ok :: "('a \<Rightarrow> 's \<Rightarrow> status \<times> 's) \<Rightarrow> 'a list \<Rightarrow> 's \<Rightarrow> status \<times> 's" where
  "while_ok f [] s = (OK, s)"
| "while_ok f (x # xs) s =
     (case f x s of (st, s') \<Rightarrow> if status_ok st then while_ok f xs s' else (st, s'))"

definition cc_Seal :: "BlobStorage \<Rightarrow> CFEditCollector \<Rightarrow> status" where
  "cc_Seal storage c =
     (case fst (while_ok (\<lambda>(number, file) u.
                   case FindFile number storage of
                     None \<Rightarrow> (OK, u)
                   | Some blob \<Rightarrow>
                       (Corruption (if is_obsolete blob then ''Blob file has been deleted before''
                                    else ''Blob file has been added before''), u))
                 (cc_added_files c) ()) of
        OK \<Rightarrow>
          fst (while_ok (\<lambda>(number, obsolete_sequence) u.
                 if has_key number (cc_added_files c) then (OK, u)
                 else case FindFile number storage of
                        None \<Rightarrow> (Corruption ''Blob file doesn't exist before'', u)
                      | Some blob \<Rightarrow>
                          if is_obsolete blob then (Corruption ''Blob file has been deleted already'', u)
                          else (OK, u))
               (cc_deleted_files c) ())
      | s \<Rightarrow> s)"

definition cc_Apply :: "CFEditCollector \<Rightarrow> BlobStorage \<Rightarrow> status \<times> BlobStorage" where
  "cc_Apply c storage =
     (let storage = fold (\<lambda>(number, file) st.
                       if has_key number (cc_deleted_files c) then st else AddBlobFile file st)
                     (cc_added_files c) storage;
          (s, storage) = while_ok (\<lambda>(number, obsolete_sequence) st.
                       if has_key number (cc_added_files c) then (OK, st)
                       else case MarkFileObsolete number obsolete_sequence st of
                              (found, st) \<Rightarrow> (if found then OK else NotFound ''Invalid file number'', st))
                     (cc_deleted_files c) storage
      in if status_ok s then (OK, ComputeGCScore storage) else (s, storage))"

definition AddEdit :: "VersionEdit \<Rightarrow> EditCollector \<Rightarrow> status \<times> EditCollector" where
  "AddEdit edit c =
     (if ec_sealed c then (Incomplete ''Should be not called after Sealed() is called'', c)
      else
        let cfid = ve_column_family_id edit;
            cfs = emplace cfid CFEditCollector_default (ec_column_families c);
            cc = the (map_of cfs cfid);
            (s1, cc) = while_ok cc_AddFile (ve_added_files edit) cc;
            (s2, cc) = (if status_ok s1
                        then while_ok (\<lambda>(number, seq). cc_DeleteFile number seq) (ve_deleted_files edit) cc
                        else (s1, cc));
            c = c\<lparr> ec_status := (if ve_added_files edit = [] \<and> ve_deleted_files edit = [] then ec_status c else s2),
                   ec_column_families := upd cfid (\<lambda>_. cc) cfs \<rparr>
        in if \<not> status_ok s2 then (s2, c)
           else if ve_has_next_file_number edit then
             (if ve_next_file_number edit < ec_next_file_number c then
                let s = Corruption ''Edit has a smaller next file number'' in (s, c\<lparr> ec_status := s \<rparr>)
              else (OK, c\<lparr> ec_next_file_number := ve_next_file_number edit, ec_has_next_file_number := True \<rparr>))
           else (OK, c))"

section \<open>Model of the file set\<close>

record BlobFileSet =
  column_families :: "(u32 \<times> BlobStorage) list"
  obsolete_columns :: "u32 list"
  obsolete_manifests :: "u64 list"
  manifest :: "bytes list option"
  next_file_number :: u64
  manifest_file_number :: u64

text \<open>
  The manifest is the list of its records. The outcome of the operations on its file is a parameter;
  a record whose \<open>AddRecord\<close> fails is not in the manifest, one whose sync fails is.
\<close>

record ManifestIO =
  io_new_file :: status
  io_add_record :: status
  io_sync :: status
  io_set_current :: status

definition NewFileNumber :: "BlobFileSet \<Rightarrow> u64 \<times> BlobFileSet" where
  "NewFileNumber fs = (next_file_number fs, fs\<lparr> next_file_number := next_file_number fs + 1 \<rparr>)"

definition GetBlobStorage :: "u32 \<Rightarrow> BlobFileSet \<Rightarrow> BlobStorage option" where
  "GetBlobStorage cfid fs = map_of (column_families fs) cfid"

definition IsColumnFamilyObsolete :: "u32 \<Rightarrow> BlobFileSet \<Rightarrow> bool" where
  "IsColumnFamilyObsolete cfid fs \<longleftrightarrow> cfid \<in> set (obsolete_columns fs)"

definition ec_Seal :: "BlobFileSet \<Rightarrow> EditCollector \<Rightarrow> status \<times> EditCollector" where
  "ec_Seal fs c =
     (if \<not> status_ok (ec_status c) then (ec_status c, c)
      else
        let (s, u) = while_ok (\<lambda>(cfid, cc) u. case GetBlobStorage cfid fs of
                                    None \<Rightarrow> (OK, u)
                                  | Some storage \<Rightarrow> (cc_Seal storage cc, u)) (ec_column_families c) ()
        in if status_ok s then (OK, c\<lparr> ec_sealed := True \<rparr>) else (s, c\<lparr> ec_status := s \<rparr>))"

definition ec_Apply :: "EditCollector \<Rightarrow> BlobFileSet \<Rightarrow> status \<times> BlobFileSet" where
  "ec_Apply c fs =
     (if \<not> status_ok (ec_status c) then (ec_status c, fs)
      else if \<not> ec_sealed c then (Incomplete ''Should be not called until Sealed() is called'', fs)
      else
        while_ok (\<lambda>(cfid, cc) fs. case GetBlobStorage cfid fs of
                      None \<Rightarrow> (OK, fs)
                    | Some storage \<Rightarrow>
                        (case cc_Apply cc storage of
                           (s, storage) \<Rightarrow>
                             (s, fs\<lparr> column_families := upd cfid (\<lambda>_. storage) (column_families fs) \<rparr>)))
          (ec_column_families c) fs)"

definition GetNextFileNumber :: "EditCollector \<Rightarrow> status + u64" where
  "GetNextFileNumber c =
     (if \<not> status_ok (ec_status c) then Inl (ec_status c)
      else if ec_has_next_file_number c then Inr (ec_next_file_number c)
      else Inl (Corruption ''No next file number in manifest file''))"

definition AddColumnFamilies :: "(u32 \<times> TitanCFOptions) list \<Rightarrow> BlobFileSet \<Rightarrow> BlobFileSet" where
  "AddColumnFamilies cfs fs =
     fs\<lparr> column_families := fold (\<lambda>(cfid, opts). emplace cfid (BlobStorage_new opts cfid)) cfs (column_families fs) \<rparr>"

definition live_metas :: "BlobStorage \<Rightarrow> BlobFileMeta list" where
  "live_metas st = map snd (filter (\<lambda>(n, f). \<not> is_obsolete f) (files st))"

text \<open>The edits \<open>WriteSnapshot\<close> writes: the global one, then one per column family.\<close>

definition snapshot_edits :: "BlobFileSet \<Rightarrow> VersionEdit list" where
  "snapshot_edits fs =
     SetNextFileNumber (next_file_number fs) VersionEdit_default #
     map (\<lambda>(cfid, st). fold ve_AddBlobFile (live_metas st) (SetColumnFamilyID cfid VersionEdit_default))
       (column_families fs)"

definition WriteSnapshot :: "ManifestIO \<Rightarrow> BlobFileSet \<Rightarrow> status + bytes list" where
  "WriteSnapshot io fs =
     (if status_ok (io_add_record io) then Inr (map VersionEdit_EncodeTo (snapshot_edits fs))
      else Inl (io_add_record io))"

definition OpenManifest :: "ManifestIO \<Rightarrow> u64 \<Rightarrow> BlobFileSet \<Rightarrow> status \<times> BlobFileSet" where
  "OpenManifest io number fs =
     (if \<not> status_ok (io_new_file io) then (io_new_file io, fs)
      else
        let (s, records) = (case WriteSnapshot io fs of Inl s \<Rightarrow> (s, []) | Inr r \<Rightarrow> (OK, r));
            s = (if status_ok s then io_sync io else s);
            s = (if status_ok s then io_set_current io else s)
        in if status_ok s then (s, fs\<lparr> manifest := Some records, manifest_file_number := number \<rparr>)
           else (s, fs\<lparr> manifest := None, obsolete_manifests := obsolete_manifests fs @ [number] \<rparr>))"

definition LogAndApply :: "ManifestIO \<Rightarrow> VersionEdit \<Rightarrow> BlobFileSet \<Rightarrow> status \<times> BlobFileSet" where
  "LogAndApply io edit fs =
     (let edit = SetNextFileNumber (next_file_number fs) edit;
          encoded = VersionEdit_EncodeTo edit;
          (s, collector) = AddEdit edit EditCollector_default
      in if \<not> status_ok s then (s, fs)
         else
           let (s, collector) = ec_Seal fs collector
           in if \<not> status_ok s then (s, fs)
              else case manifest fs of
                     None \<Rightarrow> (Undefined ''null manifest_'', fs)
                   | Some records \<Rightarrow>
                       if \<not> status_ok (io_add_record io) then (io_add_record io, fs)
                       else
                         let fs = fs\<lparr> manifest := Some (records @ [encoded]) \<rparr>
                         in if \<not> status_ok (io_sync io) then (io_sync io, fs)
                            else ec_Apply collector fs)"

text \<open>
  Dropping column families: the loop stops at the first failure. \<open>obsolete_columns\<close> is a set kept
  as a list.
\<close>

definition drop_edit :: "u32 \<Rightarrow> u64 \<Rightarrow> BlobStorage \<Rightarrow> VersionEdit" where
  "drop_edit cfid obsolete_sequence st =
     fold (\<lambda>(n, f) e. if is_obsolete f then e else ve_DeleteBlobFile n obsolete_sequence e)
       (files st) (SetColumnFamilyID cfid VersionEdit_default)"

definition DropColumnFamilies ::
    "ManifestIO \<Rightarrow> u32 list \<Rightarrow> u64 \<Rightarrow> BlobFileSet \<Rightarrow> status \<times> BlobFileSet" where
  "DropColumnFamilies io cfids obsolete_sequence fs =
     while_ok (\<lambda>cfid fs.
        case GetBlobStorage cfid fs of
          None \<Rightarrow> (NotFound ''invalid column family'', fs)
        | Some st \<Rightarrow>
            (case LogAndApply io (drop_edit cfid obsolete_sequence st) fs of
               (s, fs) \<Rightarrow>
                 if status_ok s then (OK, fs\<lparr> obsolete_columns := List.insert cfid (obsolete_columns fs) \<rparr>)
                 else (s, fs))) cfids fs"

definition MaybeDestroyColumnFamily :: "u32 \<Rightarrow> BlobFileSet \<Rightarrow> status \<times> BlobFileSet" where
  "MaybeDestroyColumnFamily cfid fs =
     (let fs = fs\<lparr> obsolete_columns := removeAll cfid (obsolete_columns fs) \<rparr>
      in case GetBlobStorage cfid fs of
           None \<Rightarrow> (NotFound ''invalid column family'', fs)
         | Some st \<Rightarrow>
             let st = MarkDestroyed st
             in if MaybeRemove st
                then (OK, fs\<lparr> column_families := erase_key cfid (column_families fs) \<rparr>)
                else (OK, fs\<lparr> column_families := upd cfid (\<lambda>_. st) (column_families fs) \<rparr>))"

definition DeleteBlobFilesInRanges ::
    "ManifestIO \<Rightarrow> u32 \<Rightarrow> (bytes option \<times> bytes option) list \<Rightarrow> bool \<Rightarrow> u64 \<Rightarrow> BlobFileSet
       \<Rightarrow> status \<times> BlobFileSet" where
  "DeleteBlobFilesInRanges io cfid ranges include_end obsolete_sequence fs =
     (case GetBlobStorage cfid fs of
        None \<Rightarrow> (NotFound ''invalid column family'', fs)
      | Some st \<Rightarrow>
          (case GetBlobFilesInRanges ranges include_end st of
             Inl s \<Rightarrow> (s, fs)
           | Inr numbers \<Rightarrow>
               LogAndApply io
                 (fold (\<lambda>n. ve_DeleteBlobFile n obsolete_sequence) numbers
                    (SetColumnFamilyID cfid VersionEdit_default)) fs))"

text \<open>
  Collecting obsolete files over all column families. A dropped family keeps its files until its
  handle is destroyed; a destroyed family without obsolete files leaves the set.
\<close>

fun obsolete_families ::
    "u32 list \<Rightarrow> u64 \<Rightarrow> (u32 \<times> BlobStorage) list \<Rightarrow> u64 list \<times> (u32 \<times> BlobStorage) list" where
  "obsolete_families dropped oldest_sequence [] = ([], [])"
| "obsolete_families dropped oldest_sequence ((cfid, st) # cfs) =
     (if cfid \<in> set dropped then
        (case obsolete_families dropped oldest_sequence cfs of (ns, cfs') \<Rightarrow> (ns, (cfid, st) # cfs'))
      else
        (case GetObsoleteFiles oldest_sequence st of
           (ns1, st') \<Rightarrow>
             (case obsolete_families dropped oldest_sequence cfs of
                (ns2, cfs') \<Rightarrow> (ns1 @ ns2, if MaybeRemove st' then cfs' else (cfid, st') # cfs'))))"

text \<open>The result: the blob files, then the manifests, to delete.\<close>

definition fs_GetObsoleteFiles :: "u64 \<Rightarrow> BlobFileSet \<Rightarrow> (u64 list \<times> u64 list) \<times> BlobFileSet" where
  "fs_GetObsoleteFiles oldest_sequence fs =
     (case obsolete_families (obsolete_columns fs) oldest_sequence (column_families fs) of
        (ns, cfs) \<Rightarrow> ((ns, obsolete_manifests fs), fs\<lparr> column_families := cfs, obsolete_manifests := [] \<rparr>))"

text \<open>
  The live files and the edits that describe them, for a checkpoint: blob file numbers, the
  manifest, and the edits of a new manifest. Obsolete files are included.
\<close>

definition fs_GetAllFiles :: "BlobFileSet \<Rightarrow> (u64 list \<times> u64) \<times> VersionEdit list" where
  "fs_GetAllFiles fs =
     ((concat (map (\<lambda>(cfid, st). GetAllFiles st) (column_families fs)), manifest_file_number fs),
      SetNextFileNumber (next_file_number fs) VersionEdit_default #
      map (\<lambda>(cfid, st). fold ve_AddBlobFile (map snd (files st)) (SetColumnFamilyID cfid VersionEdit_default))
        (column_families fs))"

section \<open>Model of recovery\<close>

datatype FileType = kBlobFile | kDescriptorFile | kOtherFile

text \<open>
  What the log reader makes of a manifest file: the records \<open>ReadRecord\<close> returns, each with the
  corruption it has reported to the \<open>LogReporter\<close> on the way, or \<open>OK\<close>.
\<close>

record ManifestEnv =
  env_current :: "status + string"
  env_manifest :: "string \<Rightarrow> status + (status \<times> bytes) list"
  env_children :: "(u64 \<times> FileType) list"

definition kMaxSequenceNumber :: u64 where
  "kMaxSequenceNumber = 2 ^ 56 - 1"

definition recover_record :: "u64 \<times> u32 \<Rightarrow> bytes \<Rightarrow> EditCollector \<Rightarrow> status \<times> EditCollector" where
  "recover_record junk record c =
     (case VersionEdit_DecodeFrom junk record of
        Inl s \<Rightarrow> (s, c)
      | Inr edit \<Rightarrow> AddEdit edit c)"

text \<open>
  The loop over the records. A failure to decode or to add an edit returns from \<open>Recover\<close>; a reported
  corruption makes \<open>s.ok()\<close> false and ends the loop, and the status is then that of \<open>Seal\<close>.
\<close>

fun recover_loop :: "u64 \<times> u32 \<Rightarrow> (status \<times> bytes) list \<Rightarrow> EditCollector \<Rightarrow> status \<times> EditCollector" where
  "recover_loop junk [] c = (OK, c)"
| "recover_loop junk ((report, record) # rest) c =
     (if \<not> status_ok report then (OK, c)
      else case recover_record junk record c of (s, c) \<Rightarrow> if status_ok s then recover_loop junk rest c else (s, c))"

definition recover_edits :: "u64 \<times> u32 \<Rightarrow> (status \<times> bytes) list \<Rightarrow> BlobFileSet \<Rightarrow> status \<times> BlobFileSet" where
  "recover_edits junk records fs =
     (let (s, collector) = recover_loop junk records EditCollector_default
      in if \<not> status_ok s then (s, fs)
         else
           let (s, collector) = ec_Seal fs collector
           in if \<not> status_ok s then (s, fs)
              else
                let (s, fs) = ec_Apply collector fs
                in if \<not> status_ok s then (s, fs)
                   else case GetNextFileNumber collector of
                          Inl s \<Rightarrow> (s, fs)
                        | Inr n \<Rightarrow> (OK, fs\<lparr> next_file_number := n \<rparr>))"

text \<open>\<open>Recover\<close> also returns the files of the directory it deletes.\<close>

definition Recover ::
    "ManifestEnv \<Rightarrow> ManifestIO \<Rightarrow> u64 \<times> u32 \<Rightarrow> BlobFileSet \<Rightarrow> status \<times> BlobFileSet \<times> (u64 \<times> FileType) list" where
  "Recover env io junk fs =
     (case env_current env of
        Inl s \<Rightarrow> (s, fs, [])
      | Inr name \<Rightarrow>
          if name = [] \<or> last name \<noteq> CHR 0x0A then
            (Corruption ''CURRENT file does not end with newline'', fs, [])
          else
            (case env_manifest env (butlast name) of
               Inl s \<Rightarrow> (s, fs, [])
             | Inr records \<Rightarrow>
                 (case recover_edits junk records fs of
                    (s, fs) \<Rightarrow>
                      if \<not> status_ok s then (s, fs, [])
                      else
                        let (number, fs) = NewFileNumber fs;
                            (s, fs) = OpenManifest io number fs
                        in if \<not> status_ok s then (s, fs, [])
                           else
                             let fs = fs\<lparr> column_families :=
                                         map (\<lambda>(cfid, st). (cfid, snd (GetObsoleteFiles kMaxSequenceNumber st)))
                                           (column_families fs) \<rparr>;
                                 alive = number # concat (map (\<lambda>(cfid, st). map (file_number \<circ> snd) (files st))
                                                            (column_families fs))
                             in (OK, fs, filter (\<lambda>(n, ty). n \<notin> set alive \<and> ty \<in> {kBlobFile, kDescriptorFile})
                                           (env_children env)))))"

definition fs_Open ::
    "status \<Rightarrow> ManifestEnv \<Rightarrow> ManifestIO \<Rightarrow> u64 \<times> u32 \<Rightarrow> (u32 \<times> TitanCFOptions) list \<Rightarrow> BlobFileSet
       \<Rightarrow> status \<times> BlobFileSet \<times> (u64 \<times> FileType) list" where
  "fs_Open exists env io junk cfs fs =
     (let fs = AddColumnFamilies cfs fs
      in case exists of
           OK \<Rightarrow> Recover env io junk fs
         | NotFound m \<Rightarrow>
             let (number, fs) = NewFileNumber fs; (s, fs) = OpenManifest io number fs in (s, fs, [])
         | s \<Rightarrow> (s, fs, []))"

section \<open>The collector\<close>

lemma has_key_iff: "has_key k xs \<longleftrightarrow> k \<in> fst ` set xs"
  by (simp add: has_key_def map_of_eq_None_iff)

lemma while_ok_append:
  "while_ok f (xs @ ys) s =
   (case while_ok f xs s of (st, s') \<Rightarrow> if status_ok st then while_ok f ys s' else (st, s'))"
  by (induction xs arbitrary: s) (auto split: prod.splits)

lemma while_ok_status: "while_ok f xs s = (st, s') \<Longrightarrow> \<not> status_ok st \<Longrightarrow> st \<noteq> OK"
  by (auto simp: status_ok_def)

lemma status_ok_OK: "status_ok s \<longleftrightarrow> s = OK"
  by (simp add: status_ok_def)

lemma while_ok_add_iff:
  "while_ok cc_AddFile fs c = (OK, c') \<longleftrightarrow>
     distinct (map file_number fs) \<and> file_number ` set fs \<inter> fst ` set (cc_added_files c) = {} \<and>
     c' = c\<lparr> cc_added_files := cc_added_files c @ map (\<lambda>f. (file_number f, f)) fs \<rparr>"
proof (induction fs arbitrary: c)
  case (Cons f fs)
  show ?case
  proof (cases "file_number f \<in> fst ` set (cc_added_files c)")
    case True
    then show ?thesis by (auto simp: cc_AddFile_def has_key_iff)
  next
    case False
    then show ?thesis
      using Cons.IH [of "c\<lparr> cc_added_files := cc_added_files c @ [(file_number f, f)] \<rparr>"]
      by (auto simp: cc_AddFile_def has_key_iff emplace_def)
  qed
qed auto

lemma while_ok_delete_iff:
  "while_ok (\<lambda>(number, seq). cc_DeleteFile number seq) ds c = (OK, c') \<longleftrightarrow>
     distinct (map fst ds) \<and> fst ` set ds \<inter> fst ` set (cc_deleted_files c) = {} \<and>
     c' = c\<lparr> cc_deleted_files := cc_deleted_files c @ ds \<rparr>"
proof (induction ds arbitrary: c)
  case (Cons d ds)
  obtain n s where d: "d = (n, s)" by (cases d)
  show ?case
  proof (cases "n \<in> fst ` set (cc_deleted_files c)")
    case True
    then show ?thesis by (auto simp: cc_DeleteFile_def has_key_iff d)
  next
    case False
    then show ?thesis
      using Cons.IH [of "c\<lparr> cc_deleted_files := cc_deleted_files c @ [(n, s)] \<rparr>"]
      by (auto simp: cc_DeleteFile_def has_key_iff emplace_def d)
  qed
qed auto

text \<open>What a collector holds for a column family.\<close>

definition coll_added :: "EditCollector \<Rightarrow> u32 \<Rightarrow> (u64 \<times> BlobFileMeta) list" where
  "coll_added c cfid = (case map_of (ec_column_families c) cfid of None \<Rightarrow> [] | Some cc \<Rightarrow> cc_added_files cc)"

definition coll_deleted :: "EditCollector \<Rightarrow> u32 \<Rightarrow> (u64 \<times> u64) list" where
  "coll_deleted c cfid = (case map_of (ec_column_families c) cfid of None \<Rightarrow> [] | Some cc \<Rightarrow> cc_deleted_files cc)"

definition coll_open :: "EditCollector \<Rightarrow> bool" where
  "coll_open c \<longleftrightarrow> ec_status c = OK \<and> \<not> ec_sealed c \<and> distinct (map fst (ec_column_families c))"

lemma coll_open_default [simp]:
  "coll_open EditCollector_default" "coll_added EditCollector_default cf = []"
  "coll_deleted EditCollector_default cf = []"
  by (simp_all add: coll_open_def EditCollector_default_def coll_added_def coll_deleted_def)

lemma fst_emplace: "fst ` set (emplace k v xs) = insert k (fst ` set xs)"
  by (auto simp: emplace_def)

lemma distinct_emplace: "distinct (map fst xs) \<Longrightarrow> distinct (map fst (emplace k v xs))"
  by (auto simp: emplace_def)

definition edit_fits :: "VersionEdit \<Rightarrow> EditCollector \<Rightarrow> bool" where
  "edit_fits e c \<longleftrightarrow>
     distinct (map file_number (ve_added_files e)) \<and>
     file_number ` set (ve_added_files e) \<inter> fst ` set (coll_added c (ve_column_family_id e)) = {} \<and>
     distinct (map fst (ve_deleted_files e)) \<and>
     fst ` set (ve_deleted_files e) \<inter> fst ` set (coll_deleted c (ve_column_family_id e)) = {} \<and>
     (ve_has_next_file_number e \<longrightarrow> ec_next_file_number c \<le> ve_next_file_number e)"

text \<open>The collector after an edit that fits.\<close>

definition coll_after :: "VersionEdit \<Rightarrow> EditCollector \<Rightarrow> EditCollector" where
  "coll_after e c =
     (let cf = ve_column_family_id e in
      c\<lparr> ec_column_families :=
            upd cf (\<lambda>_. \<lparr> cc_added_files = coll_added c cf @ map (\<lambda>f. (file_number f, f)) (ve_added_files e),
                          cc_deleted_files = coll_deleted c cf @ ve_deleted_files e \<rparr>)
              (emplace cf CFEditCollector_default (ec_column_families c)),
         ec_next_file_number := (if ve_has_next_file_number e then ve_next_file_number e else ec_next_file_number c),
         ec_has_next_file_number := (ve_has_next_file_number e \<or> ec_has_next_file_number c) \<rparr>)"

lemma map_of_emplace_default:
  "\<exists>cc. map_of (emplace cf CFEditCollector_default (ec_column_families c)) cf = Some cc \<and>
        cc_added_files cc = coll_added c cf \<and> cc_deleted_files cc = coll_deleted c cf"
  by (cases "map_of (ec_column_families c) cf")
    (auto simp: map_of_emplace coll_added_def coll_deleted_def CFEditCollector_default_def)

lemma AddEdit_fits:
  assumes "coll_open c" "edit_fits e c"
  shows "AddEdit e c = (OK, coll_after e c)"
proof -
  obtain cc where cc: "map_of (emplace (ve_column_family_id e) CFEditCollector_default (ec_column_families c))
        (ve_column_family_id e) = Some cc"
    "cc_added_files cc = coll_added c (ve_column_family_id e)"
    "cc_deleted_files cc = coll_deleted c (ve_column_family_id e)"
    using map_of_emplace_default by blast
  have add: "while_ok cc_AddFile (ve_added_files e) cc =
      (OK, cc\<lparr> cc_added_files := cc_added_files cc @ map (\<lambda>f. (file_number f, f)) (ve_added_files e) \<rparr>)"
    using assms(2) cc(2) by (simp add: while_ok_add_iff edit_fits_def)
  have del: "while_ok (\<lambda>(number, seq). cc_DeleteFile number seq) (ve_deleted_files e)
        (cc\<lparr> cc_added_files := xs \<rparr>) =
      (OK, cc\<lparr> cc_added_files := xs, cc_deleted_files := cc_deleted_files cc @ ve_deleted_files e \<rparr>)" for xs
    using assms(2) cc(3) by (simp add: while_ok_delete_iff edit_fits_def)
  have nxt: "\<not> (ve_has_next_file_number e \<and> ve_next_file_number e < ec_next_file_number c)"
    using assms(2) by (auto simp: edit_fits_def)
  have cc': "cc\<lparr> cc_added_files := xs, cc_deleted_files := ys \<rparr> = \<lparr> cc_added_files = xs, cc_deleted_files = ys \<rparr>" for xs ys
    by (cases cc) simp
  have st: "\<not> ec_sealed c" "ec_status c = OK"
    using assms(1) by (simp_all add: coll_open_def)
  then have "c\<lparr> ec_status := OK \<rparr> = c" by (cases c) simp
  then show ?thesis
    using st nxt by (auto simp: AddEdit_def Let_def cc add del cc' coll_after_def)
qed

lemma AddEdit_fails:
  assumes "coll_open c" "\<not> edit_fits e c"
  shows "fst (AddEdit e c) \<noteq> OK"
proof -
  obtain cc where cc: "map_of (emplace (ve_column_family_id e) CFEditCollector_default (ec_column_families c))
        (ve_column_family_id e) = Some cc"
    "cc_added_files cc = coll_added c (ve_column_family_id e)"
    "cc_deleted_files cc = coll_deleted c (ve_column_family_id e)"
    using map_of_emplace_default by blast
  obtain s1 cc1 where r1: "while_ok cc_AddFile (ve_added_files e) cc = (s1, cc1)" by fastforce
  obtain s2 cc2 where r2: "while_ok (\<lambda>(number, seq). cc_DeleteFile number seq) (ve_deleted_files e) cc1 = (s2, cc2)"
    by fastforce
  have "edit_fits e c" if "s1 = OK" "s2 = OK" "\<not> (ve_has_next_file_number e \<and> ve_next_file_number e < ec_next_file_number c)"
    using that r1 r2 cc by (auto simp: while_ok_add_iff while_ok_delete_iff edit_fits_def not_less)
  then show ?thesis
    using assms by (auto simp: AddEdit_def coll_open_def Let_def cc r1 r2 status_ok_OK)
qed

lemma AddEdit_ok_iff:
  "coll_open c \<Longrightarrow> AddEdit e c = (OK, c') \<longleftrightarrow> edit_fits e c \<and> c' = coll_after e c"
  using AddEdit_fits AddEdit_fails by (metis fst_conv prod.inject)

lemma coll_after_view:
  "coll_added (coll_after e c) =
     (coll_added c)(ve_column_family_id e := coll_added c (ve_column_family_id e)
        @ map (\<lambda>f. (file_number f, f)) (ve_added_files e))"
  "coll_deleted (coll_after e c) =
     (coll_deleted c)(ve_column_family_id e := coll_deleted c (ve_column_family_id e) @ ve_deleted_files e)"
  "coll_open c \<Longrightarrow> coll_open (coll_after e c)"
  "ec_next_file_number (coll_after e c) =
     (if ve_has_next_file_number e then ve_next_file_number e else ec_next_file_number c)"
  "ec_has_next_file_number (coll_after e c) = (ve_has_next_file_number e \<or> ec_has_next_file_number c)"
  "fst ` set (ec_column_families (coll_after e c)) =
     insert (ve_column_family_id e) (fst ` set (ec_column_families c))"
proof -
  have "fst ` set (upd k g xs) = fst ` set xs" for k :: u32 and g and xs :: "(u32 \<times> CFEditCollector) list"
    using fst_upd [of k g xs] by (metis list.set_map)
  then show "fst ` set (ec_column_families (coll_after e c)) =
     insert (ve_column_family_id e) (fst ` set (ec_column_families c))"
    by (simp add: coll_after_def Let_def fst_emplace)
qed (auto simp: coll_after_def coll_added_def coll_deleted_def coll_open_def Let_def map_of_upd map_of_emplace
    CFEditCollector_default_def distinct_emplace fun_eq_iff split: option.splits)

section \<open>Sealing and applying to one storage\<close>

definition live_at :: "BlobStorage \<Rightarrow> u64 \<Rightarrow> BlobFileMeta option" where
  "live_at st n = (case FindFile n st of None \<Rightarrow> None | Some f \<Rightarrow> if is_obsolete f then None else Some f)"

lemma while_ok_check:
  "(\<And>x u. f x u = (g x, u)) \<Longrightarrow> fst (while_ok f xs u) = OK \<longleftrightarrow> (\<forall>x\<in>set xs. g x = OK)"
  by (induction xs) (auto simp: status_ok_OK)

lemma cc_Seal_ok_iff:
  "cc_Seal st c = OK \<longleftrightarrow>
     (\<forall>n\<in>fst ` set (cc_added_files c). FindFile n st = None) \<and>
     (\<forall>n\<in>fst ` set (cc_deleted_files c) - fst ` set (cc_added_files c). live_at st n \<noteq> None)"
proof -
  let ?fa = "\<lambda>(number, file :: BlobFileMeta) u. case FindFile number st of
                     None \<Rightarrow> (OK, u)
                   | Some blob \<Rightarrow>
                       (Corruption (if is_obsolete blob then ''Blob file has been deleted before''
                                    else ''Blob file has been added before''), u)"
  let ?fd = "\<lambda>(number, obsolete_sequence :: u64) u.
                 if has_key number (cc_added_files c) then (OK, u)
                 else case FindFile number st of
                        None \<Rightarrow> (Corruption ''Blob file doesn't exist before'', u)
                      | Some blob \<Rightarrow>
                          if is_obsolete blob then (Corruption ''Blob file has been deleted already'', u)
                          else (OK, u)"
  have a: "fst (while_ok ?fa (cc_added_files c) ()) = OK \<longleftrightarrow>
      (\<forall>n\<in>fst ` set (cc_added_files c). FindFile n st = None)"
    by (subst while_ok_check [where g = "\<lambda>x. case FindFile (fst x) st of None \<Rightarrow> OK
          | Some blob \<Rightarrow> Corruption (if is_obsolete blob then ''Blob file has been deleted before''
                                    else ''Blob file has been added before'')"])
      (auto split: option.splits)
  have d: "fst (while_ok ?fd (cc_deleted_files c) ()) = OK \<longleftrightarrow>
      (\<forall>n\<in>fst ` set (cc_deleted_files c) - fst ` set (cc_added_files c). live_at st n \<noteq> None)"
  proof -
    let ?g = "\<lambda>x. if has_key (fst x) (cc_added_files c) then OK
          else case FindFile (fst x) st of None \<Rightarrow> Corruption ''Blob file doesn't exist before''
             | Some blob \<Rightarrow> if is_obsolete blob then Corruption ''Blob file has been deleted already'' else OK"
    have g: "?g x = OK \<longleftrightarrow> (fst x \<notin> fst ` set (cc_added_files c) \<longrightarrow> live_at st (fst x) \<noteq> None)" for x :: "u64 \<times> u64"
      unfolding has_key_iff live_at_def by (simp split: option.splits)
    have "fst (while_ok ?fd (cc_deleted_files c) ()) = OK \<longleftrightarrow> (\<forall>x\<in>set (cc_deleted_files c). ?g x = OK)"
      by (rule while_ok_check) (auto split: option.splits)
    then show ?thesis unfolding g by blast
  qed
  show ?thesis
    unfolding cc_Seal_def a [symmetric] d [symmetric] by (auto split: status.split)
qed

definition add_all :: "(u64 \<Rightarrow> bool) \<Rightarrow> (u64 \<times> BlobFileMeta) list \<Rightarrow> BlobStorage \<Rightarrow> BlobStorage" where
  "add_all skip xs st = fold (\<lambda>(n, f) st. if skip n then st else AddBlobFile f st) xs st"

lemma FindFile_AddBlobFile:
  "FindFile n (AddBlobFile f st) =
   (if n = file_number f \<and> FindFile n st = None then Some f else FindFile n st)"
  by (auto simp: FindFile_def map_of_emplace)

lemma add_all_eq:
  assumes "comparator (storage_cmp st)" "BlobStorage_inv st" "distinct (map fst xs)"
    "\<forall>(n, f)\<in>set xs. file_number f = n \<and> \<not> is_obsolete f" "\<forall>n\<in>fst ` set xs. FindFile n st = None"
  shows "BlobStorage_inv (add_all skip xs st)" (is ?inv)
    "cf_options (add_all skip xs st) = cf_options st" (is ?opt)
    "stats_inv st \<Longrightarrow> stats_inv (add_all skip xs st)" (is "_ \<Longrightarrow> ?stats")
    "FindFile n (add_all skip xs st) =
       (if skip n then FindFile n st else case map_of xs n of Some f \<Rightarrow> Some f | None \<Rightarrow> FindFile n st)" (is ?find)
proof -
  have "?inv \<and> ?opt \<and> (stats_inv st \<longrightarrow> ?stats) \<and> (\<forall>n. FindFile n (add_all skip xs st) =
       (if skip n then FindFile n st else case map_of xs n of Some f \<Rightarrow> Some f | None \<Rightarrow> FindFile n st))"
    using assms
  proof (induction xs arbitrary: st)
    case (Cons x xs)
    obtain n f where x: "x = (n, f)" by (cases x)
    have n: "file_number f = n" "\<not> is_obsolete f" "FindFile n st = None" "n \<notin> fst ` set xs"
      using Cons.prems by (auto simp: x)
    show ?case
    proof (cases "skip n")
      case True
      then show ?thesis
        using Cons.IH [of st] Cons.prems n(4) by (auto simp: x add_all_def map_of_eq_None_iff)
    next
      case False
      have "BlobStorage_inv (AddBlobFile f st)"
        using AddBlobFile_inv [of st _ f] Cons.prems(1,2) n by (simp add: BlobStorage_inv_def)
      moreover have "stats_inv st \<longrightarrow> stats_inv (AddBlobFile f st)"
        using AddBlobFile_stats [of st f] n by simp
      moreover have "\<forall>m\<in>fst ` set xs. FindFile m (AddBlobFile f st) = None"
        using Cons.prems(5) n by (force simp: FindFile_AddBlobFile x)
      ultimately have IH: "BlobStorage_inv (add_all skip xs (AddBlobFile f st)) \<and>
         cf_options (add_all skip xs (AddBlobFile f st)) = cf_options st \<and>
         (stats_inv st \<longrightarrow> stats_inv (add_all skip xs (AddBlobFile f st))) \<and>
         (\<forall>m. FindFile m (add_all skip xs (AddBlobFile f st)) =
          (if skip m then FindFile m (AddBlobFile f st)
           else case map_of xs m of Some f \<Rightarrow> Some f | None \<Rightarrow> FindFile m (AddBlobFile f st)))"
        using Cons.IH [of "AddBlobFile f st"] Cons.prems by (auto simp: x)
      moreover have "add_all skip (x # xs) st = add_all skip xs (AddBlobFile f st)"
        using False by (simp add: x add_all_def)
      moreover have "map_of xs n = None" using n(4) by (simp add: map_of_eq_None_iff)
      ultimately show ?thesis
        using n False by (auto simp: x FindFile_AddBlobFile split: option.splits)
    qed
  qed (simp add: add_all_def)
  then show ?inv ?opt "stats_inv st \<Longrightarrow> ?stats" ?find by blast+
qed

definition mark_one :: "(u64 \<Rightarrow> bool) \<Rightarrow> u64 \<times> u64 \<Rightarrow> BlobStorage \<Rightarrow> status \<times> BlobStorage" where
  "mark_one skip = (\<lambda>(number, obsolete_sequence) st.
     if skip number then (OK, st)
     else case MarkFileObsolete number obsolete_sequence st of
            (found, st) \<Rightarrow> (if found then OK else NotFound ''Invalid file number'', st))"

lemma FindFile_MarkFileObsolete:
  assumes "BlobStorage_inv st" "FindFile n st = Some f"
  shows "FindFile m (snd (MarkFileObsolete n seq st)) =
    (if m = n then Some (FileStateTransit kDelete f) else FindFile m st)"
    "cf_options (snd (MarkFileObsolete n seq st)) = cf_options st"
  using assms storage_inv_find [of "obsolete_files st" st n f]
  by (auto simp: FindFile_def MarkFileObsolete_def map_of_upd BlobStorage_inv_def)

lemma mark_all_eq:
  assumes "BlobStorage_inv st" "distinct (map fst xs)" "\<forall>n\<in>fst ` set xs. \<not> skip n \<longrightarrow> live_at st n \<noteq> None"
  shows "\<exists>st'. while_ok (mark_one skip) xs st = (OK, st') \<and> BlobStorage_inv st' \<and>
    cf_options st' = cf_options st \<and> (stats_inv st \<longrightarrow> stats_inv st') \<and>
    (\<forall>n. FindFile n st' = (if n \<in> fst ` set xs \<and> \<not> skip n
           then map_option (FileStateTransit kDelete) (FindFile n st) else FindFile n st))"
  using assms
proof (induction xs arbitrary: st)
  case (Cons x xs)
  obtain n s where x: "x = (n, s)" by (cases x)
  show ?case
  proof (cases "skip n")
    case True
    then show ?thesis
      using Cons.IH [OF Cons.prems(1)] Cons.prems by (auto simp: x mark_one_def)
  next
    case False
    then have "live_at st n \<noteq> None" using Cons.prems(3) by (simp add: x)
    then obtain f where f: "FindFile n st = Some f" "\<not> is_obsolete f"
      by (auto simp: live_at_def split: option.splits if_splits)
    let ?st = "snd (MarkFileObsolete n s st)"
    have m: "fst (MarkFileObsolete n s st)" "BlobStorage_inv ?st" "stats_inv st \<longrightarrow> stats_inv ?st"
      using MarkFileObsolete_inv [OF Cons.prems(1) f] MarkFileObsolete_stats [OF Cons.prems(1) _ f] by auto
    have n: "n \<notin> fst ` set xs" using Cons.prems(2) by (simp add: x)
    have "\<forall>k\<in>fst ` set xs. \<not> skip k \<longrightarrow> live_at ?st k \<noteq> None"
      using Cons.prems(3) n by (force simp: x live_at_def FindFile_MarkFileObsolete(1) [OF Cons.prems(1) f(1)])
    then obtain st' where st': "while_ok (mark_one skip) xs ?st = (OK, st')" "BlobStorage_inv st'"
      "cf_options st' = cf_options ?st" "stats_inv ?st \<longrightarrow> stats_inv st'"
      "\<forall>k. FindFile k st' = (if k \<in> fst ` set xs \<and> \<not> skip k
           then map_option (FileStateTransit kDelete) (FindFile k ?st) else FindFile k ?st)"
      using Cons.IH [OF m(2)] Cons.prems(2) by (auto simp: x)
    have "while_ok (mark_one skip) (x # xs) st = (OK, st')"
      using st'(1) m(1) False by (simp add: x mark_one_def case_prod_beta)
    then show ?thesis
      using st' m n f False
      by (auto simp: x FindFile_MarkFileObsolete [OF Cons.prems(1) f(1)])
  qed
qed simp

definition cc_ok :: "CFEditCollector \<Rightarrow> bool" where
  "cc_ok c \<longleftrightarrow> distinct (map fst (cc_added_files c)) \<and> distinct (map fst (cc_deleted_files c)) \<and>
     (\<forall>(n, f)\<in>set (cc_added_files c). file_number f = n \<and> \<not> is_obsolete f)"

text \<open>The live files after a batch: the deleted ones go, the added ones come, the rest stay.\<close>

definition view_after ::
    "(u64 \<times> BlobFileMeta) list \<Rightarrow> (u64 \<times> u64) list \<Rightarrow> (u64 \<Rightarrow> BlobFileMeta option) \<Rightarrow> u64 \<Rightarrow> BlobFileMeta option" where
  "view_after added deleted v n =
     (if n \<in> fst ` set deleted then None
      else case map_of added n of Some f \<Rightarrow> Some f | None \<Rightarrow> v n)"

lemma cc_Apply_eq:
  assumes "comparator (storage_cmp st)" "BlobStorage_inv st" "cc_ok c" "cc_Seal st c = OK"
  shows "\<exists>st'. cc_Apply c st = (OK, st') \<and> BlobStorage_inv st' \<and> cf_options st' = cf_options st \<and>
    (stats_inv st \<longrightarrow> stats_inv st') \<and>
    live_at st' = view_after (cc_added_files c) (cc_deleted_files c) (live_at st)"
proof -
  let ?D = "\<lambda>n. n \<in> fst ` set (cc_deleted_files c)" and ?A = "\<lambda>n. n \<in> fst ` set (cc_added_files c)"
  have seal: "\<forall>n\<in>fst ` set (cc_added_files c). FindFile n st = None"
    "\<forall>n\<in>fst ` set (cc_deleted_files c) - fst ` set (cc_added_files c). live_at st n \<noteq> None"
    using assms(4) by (simp_all add: cc_Seal_ok_iff)
  have ok: "distinct (map fst (cc_added_files c))" "distinct (map fst (cc_deleted_files c))"
    "\<forall>(n, f)\<in>set (cc_added_files c). file_number f = n \<and> \<not> is_obsolete f"
    using assms(3) by (simp_all add: cc_ok_def)
  let ?st = "add_all ?D (cc_added_files c) st"
  note add = add_all_eq [OF assms(1,2) ok(1,3) seal(1), where skip = ?D]
  have "live_at ?st n = live_at st n" if "n \<in> fst ` set (cc_deleted_files c)" for n
    using that by (simp only: live_at_def add(4) if_True)
  then have "\<forall>n\<in>fst ` set (cc_deleted_files c). \<not> ?A n \<longrightarrow> live_at ?st n \<noteq> None"
    using seal(2) by (simp add: has_key_iff)
  then obtain st' where st': "while_ok (mark_one ?A) (cc_deleted_files c) ?st = (OK, st')" "BlobStorage_inv st'"
    "cf_options st' = cf_options ?st" "stats_inv ?st \<longrightarrow> stats_inv st'"
    "\<forall>n. FindFile n st' = (if n \<in> fst ` set (cc_deleted_files c) \<and> \<not> ?A n
           then map_option (FileStateTransit kDelete) (FindFile n ?st) else FindFile n ?st)"
    using mark_all_eq [OF add(1) ok(2), of ?A] by blast
  have "cc_Apply c st = (OK, ComputeGCScore st')"
    using st'(1) by (simp add: cc_Apply_def Let_def add_all_def mark_one_def has_key_iff)
  moreover have "live_at (ComputeGCScore st') = view_after (cc_added_files c) (cc_deleted_files c) (live_at st)"
  proof
    fix n
    have "live_at (ComputeGCScore st') n = live_at st' n" by (simp add: live_at_def FindFile_def)
    also have "\<dots> = view_after (cc_added_files c) (cc_deleted_files c) (live_at st) n"
    proof (cases "n \<in> fst ` set (cc_added_files c)")
      case True
      then obtain f where f: "map_of (cc_added_files c) n = Some f"
        by (cases "map_of (cc_added_files c) n") (auto simp: map_of_eq_None_iff)
      then have "\<not> is_obsolete f" using ok(3) map_of_SomeD by fastforce
      then show ?thesis
        using True f seal(1) by (auto simp: live_at_def st'(5) add(4) view_after_def)
    next
      case False
      then have "map_of (cc_added_files c) n = None" by (simp add: map_of_eq_None_iff)
      then show ?thesis
        using False by (auto simp: live_at_def st'(5) add(4) view_after_def split: option.splits)
    qed
    finally show "live_at (ComputeGCScore st') n = view_after (cc_added_files c) (cc_deleted_files c) (live_at st) n" .
  qed
  ultimately show ?thesis
    using st' add by auto
qed

section \<open>The file set\<close>

definition fs_inv :: "BlobFileSet \<Rightarrow> bool" where
  "fs_inv fs \<longleftrightarrow> distinct (map fst (column_families fs)) \<and>
     (\<forall>(cfid, st)\<in>set (column_families fs). comparator (storage_cmp st) \<and> BlobStorage_inv st \<and> stats_inv st)"

definition fs_live :: "BlobFileSet \<Rightarrow> u32 \<Rightarrow> u64 \<Rightarrow> BlobFileMeta option" where
  "fs_live fs cfid n = (case GetBlobStorage cfid fs of None \<Rightarrow> None | Some st \<Rightarrow> live_at st n)"

lemma fs_inv_storage:
  "\<lbrakk>fs_inv fs; GetBlobStorage cfid fs = Some st\<rbrakk> \<Longrightarrow>
   comparator (storage_cmp st) \<and> BlobStorage_inv st \<and> stats_inv st"
  by (auto simp: fs_inv_def GetBlobStorage_def dest!: map_of_SomeD)

definition seals :: "BlobFileSet \<Rightarrow> EditCollector \<Rightarrow> bool" where
  "seals fs c \<longleftrightarrow> (\<forall>(cfid, cc)\<in>set (ec_column_families c).
     \<forall>st. GetBlobStorage cfid fs = Some st \<longrightarrow> cc_Seal st cc = OK)"

lemma ec_Seal_eq:
  assumes "ec_status c = OK"
  shows "fst (ec_Seal fs c) = OK \<longleftrightarrow> seals fs c"
    and "seals fs c \<Longrightarrow> ec_Seal fs c = (OK, c\<lparr> ec_sealed := True \<rparr>)"
proof -
  let ?f = "\<lambda>(cfid, cc) u. case GetBlobStorage cfid fs of None \<Rightarrow> (OK, u) | Some storage \<Rightarrow> (cc_Seal storage cc, u)"
  have "fst (while_ok ?f (ec_column_families c) ()) = OK \<longleftrightarrow> seals fs c"
    by (subst while_ok_check [where g = "\<lambda>x. case GetBlobStorage (fst x) fs of None \<Rightarrow> OK | Some st \<Rightarrow> cc_Seal st (snd x)"])
      (auto simp: seals_def split: option.splits)
  then show "fst (ec_Seal fs c) = OK \<longleftrightarrow> seals fs c"
    and "seals fs c \<Longrightarrow> ec_Seal fs c = (OK, c\<lparr> ec_sealed := True \<rparr>)"
    using assms by (auto simp: ec_Seal_def Let_def status_ok_OK split: prod.splits)
qed

lemma GetBlobStorage_upd:
  "GetBlobStorage k (fs\<lparr> column_families := upd cfid (\<lambda>_. st) (column_families fs) \<rparr>) =
   (if k = cfid then map_option (\<lambda>_. st) (GetBlobStorage k fs) else GetBlobStorage k fs)"
  by (simp add: GetBlobStorage_def map_of_upd)

lemma fs_inv_upd:
  assumes "fs_inv fs" "comparator (storage_cmp st)" "BlobStorage_inv st" "stats_inv st"
  shows "fs_inv (fs\<lparr> column_families := upd cfid (\<lambda>_. st) (column_families fs) \<rparr>)"
proof -
  have "(k, v) \<in> set (upd cfid (\<lambda>_. st) xs) \<Longrightarrow> v = st \<or> (k, v) \<in> set xs" for k v xs
    by (auto simp: upd_def split: if_splits)
  then show ?thesis
    using assms by (fastforce simp: fs_inv_def)
qed

definition apply_cf :: "u32 \<times> CFEditCollector \<Rightarrow> BlobFileSet \<Rightarrow> status \<times> BlobFileSet" where
  "apply_cf = (\<lambda>(cfid, cc) fs. case GetBlobStorage cfid fs of
                      None \<Rightarrow> (OK, fs)
                    | Some storage \<Rightarrow>
                        (case cc_Apply cc storage of
                           (s, storage) \<Rightarrow>
                             (s, fs\<lparr> column_families := upd cfid (\<lambda>_. storage) (column_families fs) \<rparr>)))"

definition same_frame :: "BlobFileSet \<Rightarrow> BlobFileSet \<Rightarrow> bool" where
  "same_frame fs fs' \<longleftrightarrow> manifest fs' = manifest fs \<and> next_file_number fs' = next_file_number fs \<and>
     manifest_file_number fs' = manifest_file_number fs \<and> obsolete_columns fs' = obsolete_columns fs \<and>
     obsolete_manifests fs' = obsolete_manifests fs \<and>
     map fst (column_families fs') = map fst (column_families fs)"

lemma GetBlobStorage_None: "GetBlobStorage cfid fs = None \<longleftrightarrow> cfid \<notin> set (map fst (column_families fs))"
  by (simp add: GetBlobStorage_def map_of_eq_None_iff)

lemma apply_all_eq:
  assumes "fs_inv fs" "distinct (map fst ccs)" "\<forall>(cfid, cc)\<in>set ccs. cc_ok cc"
    "\<forall>(cfid, cc)\<in>set ccs. \<forall>st. GetBlobStorage cfid fs = Some st \<longrightarrow> cc_Seal st cc = OK"
  shows "\<exists>fs'. while_ok apply_cf ccs fs = (OK, fs') \<and> fs_inv fs' \<and> same_frame fs fs' \<and>
    (\<forall>cfid. GetBlobStorage cfid fs \<noteq> None \<longrightarrow>
       fs_live fs' cfid = (case map_of ccs cfid of None \<Rightarrow> fs_live fs cfid
         | Some cc \<Rightarrow> view_after (cc_added_files cc) (cc_deleted_files cc) (fs_live fs cfid)))"
  using assms
proof (induction ccs arbitrary: fs)
  case (Cons x ccs)
  obtain cf cc where x: "x = (cf, cc)" by (cases x)
  have new: "cf \<notin> fst ` set ccs" "map_of ccs cf = None"
    using Cons.prems(2) by (auto simp: x map_of_eq_None_iff)
  show ?case
  proof (cases "GetBlobStorage cf fs")
    case None
    then show ?thesis
      using Cons.IH [OF Cons.prems(1)] Cons.prems by (fastforce simp: x apply_cf_def)
  next
    case (Some st)
    have inv: "comparator (storage_cmp st)" "BlobStorage_inv st" "stats_inv st"
      using fs_inv_storage [OF Cons.prems(1) Some] by auto
    have "cc_ok cc" "cc_Seal st cc = OK" using Cons.prems(3,4) Some by (auto simp: x)
    then obtain st' where st': "cc_Apply cc st = (OK, st')" "BlobStorage_inv st'" "cf_options st' = cf_options st"
      "stats_inv st'" "live_at st' = view_after (cc_added_files cc) (cc_deleted_files cc) (live_at st)"
      using cc_Apply_eq [OF inv(1,2)] inv(3) by blast
    let ?fs = "fs\<lparr> column_families := upd cf (\<lambda>_. st') (column_families fs) \<rparr>"
    have inv': "fs_inv ?fs" using fs_inv_upd [OF Cons.prems(1), of st' cf] inv st' by simp
    have "\<forall>(k, c)\<in>set ccs. \<forall>s. GetBlobStorage k ?fs = Some s \<longrightarrow> cc_Seal s c = OK"
      using Cons.prems(4) new(1) by (force simp: GetBlobStorage_upd x split: if_splits)
    moreover have "distinct (map fst ccs)" "\<forall>(k, c)\<in>set ccs. cc_ok c"
      using Cons.prems(2,3) by (auto simp: x)
    ultimately obtain fs' where fs': "while_ok apply_cf ccs ?fs = (OK, fs')" "fs_inv fs'" "same_frame ?fs fs'"
      "\<forall>k. GetBlobStorage k ?fs \<noteq> None \<longrightarrow> fs_live fs' k = (case map_of ccs k of None \<Rightarrow> fs_live ?fs k
         | Some cc \<Rightarrow> view_after (cc_added_files cc) (cc_deleted_files cc) (fs_live ?fs k))"
      using Cons.IH [OF inv'] by blast
    have "while_ok apply_cf (x # ccs) fs = (OK, fs')"
      using fs'(1) Some st'(1) by (simp add: x apply_cf_def)
    moreover have "same_frame fs fs'" using fs'(3) by (simp add: same_frame_def)
    moreover have "fs_live fs' k = (case map_of (x # ccs) k of None \<Rightarrow> fs_live fs k
         | Some cc \<Rightarrow> view_after (cc_added_files cc) (cc_deleted_files cc) (fs_live fs k))"
      if "GetBlobStorage k fs \<noteq> None" for k
    proof -
      have "GetBlobStorage k ?fs \<noteq> None" using that by (auto simp: GetBlobStorage_upd)
      then have live: "fs_live fs' k = (case map_of ccs k of None \<Rightarrow> fs_live ?fs k
         | Some cc \<Rightarrow> view_after (cc_added_files cc) (cc_deleted_files cc) (fs_live ?fs k))"
        using fs'(4) by blast
      have k: "fs_live ?fs k = (if k = cf then live_at st' else fs_live fs k)" "fs_live fs cf = live_at st"
        using Some by (simp_all add: fs_live_def fun_eq_iff GetBlobStorage_upd)
      show ?thesis
        unfolding live k(1) using st'(5) new(2) k(2) by (cases "k = cf") (simp_all add: x)
    qed
    ultimately show ?thesis using fs'(2) by blast
  qed
qed (simp add: same_frame_def)

lemma ec_Apply_eq:
  assumes "ec_status c = OK" "ec_sealed c"
  shows "ec_Apply c fs = while_ok apply_cf (ec_column_families c) fs"
  using assms by (simp add: ec_Apply_def apply_cf_def)

definition edit_cc :: "VersionEdit \<Rightarrow> CFEditCollector" where
  "edit_cc e = \<lparr> cc_added_files = map (\<lambda>f. (file_number f, f)) (ve_added_files e),
                 cc_deleted_files = ve_deleted_files e \<rparr>"

lemma coll_after_default:
  "ec_column_families (coll_after e EditCollector_default) = [(ve_column_family_id e, edit_cc e)]"
  "ec_status (coll_after e EditCollector_default) = OK"
  by (simp_all add: coll_after_def Let_def emplace_def edit_cc_def EditCollector_default_def
      coll_added_def coll_deleted_def)

lemma SetNextFileNumber_fields [simp]:
  "ve_column_family_id (SetNextFileNumber v e) = ve_column_family_id e"
  "ve_added_files (SetNextFileNumber v e) = ve_added_files e"
  "ve_deleted_files (SetNextFileNumber v e) = ve_deleted_files e"
  "ve_has_next_file_number (SetNextFileNumber v e)" "ve_next_file_number (SetNextFileNumber v e) = v"
  "edit_cc (SetNextFileNumber v e) = edit_cc e"
  by (simp_all add: SetNextFileNumber_def edit_cc_def)

lemma cc_ok_edit:
  "\<lbrakk>edit_fits e c; \<forall>f\<in>set (ve_added_files e). \<not> is_obsolete f\<rbrakk> \<Longrightarrow> cc_ok (edit_cc e)"
  by (auto simp: cc_ok_def edit_cc_def edit_fits_def comp_def)

text \<open>
  The cases of \<open>LogAndApply\<close>: the edit is rejected or its record is not added, and nothing
  changes; the record is added but not synced, and the storages do not change; or the edit is
  applied, which cannot fail.
\<close>

definition logged_edit :: "BlobFileSet \<Rightarrow> VersionEdit \<Rightarrow> VersionEdit" where
  "logged_edit fs e = SetNextFileNumber (next_file_number fs) e"

lemma LogAndApply_cases:
  assumes "fs_inv fs" "\<forall>f\<in>set (ve_added_files e). \<not> is_obsolete f"
    and run: "LogAndApply io e fs = (s, fs')"
  obtains (unchanged) "s \<noteq> OK" "fs' = fs"
  | (unsynced) records where "s \<noteq> OK" "io_sync io \<noteq> OK" "manifest fs = Some records"
      "fs' = fs\<lparr> manifest := Some (records @ [VersionEdit_EncodeTo (logged_edit fs e)]) \<rparr>"
  | (applied) records where "s = OK" "manifest fs = Some records"
      "edit_fits (logged_edit fs e) EditCollector_default"
      "\<forall>st. GetBlobStorage (ve_column_family_id e) fs = Some st \<longrightarrow> cc_Seal st (edit_cc e) = OK"
      "fs_inv fs'" "manifest fs' = Some (records @ [VersionEdit_EncodeTo (logged_edit fs e)])"
      "next_file_number fs' = next_file_number fs"
      "map fst (column_families fs') = map fst (column_families fs)"
      "\<forall>cfid. GetBlobStorage cfid fs \<noteq> None \<longrightarrow> fs_live fs' cfid =
         (if cfid = ve_column_family_id e
          then view_after (cc_added_files (edit_cc e)) (cc_deleted_files (edit_cc e)) (fs_live fs cfid)
          else fs_live fs cfid)"
proof -
  let ?e = "logged_edit fs e" and ?c = "coll_after (logged_edit fs e) EditCollector_default"
  show thesis
  proof (cases "edit_fits ?e EditCollector_default")
    case False
    then have "fst (AddEdit ?e EditCollector_default) \<noteq> OK" by (simp add: AddEdit_fails)
    then show thesis
      using run unchanged
      by (auto simp: LogAndApply_def Let_def logged_edit_def status_ok_OK split: prod.splits if_splits)
  next
    case fits: True
    have add: "AddEdit ?e EditCollector_default = (OK, ?c)" using fits by (simp add: AddEdit_fits)
    show thesis
    proof (cases "seals fs ?c")
      case False
      then have "fst (ec_Seal fs ?c) \<noteq> OK" using ec_Seal_eq(1) coll_after_default(2) by blast
      then show thesis
        using run unchanged add
        by (auto simp: LogAndApply_def Let_def status_ok_OK simp flip: logged_edit_def split: prod.splits if_splits)
    next
      case seal: True
      let ?c' = "?c\<lparr> ec_sealed := True \<rparr>"
      have sealed: "ec_Seal fs ?c = (OK, ?c')" using ec_Seal_eq(2) [OF coll_after_default(2) seal] .
      have s: "\<forall>st. GetBlobStorage (ve_column_family_id e) fs = Some st \<longrightarrow> cc_Seal st (edit_cc e) = OK"
        using seal by (simp add: seals_def coll_after_default logged_edit_def)
      show thesis
      proof (cases "manifest fs")
        case None
        then show thesis
          using run unchanged add sealed by (auto simp: LogAndApply_def Let_def simp flip: logged_edit_def)
      next
        case (Some records)
        let ?fs = "fs\<lparr> manifest := Some (records @ [VersionEdit_EncodeTo ?e]) \<rparr>"
        have inv: "fs_inv ?fs" using assms(1) by (simp add: fs_inv_def)
        have gbs: "GetBlobStorage k ?fs = GetBlobStorage k fs" for k by (simp add: GetBlobStorage_def)
        have live: "fs_live ?fs = fs_live fs" by (simp add: fs_live_def gbs fun_eq_iff)
        have cfs: "ec_column_families ?c' = [(ve_column_family_id e, edit_cc e)]"
          by (simp add: coll_after_default logged_edit_def)
        have ok: "cc_ok (edit_cc e)" using cc_ok_edit [OF fits] assms(2) by (simp add: logged_edit_def)
        have "\<exists>fs''. while_ok apply_cf [(ve_column_family_id e, edit_cc e)] ?fs = (OK, fs'') \<and> fs_inv fs'' \<and>
          same_frame ?fs fs'' \<and>
          (\<forall>cfid. GetBlobStorage cfid ?fs \<noteq> None \<longrightarrow>
             fs_live fs'' cfid = (case map_of [(ve_column_family_id e, edit_cc e)] cfid of None \<Rightarrow> fs_live ?fs cfid
             | Some cc \<Rightarrow> view_after (cc_added_files cc) (cc_deleted_files cc) (fs_live ?fs cfid)))"
          using s ok by (intro apply_all_eq [OF inv]) (simp_all add: gbs)
        then obtain fs'' where fs'': "while_ok apply_cf [(ve_column_family_id e, edit_cc e)] ?fs = (OK, fs'')" "fs_inv fs''"
          "same_frame ?fs fs''"
          "\<forall>cfid. GetBlobStorage cfid fs \<noteq> None \<longrightarrow>
             fs_live fs'' cfid = (case map_of [(ve_column_family_id e, edit_cc e)] cfid of None \<Rightarrow> fs_live fs cfid
             | Some cc \<Rightarrow> view_after (cc_added_files cc) (cc_deleted_files cc) (fs_live fs cfid))"
          unfolding gbs live by blast
        have app: "ec_Apply ?c' ?fs = (OK, fs'')"
          using ec_Apply_eq [of ?c' ?fs] fs''(1) cfs by (simp add: coll_after_default)
        show thesis
        proof (cases "io_add_record io = OK \<and> io_sync io = OK")
          case True
          then have "s = OK" "fs' = fs''"
            using run add sealed Some app
            by (auto simp: LogAndApply_def Let_def simp flip: logged_edit_def)
          then show thesis
            using applied [OF _ Some fits s] fs'' by (auto simp: same_frame_def)
        next
          case False
          then show thesis
            using run add sealed Some unchanged unsynced
            by (auto simp: LogAndApply_def Let_def status_ok_OK simp flip: logged_edit_def split: if_splits)
        qed
      qed
    qed
  qed
qed

section \<open>Properties\<close>

text \<open>
  C9: logging an edit is all or nothing. If \<open>LogAndApply\<close> fails and the manifest was synced, the file
  set, its storages and the manifest are as before; if the sync itself failed, only the manifest has
  grown. If it succeeds, the edit is the last record of the manifest and the live files of its
  column family are those after deleting and adding the files of the edit.
\<close>

theorem log_and_apply_atomic:
  assumes "fs_inv fs" "\<forall>f\<in>set (ve_added_files e). \<not> is_obsolete f" "LogAndApply io e fs = (s, fs')"
  shows "if s = OK then
      fs_inv fs' \<and> manifest fs' = map_option (\<lambda>rs. rs @ [VersionEdit_EncodeTo (logged_edit fs e)]) (manifest fs) \<and>
      (\<forall>cfid. GetBlobStorage cfid fs \<noteq> None \<longrightarrow> fs_live fs' cfid =
         (if cfid = ve_column_family_id e
          then view_after (cc_added_files (edit_cc e)) (cc_deleted_files (edit_cc e)) (fs_live fs cfid)
          else fs_live fs cfid))
    else if io_sync io = OK then fs' = fs
    else fs'\<lparr> manifest := manifest fs \<rparr> = fs"
  by (rule LogAndApply_cases [OF assms]) (auto split: if_splits)

definition atomic_set :: BlobFileSet where
  "atomic_set = \<lparr> column_families = [(0, BlobStorage_new demo_options 0)], obsolete_columns = [], obsolete_manifests = [],
     manifest = Some [], next_file_number = 2, manifest_file_number = 1 \<rparr>"

definition atomic_edit :: VersionEdit where
  "atomic_edit = ve_DeleteBlobFile 9 0 (SetColumnFamilyID 0 VersionEdit_default)"

definition atomic_io :: ManifestIO where
  "atomic_io = \<lparr> io_new_file = OK, io_add_record = OK, io_sync = OK, io_set_current = OK \<rparr>"

theorem log_and_apply_atomic_witness:
  "fst (LogAndApply atomic_io atomic_edit atomic_set) \<noteq> OK \<and> snd (LogAndApply atomic_io atomic_edit atomic_set) = atomic_set"
proof -
  have "fst (LogAndApply atomic_io atomic_edit atomic_set) \<noteq> OK" by code_simp
  moreover have "fs_inv atomic_set"
    using BlobStorage_new_inv [of demo_options 0] bytewise.comparator_axioms
    by (simp add: fs_inv_def atomic_set_def) (simp add: BlobStorage_new_def)
  moreover have "ve_added_files atomic_edit = []" "io_sync atomic_io = OK"
    by (simp_all add: atomic_edit_def ve_DeleteBlobFile_def SetColumnFamilyID_def VersionEdit_default_def atomic_io_def)
  ultimately show ?thesis
    using log_and_apply_atomic [of atomic_set atomic_edit atomic_io "fst (LogAndApply atomic_io atomic_edit atomic_set)"
        "snd (LogAndApply atomic_io atomic_edit atomic_set)"] by simp
qed

end
