(* ===== verification/Manifest.thy ===== *)
theory Manifest
  imports Blob_File_Set
begin

text \<open>
  The manifest describes the file set: every operation of \<open>src/blob_file_set.cc\<close> that changes the
  storages of the column families keeps the records of the manifest in step with them, and replaying
  the records in \<open>Recover\<close> restores the live files of every column family.
\<close>


section \<open>The manifest describes the storages\<close>

lemma fold_ve_AddBlobFile:
  "fold ve_AddBlobFile ms e = e\<lparr> ve_added_files := ve_added_files e @ ms \<rparr>"
  by (induction ms arbitrary: e) (simp_all add: ve_AddBlobFile_def)

lemma map_of_filter_fst: "map_of (filter (\<lambda>x. P (fst x)) xs) n = (if P n then map_of xs n else None)"
  by (induction xs) auto

lemma live_at_GetObsoleteFiles:
  assumes "comparator (storage_cmp st)" "BlobStorage_inv st"
  shows "live_at (snd (GetObsoleteFiles oldest st)) = live_at st"
proof
  fix n
  note g = GetObsoleteFiles_eq [OF assms, of oldest]
  have dist: "distinct (map fst (files st))"
    and obs: "fst ` set (obsolete_files st) = fst ` set (filter (\<lambda>(n, f). is_obsolete f) (files st))"
    using assms(2) by (simp_all add: BlobStorage_inv_def storage_inv_def)
  have find: "FindFile n (snd (GetObsoleteFiles oldest st)) =
      (if n \<in> set (fst (GetObsoleteFiles oldest st)) then None else FindFile n st)"
    unfolding FindFile_def g(2) by (subst map_of_filter_fst) simp
  have "live_at st n = None" if "n \<in> set (fst (GetObsoleteFiles oldest st))"
  proof -
    have "n \<in> fst ` set (filter (\<lambda>(n, f). is_obsolete f) (files st))"
      using that unfolding g(1) obs [symmetric] by auto
    then obtain f where "(n, f) \<in> set (files st)" "is_obsolete f" by auto
    then show ?thesis using dist by (simp add: live_at_def FindFile_def)
  qed
  then show "live_at (snd (GetObsoleteFiles oldest st)) n = live_at st n"
    by (auto simp: live_at_def find)
qed

text \<open>What the edits of a manifest say about a column family, and the numbers they ever added.\<close>

definition hist_numbers :: "VersionEdit list \<Rightarrow> u32 \<Rightarrow> u64 set" where
  "hist_numbers h cfid = (\<Union>e \<in> {e \<in> set h. ve_column_family_id e = cfid}. file_number ` set (ve_added_files e))"

definition replay :: "VersionEdit list \<Rightarrow> status \<times> EditCollector" where
  "replay h = while_ok AddEdit (map VersionEdit_persistent h) EditCollector_default"

definition coll_wf :: "EditCollector \<Rightarrow> bool" where
  "coll_wf c \<longleftrightarrow> coll_open c \<and> (\<forall>cfid.
     distinct (map fst (coll_added c cfid)) \<and> distinct (map fst (coll_deleted c cfid)) \<and>
     fst ` set (coll_deleted c cfid) \<subseteq> fst ` set (coll_added c cfid) \<and>
     (\<forall>(n, f)\<in>set (coll_added c cfid). file_number f = n \<and> persistent f = f))"

lemma VersionEdit_persistent_fields [simp]:
  "ve_column_family_id (VersionEdit_persistent e) = ve_column_family_id e"
  "ve_added_files (VersionEdit_persistent e) = map persistent (ve_added_files e)"
  "map fst (ve_deleted_files (VersionEdit_persistent e)) = map fst (ve_deleted_files e)"
  "ve_has_next_file_number (VersionEdit_persistent e) = ve_has_next_file_number e"
  "ve_next_file_number (VersionEdit_persistent e) = ve_next_file_number e"
  by (simp_all add: VersionEdit_persistent_def comp_def)

lemma deleted_persistent_set [simp]:
  "fst ` set (ve_deleted_files (VersionEdit_persistent e)) = fst ` set (ve_deleted_files e)"
  using arg_cong [OF VersionEdit_persistent_fields(3) [of e], of set] by (simp only: list.set_map)

lemma replay_snoc:
  assumes "replay h = (OK, c)" "coll_open c" "edit_fits (VersionEdit_persistent e) c"
  shows "replay (h @ [e]) = (OK, coll_after (VersionEdit_persistent e) c)"
  using assms by (simp add: replay_def while_ok_append AddEdit_fits)

lemma map_of_numbers:
  "map_of (map (\<lambda>f. (file_number f, f)) fs) n = Some f \<Longrightarrow> f \<in> set fs \<and> file_number f = n"
  by (auto dest!: map_of_SomeD)

lemma map_of_numbers_persistent:
  "map_of (map (\<lambda>f. (file_number f, f)) (map persistent fs)) n =
   map_option persistent (map_of (map (\<lambda>f. (file_number f, f)) fs) n)"
  by (induction fs) auto

text \<open>
  \<open>manifest_inv h fs\<close>: the manifest holds the edits \<open>h\<close>, and reading them back yields for every
  column family exactly the live files of its storage.
\<close>

definition describes :: "VersionEdit list \<Rightarrow> BlobFileSet \<Rightarrow> EditCollector \<Rightarrow> bool" where
  "describes h fs c \<longleftrightarrow>
     replay h = (OK, c) \<and> coll_wf c \<and> ec_has_next_file_number c \<and>
     ec_next_file_number c \<le> next_file_number fs \<and>
     (\<forall>cfid. fst ` set (coll_added c cfid) = hist_numbers h cfid) \<and>
     (\<forall>cfid. \<forall>n\<in>fst ` set (coll_added c cfid). n < ec_next_file_number c) \<and>
     (\<forall>cfid n. GetBlobStorage cfid fs \<noteq> None \<longrightarrow>
        map_option persistent (fs_live fs cfid n) = view_after (coll_added c cfid) (coll_deleted c cfid) (\<lambda>_. None) n)"

definition manifest_inv :: "VersionEdit list \<Rightarrow> BlobFileSet \<Rightarrow> bool" where
  "manifest_inv h fs \<longleftrightarrow>
     fs_inv fs \<and> manifest fs = Some (map VersionEdit_EncodeTo h) \<and> list_all VersionEdit_wf h \<and>
     (\<exists>c. describes h fs c)"

lemma describesD:
  assumes "describes h fs c"
  shows "replay h = (OK, c)" "coll_wf c" "ec_next_file_number c \<le> next_file_number fs"
    "fst ` set (coll_added c k) = hist_numbers h k"
    "n \<in> fst ` set (coll_added c k) \<Longrightarrow> n < ec_next_file_number c"
    "GetBlobStorage k fs \<noteq> None \<Longrightarrow>
       map_option persistent (fs_live fs k n) = view_after (coll_added c k) (coll_deleted c k) (\<lambda>_. None) n"
    "ec_has_next_file_number c"
  using assms unfolding describes_def by blast+

lemma coll_wfD:
  assumes "coll_wf c"
  shows "coll_open c" "distinct (map fst (coll_added c k))" "distinct (map fst (coll_deleted c k))"
    "fst ` set (coll_deleted c k) \<subseteq> fst ` set (coll_added c k)"
    "(n, f) \<in> set (coll_added c k) \<Longrightarrow> file_number f = n \<and> persistent f = f"
  using assms unfolding coll_wf_def by blast+

lemma manifest_inv_log:
  assumes inv: "manifest_inv h fs"
    and run: "LogAndApply io e fs = (OK, fs')"
    and cf: "GetBlobStorage (ve_column_family_id e) fs \<noteq> None"
    and live: "\<forall>f\<in>set (ve_added_files e). \<not> is_obsolete f \<and> keys_short f \<and> file_number f < next_file_number fs"
    and fresh: "\<forall>f\<in>set (ve_added_files e). file_number f \<notin> hist_numbers h (ve_column_family_id e)"
  shows "manifest_inv (h @ [logged_edit fs e]) fs'"
proof -
  let ?e = "logged_edit fs e" and ?cf = "ve_column_family_id e"
  have fsinv: "fs_inv fs" using inv by (simp add: manifest_inv_def)
  have nobs: "\<forall>f\<in>set (ve_added_files e). \<not> is_obsolete f" using live by blast
  obtain c where c0: "describes h fs c" using inv unfolding manifest_inv_def by blast
  note c = describesD [OF c0]
  from LogAndApply_cases [OF fsinv nobs run] obtain records where ap: "manifest fs = Some records"
      "edit_fits ?e EditCollector_default"
      "\<forall>st. GetBlobStorage ?cf fs = Some st \<longrightarrow> cc_Seal st (edit_cc e) = OK"
      "fs_inv fs'" "manifest fs' = Some (records @ [VersionEdit_EncodeTo ?e])"
      "next_file_number fs' = next_file_number fs"
      "map fst (column_families fs') = map fst (column_families fs)"
      "\<forall>k. GetBlobStorage k fs \<noteq> None \<longrightarrow> fs_live fs' k =
         (if k = ?cf then view_after (cc_added_files (edit_cc e)) (cc_deleted_files (edit_cc e)) (fs_live fs k)
          else fs_live fs k)"
    by (metis (no_types, lifting))
  obtain st where st: "GetBlobStorage ?cf fs = Some st" using cf by blast
  have seal: "\<forall>n\<in>fst ` set (ve_deleted_files e) - file_number ` set (ve_added_files e). fs_live fs ?cf n \<noteq> None"
    using ap(3) st by (auto simp: cc_Seal_ok_iff edit_cc_def image_image fs_live_def)
  have open_c: "coll_open c" using coll_wfD(1) [OF c(2)] .
  note wf = coll_wfD(2-5) [OF c(2)]
  have notdel: "n \<notin> fst ` set (coll_deleted c ?cf) \<and> (n \<notin> file_number ` set (ve_added_files e) \<longrightarrow> n \<in> fst ` set (coll_added c ?cf))"
    if n: "n \<in> fst ` set (ve_deleted_files e)" for n
  proof (cases "n \<in> file_number ` set (ve_added_files e)")
    case True
    then have "n \<notin> fst ` set (coll_added c ?cf)" using fresh c(4) by auto
    then show ?thesis using wf(3) True by blast
  next
    case False
    then have "view_after (coll_added c ?cf) (coll_deleted c ?cf) (\<lambda>_. None) n \<noteq> None"
      using seal n c(6) [OF cf, of n] by (metis DiffI option.map_disc_iff)
    then show ?thesis
      by (auto simp: view_after_def split: if_splits option.splits dest!: map_of_SomeD intro: rev_image_eqI)
  qed
  have fits: "edit_fits (VersionEdit_persistent ?e) c"
    using ap(2) fresh notdel c(3) open_c
    by (fastforce simp: edit_fits_def logged_edit_def comp_def image_image c(4))
  let ?c = "coll_after (VersionEdit_persistent ?e) c"
  have rep: "replay (h @ [?e]) = (OK, ?c)" by (rule replay_snoc [OF c(1) open_c fits])
  have added: "coll_added ?c k = (if k = ?cf then coll_added c k @ map (\<lambda>f. (file_number f, f)) (map persistent (ve_added_files e))
      else coll_added c k)" for k by (simp add: coll_after_view logged_edit_def)
  have deleted: "coll_deleted ?c k = (if k = ?cf then coll_deleted c k @ ve_deleted_files (VersionEdit_persistent e)
      else coll_deleted c k)" for k
    by (simp add: coll_after_view logged_edit_def VersionEdit_persistent_def)
  have pf: "file_number ` set (map persistent xs) = file_number ` set xs" for xs
    by (simp add: image_image)
  have f: "distinct (map file_number (ve_added_files e))"
    "file_number ` set (ve_added_files e) \<inter> fst ` set (coll_added c ?cf) = {}"
    "distinct (map fst (ve_deleted_files e))" "fst ` set (ve_deleted_files e) \<inter> fst ` set (coll_deleted c ?cf) = {}"
    using fits by (simp_all add: edit_fits_def logged_edit_def comp_def image_image)
  have wf': "coll_wf ?c"
    unfolding coll_wf_def
  proof (intro conjI allI)
    show "coll_open ?c" using coll_after_view(3) open_c by blast
    fix k
    show "distinct (map fst (coll_added ?c k))"
      unfolding added using wf(1) [of k] f(1,2) by (auto simp: comp_def image_image)
    show "distinct (map fst (coll_deleted ?c k))"
      unfolding deleted using wf(2) [of k] f(3,4) by auto
    show "fst ` set (coll_deleted ?c k) \<subseteq> fst ` set (coll_added ?c k)"
    proof -
      have "fst ` set (ve_deleted_files e) \<subseteq> fst ` set (coll_added c ?cf) \<union> file_number ` set (ve_added_files e)"
        using notdel by blast
      then show ?thesis
        unfolding added deleted using wf(3) [of k]
        by (cases "k = ?cf") (simp_all add: image_Un image_image le_supI1)
    qed
    show "\<forall>(n, f)\<in>set (coll_added ?c k). file_number f = n \<and> persistent f = f"
      unfolding added using wf(4) by auto
  qed
  have hist: "fst ` set (coll_added ?c k) = hist_numbers (h @ [?e]) k" for k
  proof -
    have "ve_column_family_id ?e = ?cf" "ve_added_files ?e = ve_added_files e"
      by (simp_all add: logged_edit_def)
    then show ?thesis
      unfolding added by (auto simp: c(4) hist_numbers_def image_Un image_image)
  qed
  have nextc: "ec_next_file_number ?c = next_file_number fs" "ec_has_next_file_number ?c"
    by (simp_all add: coll_after_view logged_edit_def)
  have bound: "n < ec_next_file_number ?c" if "n \<in> fst ` set (coll_added ?c k)" for n k
  proof -
    have "n < next_file_number fs" if "n \<in> fst ` set (coll_added c k)"
      using c(3) c(5) [OF that] by (rule less_le_trans [rotated])
    then show ?thesis
      using \<open>n \<in> fst ` set (coll_added ?c k)\<close> live
      unfolding nextc added by (auto simp: image_Un image_image split: if_splits)
  qed
  have views: "map_option persistent (fs_live fs' k n) = view_after (coll_added ?c k) (coll_deleted ?c k) (\<lambda>_. None) n"
    if "GetBlobStorage k fs' \<noteq> None" for k n
  proof -
    have k: "GetBlobStorage k fs \<noteq> None"
      using that ap(7) by (simp add: GetBlobStorage_None del: not_None_eq)
    show ?thesis
    proof (cases "k = ?cf")
      case False
      then show ?thesis unfolding added deleted using ap(8) k c(6) [OF k, of n] by simp
    next
      case True
      let ?new = "map (\<lambda>f. (file_number f, f)) (ve_added_files e)"
      have lhs: "fs_live fs' ?cf n = view_after ?new (ve_deleted_files e) (fs_live fs ?cf) n"
        using ap(8) cf by (simp add: edit_cc_def)
      have old: "map_option persistent (fs_live fs ?cf n) = view_after (coll_added c ?cf) (coll_deleted c ?cf) (\<lambda>_. None) n"
        using c(6) [OF cf] .
      have app: "map_of (coll_added c ?cf @ map (\<lambda>f. (file_number f, f)) (map persistent (ve_added_files e))) n =
          (case map_of (coll_added c ?cf) n of Some f \<Rightarrow> Some f | None \<Rightarrow> map_option persistent (map_of ?new n))"
        by (simp only: map_of_append map_add_def map_of_numbers_persistent)
      show ?thesis
      proof (cases "n \<in> file_number ` set (ve_added_files e)")
        case n: True
        then have "n \<notin> fst ` set (coll_added c ?cf)" using f(2) by blast
        moreover from this have "n \<notin> fst ` set (coll_deleted c ?cf)" using wf(3) [of ?cf] by blast
        ultimately have none: "map_of (coll_added c ?cf) n = None" "n \<notin> fst ` set (coll_deleted c ?cf)"
          by (simp_all only: map_of_eq_None_iff not_False_eq_True)
        have "map_of ?new n \<noteq> None" using n by (simp add: map_of_eq_None_iff image_image)
        then show ?thesis
          unfolding lhs added deleted True simp_thms if_True view_after_def app none
          using none(2) by (auto simp: image_Un)
      next
        case False
        then have "map_of ?new n = None" by (simp add: map_of_eq_None_iff image_image)
        then show ?thesis
          unfolding lhs added deleted True simp_thms if_True view_after_def app
          using old [unfolded view_after_def]
          by (cases "n \<in> fst ` set (coll_deleted c ?cf)"; cases "map_of (coll_added c ?cf) n")
            (simp_all add: image_Un)
      qed
    qed
  qed
  have wfe: "VersionEdit_wf ?e"
    using live by (simp add: VersionEdit_wf_def logged_edit_def list_all_iff)
  have "describes (h @ [?e]) fs' ?c"
    unfolding describes_def using rep wf' hist nextc bound views ap(6) by simp
  then show ?thesis
    using ap(1,4,5) inv wfe by (auto simp: manifest_inv_def)
qed

text \<open>Opening a manifest writes a snapshot that describes the storages.\<close>

definition snapshot_cf :: "u32 \<times> BlobStorage \<Rightarrow> VersionEdit" where
  "snapshot_cf = (\<lambda>(cfid, st). fold ve_AddBlobFile (live_metas st) (SetColumnFamilyID cfid VersionEdit_default))"

lemma snapshot_cf_fields [simp]:
  "ve_column_family_id (snapshot_cf (cfid, st)) = cfid" "ve_added_files (snapshot_cf (cfid, st)) = live_metas st"
  "ve_deleted_files (snapshot_cf x) = []" "\<not> ve_has_next_file_number (snapshot_cf x)"
  "ve_next_file_number (snapshot_cf x) = 0"
  by (cases x; simp add: snapshot_cf_def fold_ve_AddBlobFile SetColumnFamilyID_def VersionEdit_default_def)+

lemma number_pairs:
  "list_all (\<lambda>(n, f). file_number f = n) xs \<Longrightarrow> map (\<lambda>f. (file_number f, f)) (map snd xs) = xs"
  by (induction xs) auto

lemma map_of_filter_snd:
  "distinct (map fst xs) \<Longrightarrow> map_of (filter (\<lambda>(n, f). P f) xs) n =
   (case map_of xs n of None \<Rightarrow> None | Some f \<Rightarrow> if P f then Some f else None)"
proof (induction xs)
  case (Cons x xs)
  obtain m f where x: "x = (m, f)" by (cases x)
  have "map_of xs m = None" using Cons.prems by (simp add: x map_of_eq_None_iff)
  then show ?case using Cons by (cases "n = m") (simp_all add: x)
qed simp

lemma live_metas_numbers:
  assumes "BlobStorage_inv st"
  shows "distinct (map file_number (live_metas st))"
    "map_of (map (\<lambda>f. (file_number f, f)) (live_metas st)) n = live_at st n"
proof -
  let ?xs = "filter (\<lambda>(n, f). \<not> is_obsolete f) (files st)"
  have inv: "distinct (map fst (files st))" "list_all (\<lambda>(n, f). file_number f = n) (files st)"
    using assms by (simp_all add: BlobStorage_inv_def storage_inv_def)
  then have "list_all (\<lambda>(n, f). file_number f = n) ?xs" by (simp add: list_all_iff)
  then have pairs: "map (\<lambda>f. (file_number f, f)) (live_metas st) = ?xs"
    unfolding live_metas_def by (rule number_pairs)
  have "map file_number (live_metas st) = map fst (map (\<lambda>f. (file_number f, f)) (live_metas st))"
    by (simp add: comp_def)
  then show "distinct (map file_number (live_metas st))"
    unfolding pairs using inv(1) by (simp add: distinct_map_filter)
  show "map_of (map (\<lambda>f. (file_number f, f)) (live_metas st)) n = live_at st n"
    unfolding pairs by (auto simp: map_of_filter_snd [OF inv(1)] live_at_def FindFile_def split: option.splits)
qed

lemma replay_snapshot:
  assumes "coll_open c" "distinct (map fst cfs)"
    "\<forall>(k, st)\<in>set cfs. BlobStorage_inv st \<and> coll_added c k = [] \<and> coll_deleted c k = []"
  shows "\<exists>c'. while_ok AddEdit (map VersionEdit_persistent (map snapshot_cf cfs)) c = (OK, c') \<and> coll_open c' \<and>
    ec_next_file_number c' = ec_next_file_number c \<and> ec_has_next_file_number c' = ec_has_next_file_number c \<and>
    (\<forall>k. coll_deleted c' k = coll_deleted c k) \<and>
    (\<forall>k. coll_added c' k = (case map_of cfs k of None \<Rightarrow> coll_added c k
        | Some st \<Rightarrow> map (\<lambda>f. (file_number f, f)) (map persistent (live_metas st))))"
  using assms
proof (induction cfs arbitrary: c)
  case (Cons x cfs)
  obtain k st where x: "x = (k, st)" by (cases x)
  let ?e = "VersionEdit_persistent (snapshot_cf x)" and ?c = "coll_after (VersionEdit_persistent (snapshot_cf x)) c"
  have k: "BlobStorage_inv st" "coll_added c k = []" "coll_deleted c k = []" "map_of cfs k = None"
    using Cons.prems by (auto simp: x map_of_eq_None_iff)
  have del: "ve_deleted_files (VersionEdit_persistent (snapshot_cf y)) = []" for y
    by (simp add: VersionEdit_persistent_def)
  have fits: "edit_fits ?e c"
    using live_metas_numbers(1) [OF k(1)] k by (simp add: edit_fits_def x del comp_def)
  have add: "coll_added ?c j = (if j = k then map (\<lambda>f. (file_number f, f)) (map persistent (live_metas st)) else coll_added c j)"
    "coll_deleted ?c j = coll_deleted c j" for j
    using k(2,3) by (auto simp: coll_after_view x del)
  have "\<forall>(j, st)\<in>set cfs. BlobStorage_inv st \<and> coll_added ?c j = [] \<and> coll_deleted ?c j = []"
  proof (intro ballI, clarify)
    fix j st assume j: "(j, st) \<in> set cfs"
    then have "j \<noteq> k" using Cons.prems(2) by (force simp: x)
    then show "BlobStorage_inv st \<and> coll_added ?c j = [] \<and> coll_deleted ?c j = []"
      using Cons.prems(3) j unfolding add by auto
  qed
  then obtain c' where "while_ok AddEdit (map VersionEdit_persistent (map snapshot_cf cfs)) ?c = (OK, c')" "coll_open c'"
    "ec_next_file_number c' = ec_next_file_number ?c" "ec_has_next_file_number c' = ec_has_next_file_number ?c"
    "\<forall>k. coll_deleted c' k = coll_deleted ?c k"
    "\<forall>k. coll_added c' k = (case map_of cfs k of None \<Rightarrow> coll_added ?c k
        | Some st \<Rightarrow> map (\<lambda>f. (file_number f, f)) (map persistent (live_metas st)))"
    using Cons.IH [of ?c] Cons.prems(1,2) coll_after_view(3) by auto
  then show ?case
    using AddEdit_fits [OF Cons.prems(1) fits] k(4) unfolding add coll_after_view(4,5)
    by (auto simp: x split: option.splits)
qed simp

lemma default_fields [simp]:
  "ve_added_files VersionEdit_default = []" "ve_deleted_files VersionEdit_default = []"
  "ve_column_family_id VersionEdit_default = 0" "ec_next_file_number EditCollector_default = 0"
  by (simp_all add: VersionEdit_default_def EditCollector_default_def)

definition fs_short :: "BlobFileSet \<Rightarrow> bool" where
  "fs_short fs \<longleftrightarrow> (\<forall>(k, st)\<in>set (column_families fs). \<forall>(n, f)\<in>set (files st).
     keys_short f \<and> n < next_file_number fs)"

lemma manifest_inv_open:
  assumes "fs_inv fs" "fs_short fs" "OpenManifest io number fs = (OK, fs')"
  shows "manifest_inv (snapshot_edits fs) fs'"
proof -
  let ?g = "SetNextFileNumber (next_file_number fs) VersionEdit_default"
  have edits: "snapshot_edits fs = ?g # map snapshot_cf (column_families fs)"
    by (simp add: snapshot_edits_def snapshot_cf_def)
  have fs': "fs' = fs\<lparr> manifest := Some (map VersionEdit_EncodeTo (snapshot_edits fs)), manifest_file_number := number \<rparr>"
    using assms(3) by (auto simp: OpenManifest_def WriteSnapshot_def Let_def status_ok_OK split: if_splits)
  let ?c0 = "coll_after (VersionEdit_persistent ?g) EditCollector_default"
  have ve: "ve_added_files ?g = []" "ve_deleted_files ?g = []" "ve_column_family_id ?g = 0"
    by simp_all
  have fits: "edit_fits (VersionEdit_persistent ?g) EditCollector_default"
    by (simp add: edit_fits_def VersionEdit_persistent_def)
  have c0: "coll_added ?c0 k = []" "coll_deleted ?c0 k = []" "coll_open ?c0"
    "ec_next_file_number ?c0 = next_file_number fs" "ec_has_next_file_number ?c0" for k
    using ve by (simp_all add: coll_after_view VersionEdit_persistent_def)
  have dist: "distinct (map fst (column_families fs))"
    and stor: "\<forall>(k, st)\<in>set (column_families fs). BlobStorage_inv st"
    using assms(1) by (auto simp: fs_inv_def)
  have "\<forall>(k, st)\<in>set (column_families fs). BlobStorage_inv st \<and> coll_added ?c0 k = [] \<and> coll_deleted ?c0 k = []"
    using stor c0 by auto
  from replay_snapshot [OF c0(3) dist this] obtain c where c:
    "while_ok AddEdit (map VersionEdit_persistent (map snapshot_cf (column_families fs))) ?c0 = (OK, c)" "coll_open c"
    "ec_next_file_number c = next_file_number fs" "ec_has_next_file_number c"
    "\<And>k. coll_deleted c k = []"
    "\<And>k. coll_added c k = (case GetBlobStorage k fs of None \<Rightarrow> []
        | Some st \<Rightarrow> map (\<lambda>f. (file_number f, f)) (map persistent (live_metas st)))"
    unfolding c0(1,2,4) GetBlobStorage_def using c0(5) by auto
  have rep: "replay (snapshot_edits fs) = (OK, c)"
    using AddEdit_fits [OF _ fits] c(1) by (simp add: replay_def edits)
  have sinv: "BlobStorage_inv st" if "GetBlobStorage k fs = Some st" for k st
    using fs_inv_storage [OF assms(1) that] by blast
  have short: "keys_short f \<and> file_number f < next_file_number fs" if "(k, st) \<in> set (column_families fs)" "f \<in> set (live_metas st)" for k st f
    using assms(2) that stor
    by (fastforce simp: fs_short_def live_metas_def BlobStorage_inv_def storage_inv_def list_all_iff)
  have "coll_wf c"
    unfolding coll_wf_def
    using c live_metas_numbers(1) [OF sinv] by (auto simp: comp_def split: option.splits)
  moreover have mem: "(k, st) \<in> set (column_families fs) \<longleftrightarrow> GetBlobStorage k fs = Some st" for k st
    using dist by (simp add: GetBlobStorage_def map_of_eq_Some_iff)
  moreover have "fst ` set (coll_added c k) = hist_numbers (snapshot_edits fs) k" for k
  proof -
    have "hist_numbers (snapshot_edits fs) k = (\<Union>(j, st)\<in>{x \<in> set (column_families fs). fst x = k}. file_number ` set (live_metas st))"
      by (auto simp: hist_numbers_def edits ve)
    also have "\<dots> = (case GetBlobStorage k fs of None \<Rightarrow> {} | Some st \<Rightarrow> file_number ` set (live_metas st))"
      by (cases "GetBlobStorage k fs") (auto simp: mem)
    finally show ?thesis using c(6) by (auto simp: image_image split: option.splits)
  qed
  moreover have "n < ec_next_file_number c" if n: "n \<in> fst ` set (coll_added c k)" for n k
  proof -
    obtain st f where "GetBlobStorage k fs = Some st" "f \<in> set (live_metas st)" "n = file_number f"
      using n c(6) [of k] by (auto split: option.splits)
    then show ?thesis using short [of k st f] c(3) by (auto simp: GetBlobStorage_def dest: map_of_SomeD)
  qed
  moreover have "map_option persistent (fs_live fs' k n) = view_after (coll_added c k) (coll_deleted c k) (\<lambda>_. None) n"
    if cfk: "GetBlobStorage k fs' \<noteq> None" for k n
  proof -
    have g: "GetBlobStorage k fs' = GetBlobStorage k fs" by (simp add: fs' GetBlobStorage_def)
    then obtain st where st: "GetBlobStorage k fs = Some st" using cfk by auto
    have "coll_added c k = map (\<lambda>f. (file_number f, f)) (map persistent (live_metas st))" using c(6) [of k] st by simp
    then have "map_of (coll_added c k) n = map_option persistent (live_at st n)"
      using live_metas_numbers(2) [OF sinv [OF st]] by (simp only: map_of_numbers_persistent)
    then show ?thesis
      using c(5) g st by (cases "live_at st n") (simp_all add: fs_live_def view_after_def)
  qed
  ultimately have "describes (snapshot_edits fs) fs' c"
    unfolding describes_def using rep c(3,4) by (simp add: fs')
  moreover have "list_all VersionEdit_wf (snapshot_edits fs)"
    using short by (auto simp: edits VersionEdit_wf_def list_all_iff ve)
  moreover have "fs_inv fs'" using assms(1) by (simp add: fs' fs_inv_def)
  ultimately show ?thesis by (auto simp: manifest_inv_def fs')
qed

lemma manifest_inv_frame:
  assumes "manifest_inv h fs" "fs_inv fs'" "manifest fs' = manifest fs" "next_file_number fs \<le> next_file_number fs'"
    and "\<And>k n. GetBlobStorage k fs' \<noteq> None \<Longrightarrow> GetBlobStorage k fs \<noteq> None \<and>
           map_option persistent (fs_live fs' k n) = map_option persistent (fs_live fs k n)"
  shows "manifest_inv h fs'"
proof -
  obtain c where c: "describes h fs c" using assms(1) by (auto simp: manifest_inv_def)
  have "map_option persistent (fs_live fs' k n) = view_after (coll_added c k) (coll_deleted c k) (\<lambda>_. None) n"
    if "GetBlobStorage k fs' \<noteq> None" for k n
    using assms(5) [OF that] describesD(6) [OF c] by metis
  then have "describes h fs' c"
    using c assms(4) unfolding describes_def by (meson order_trans)
  then show ?thesis using assms(1-3) by (auto simp: manifest_inv_def)
qed

definition purged_from :: "(u32 \<times> BlobStorage) list \<Rightarrow> u32 \<times> BlobStorage \<Rightarrow> bool" where
  "purged_from cfs p \<longleftrightarrow> (\<exists>st. (fst p, st) \<in> set cfs \<and> live_at (snd p) = live_at st) \<and>
     comparator (storage_cmp (snd p)) \<and> BlobStorage_inv (snd p) \<and> stats_inv (snd p)"

lemma purged_from_Cons: "purged_from cfs p \<Longrightarrow> purged_from (x # cfs) p"
  by (auto simp: purged_from_def)

lemma purged_from_GetObsoleteFiles:
  assumes "comparator (storage_cmp st)" "BlobStorage_inv st" "stats_inv st"
  shows "purged_from ((k, st) # cfs) (k, snd (GetObsoleteFiles oldest st))"
  unfolding purged_from_def
  using assms GetObsoleteFiles_eq [OF assms(1,2), of oldest] live_at_GetObsoleteFiles [OF assms(1,2), of oldest]
  by auto

lemma obsolete_families_eq:
  assumes "distinct (map fst cfs)"
    "\<forall>(k, st)\<in>set cfs. comparator (storage_cmp st) \<and> BlobStorage_inv st \<and> stats_inv st"
    "obsolete_families dropped oldest cfs = (ns, cfs')"
  shows "set (map fst cfs') \<subseteq> set (map fst cfs) \<and> distinct (map fst cfs') \<and>
    (\<forall>p\<in>set cfs'. purged_from cfs p)"
  using assms
proof (induction cfs arbitrary: ns cfs')
  case (Cons x cfs)
  obtain k st where x: "x = (k, st)" by (cases x)
  obtain ns2 cfs2 where r: "obsolete_families dropped oldest cfs = (ns2, cfs2)" by fastforce
  have inv: "comparator (storage_cmp st)" "BlobStorage_inv st" "stats_inv st" using Cons.prems(2) by (auto simp: x)
  have IH: "set (map fst cfs2) \<subseteq> set (map fst cfs) \<and> distinct (map fst cfs2) \<and> (\<forall>p\<in>set cfs2. purged_from cfs p)"
    using Cons.prems(1,2) r by (intro Cons.IH) (auto simp: x)
  have k: "k \<notin> fst ` set cfs2" using IH Cons.prems(1) by (auto simp: x)
  consider "cfs' = cfs2" | "cfs' = (k, st) # cfs2" | "cfs' = (k, snd (GetObsoleteFiles oldest st)) # cfs2"
    using Cons.prems(3) r by (auto simp: x split: if_splits prod.splits)
  then show ?case
  proof cases
    case 1
    then show ?thesis using IH by (auto intro: purged_from_Cons)
  next
    case 2
    have "purged_from (x # cfs) (k, st)" using inv by (auto simp: purged_from_def x)
    then show ?thesis using 2 IH k by (auto simp: x intro: purged_from_Cons)
  next
    case 3
    then show ?thesis using IH k purged_from_GetObsoleteFiles [OF inv]
      by (auto simp: x intro: purged_from_Cons)
  qed
qed simp

lemma fs_GetObsoleteFiles_inv:
  assumes "manifest_inv h fs"
  shows "manifest_inv h (snd (fs_GetObsoleteFiles oldest fs))"
proof -
  obtain ns cfs' where r: "obsolete_families (obsolete_columns fs) oldest (column_families fs) = (ns, cfs')" by fastforce
  have inv: "fs_inv fs" using assms by (simp add: manifest_inv_def)
  then have dist: "distinct (map fst (column_families fs))" by (simp add: fs_inv_def)
  have o: "set (map fst cfs') \<subseteq> set (map fst (column_families fs))" "distinct (map fst cfs')"
    "\<forall>p\<in>set cfs'. purged_from (column_families fs) p"
    using obsolete_families_eq [OF dist _ r] inv by (auto simp: fs_inv_def)
  let ?fs = "snd (fs_GetObsoleteFiles oldest fs)"
  have fs': "?fs = fs\<lparr> column_families := cfs', obsolete_manifests := [] \<rparr>"
    by (simp add: fs_GetObsoleteFiles_def r)
  have "fs_inv ?fs" using o by (auto simp: fs_inv_def fs' purged_from_def)
  moreover have "GetBlobStorage k fs \<noteq> None \<and> fs_live ?fs k n = fs_live fs k n" if cfk: "GetBlobStorage k ?fs \<noteq> None" for k n
  proof -
    obtain st' where st': "GetBlobStorage k ?fs = Some st'" using cfk by blast
    then have "(k, st') \<in> set cfs'" by (auto simp: GetBlobStorage_def fs' dest: map_of_SomeD)
    then obtain st where "(k, st) \<in> set (column_families fs)" "live_at st' = live_at st" using o(3) by (fastforce simp: purged_from_def)
    then have "GetBlobStorage k fs = Some st" "live_at st' = live_at st"
      using dist by (simp_all add: GetBlobStorage_def)
    then show ?thesis using st' by (simp add: fs_live_def)
  qed
  ultimately show ?thesis
    using manifest_inv_frame [OF assms, of ?fs] by (simp add: fs')
qed


lemma NewFileNumber_inv:
  assumes "manifest_inv h fs" "next_file_number fs \<noteq> - 1"
  shows "manifest_inv h (snd (NewFileNumber fs))"
proof -
  let ?fs = "snd (NewFileNumber fs)"
  have "GetBlobStorage k ?fs = GetBlobStorage k fs" for k by (simp add: NewFileNumber_def GetBlobStorage_def)
  moreover have "next_file_number fs \<le> next_file_number ?fs"
    using assms(2) unatSuc [of "next_file_number fs"]
    by (simp add: NewFileNumber_def word_le_nat_alt add.commute add_eq_0_iff)
  moreover have "fs_inv ?fs" "manifest ?fs = manifest fs"
    using assms(1) by (simp_all add: manifest_inv_def fs_inv_def NewFileNumber_def)
  ultimately show ?thesis
    using manifest_inv_frame [OF assms(1), of ?fs] by (simp add: fs_live_def)
qed

text \<open>A change of a file's in-memory state that its record does not hold.\<close>

definition touches :: "(BlobFileMeta \<Rightarrow> BlobFileMeta) \<Rightarrow> bool" where
  "touches g \<longleftrightarrow> (\<forall>f. persistent (g f) = persistent f \<and> is_obsolete (g f) = is_obsolete f)"

definition touch_file :: "u32 \<Rightarrow> u64 \<Rightarrow> (BlobFileMeta \<Rightarrow> BlobFileMeta) \<Rightarrow> BlobFileSet \<Rightarrow> BlobFileSet" where
  "touch_file cfid n g fs = fs\<lparr> column_families := upd cfid (update_file n g) (column_families fs) \<rparr>"

lemma persistent_eq_fields:
  assumes "persistent f = persistent g"
  shows "file_number f = file_number g" "file_size f = file_size g" "smallest_key f = smallest_key g"
  using assms by (simp_all add: persistent_def BlobFileMeta_new_def)

lemma upd_touch:
  assumes "touches g"
  shows "map (\<lambda>(n, f). (smallest_key f, n)) (upd n g xs) = map (\<lambda>(n, f). (smallest_key f, n)) xs"
    "list_all (\<lambda>(n, f). file_number f = n) (upd n g xs) = list_all (\<lambda>(n, f). file_number f = n) xs"
    "map fst (filter (\<lambda>(n, f). is_obsolete f) (upd n g xs)) = map fst (filter (\<lambda>(n, f). is_obsolete f) xs)"
    "map file_size (filter (\<lambda>f. is_obsolete f = b) (map snd (upd n g xs))) =
     map file_size (filter (\<lambda>f. is_obsolete f = b) (map snd xs))"
proof -
  have g: "is_obsolete (g f) = is_obsolete f" "file_number (g f) = file_number f"
    "file_size (g f) = file_size f" "smallest_key (g f) = smallest_key f" for f
    using assms persistent_eq_fields [of "g f" f] by (simp_all add: touches_def)
  show "map (\<lambda>(n, f). (smallest_key f, n)) (upd n g xs) = map (\<lambda>(n, f). (smallest_key f, n)) xs"
    "list_all (\<lambda>(n, f). file_number f = n) (upd n g xs) = list_all (\<lambda>(n, f). file_number f = n) xs"
    "map fst (filter (\<lambda>(n, f). is_obsolete f) (upd n g xs)) = map fst (filter (\<lambda>(n, f). is_obsolete f) xs)"
    "map file_size (filter (\<lambda>f. is_obsolete f = b) (map snd (upd n g xs))) =
     map file_size (filter (\<lambda>f. is_obsolete f = b) (map snd xs))"
    by (induction xs) (auto simp: upd_def g split: if_splits)
qed

lemma update_file_touch:
  assumes "touches g"
  shows "BlobStorage_inv (update_file n g st) = BlobStorage_inv st"
    "stats_inv (update_file n g st) = stats_inv st"
    "map_option persistent (live_at (update_file n g st) m) = map_option persistent (live_at st m)"
proof -
  note u = upd_touch [OF assms, where n = n and xs = "files st"]
  have obs: "fst ` set (filter (\<lambda>(n, f). is_obsolete f) (upd n g (files st))) =
    fst ` set (filter (\<lambda>(n, f). is_obsolete f) (files st))"
    using arg_cong [OF u(3), of set] by (simp only: list.set_map)
  show "BlobStorage_inv (update_file n g st) = BlobStorage_inv st"
    using u(1,2) obs by (simp add: BlobStorage_inv_def storage_inv_def)
  have len: "length (filter (\<lambda>f. is_obsolete f = b) (map snd (upd n g (files st)))) =
    length (filter (\<lambda>f. is_obsolete f = b) (map snd (files st)))" for b
    using arg_cong [OF u(4) [where b = b], of length] by (simp only: length_map)
  show "stats_inv (update_file n g st) = stats_inv st"
    using u(4) [where b = True] u(4) [where b = False] len [of True] len [of False]
    by (simp add: stats_inv_def live_list_def obsolete_list_def)
  show "map_option persistent (live_at (update_file n g st) m) = map_option persistent (live_at st m)"
    using assms by (auto simp: live_at_def FindFile_def map_of_upd touches_def split: option.splits)
qed

lemma touch_file_inv:
  assumes "manifest_inv h fs" "touches g"
  shows "manifest_inv h (touch_file cfid n g fs)"
proof -
  let ?fs = "touch_file cfid n g fs"
  have gbs: "GetBlobStorage k ?fs = map_option (\<lambda>st. if k = cfid then update_file n g st else st) (GetBlobStorage k fs)" for k
    by (simp add: GetBlobStorage_def touch_file_def map_of_upd option.map_ident)
  have from_old: "\<exists>st. (k, st) \<in> set (column_families fs) \<and> (v = st \<or> v = update_file n g st)"
    if "(k, v) \<in> set (column_families ?fs)" for k v
    using that by (auto simp: touch_file_def upd_def split: if_splits)
  have "comparator (storage_cmp v) \<and> BlobStorage_inv v \<and> stats_inv v"
    if "(k, v) \<in> set (column_families ?fs)" for k v
  proof -
    from from_old [OF that] obtain st where st: "(k, st) \<in> set (column_families fs)" "v = st \<or> v = update_file n g st"
      by blast
    have "comparator (storage_cmp st) \<and> BlobStorage_inv st \<and> stats_inv st"
      using assms(1) st(1) by (auto simp: manifest_inv_def fs_inv_def)
    then show ?thesis using st(2) update_file_touch(1,2) [OF assms(2)] by (elim disjE) simp_all
  qed
  then have "fs_inv ?fs"
    using assms(1) by (auto simp: manifest_inv_def fs_inv_def touch_file_def)
  moreover have "map_option persistent (fs_live ?fs k m) = map_option persistent (fs_live fs k m)" for k m
    using update_file_touch(3) [OF assms(2)] by (auto simp: fs_live_def gbs split: option.splits)
  moreover have "manifest ?fs = manifest fs" "next_file_number ?fs = next_file_number fs"
    by (simp_all add: touch_file_def)
  ultimately show ?thesis
    using manifest_inv_frame [OF assms(1), of ?fs] by (auto simp: gbs)
qed

lemma MaybeDestroyColumnFamily_inv:
  assumes "manifest_inv h fs"
  shows "manifest_inv h (snd (MaybeDestroyColumnFamily cfid fs))"
proof -
  let ?fs = "snd (MaybeDestroyColumnFamily cfid fs)"
  have d: "storage_cmp (MarkDestroyed st) = storage_cmp st" "BlobStorage_inv (MarkDestroyed st) = BlobStorage_inv st"
    "stats_inv (MarkDestroyed st) = stats_inv st" "live_at (MarkDestroyed st) = live_at st" for st
    by (simp_all add: MarkDestroyed_def BlobStorage_inv_def storage_inv_def stats_inv_def
        live_list_def obsolete_list_def live_at_def FindFile_def fun_eq_iff)
  have inv: "fs_inv fs" using assms by (simp add: manifest_inv_def)
  have same: "manifest ?fs = manifest fs" "next_file_number ?fs = next_file_number fs"
    by (simp_all add: MaybeDestroyColumnFamily_def Let_def split: option.splits)
  have cfs: "column_families ?fs =
      (case GetBlobStorage cfid fs of None \<Rightarrow> column_families fs
       | Some st \<Rightarrow> if MaybeRemove (MarkDestroyed st) then erase_key cfid (column_families fs)
                    else upd cfid (\<lambda>_. MarkDestroyed st) (column_families fs))"
    by (simp add: MaybeDestroyColumnFamily_def GetBlobStorage_def Let_def split: option.splits)
  show ?thesis
  proof (cases "GetBlobStorage cfid fs")
    case None
    then show ?thesis
      using manifest_inv_frame [OF assms, of ?fs] inv same
      by (simp add: cfs fs_inv_def fs_live_def GetBlobStorage_def)
  next
    case (Some st)
    have st: "comparator (storage_cmp st)" "BlobStorage_inv st" "stats_inv st"
      using fs_inv_storage [OF inv Some] by auto
    show ?thesis
    proof (cases "MaybeRemove (MarkDestroyed st)")
      case True
      then have cfs': "column_families ?fs = erase_key cfid (column_families fs)" by (simp add: cfs Some)
      have gbs: "GetBlobStorage k ?fs = (if k = cfid then None else GetBlobStorage k fs)" for k
        by (simp add: GetBlobStorage_def cfs' map_of_erase_key)
      have "fs_inv ?fs" using inv by (auto simp: fs_inv_def cfs' erase_key_def distinct_map inj_on_def)
      then show ?thesis
        by (intro manifest_inv_frame [OF assms]) (simp_all add: same, auto simp: gbs fs_live_def split: if_splits)
    next
      case False
      let ?fs' = "fs\<lparr> column_families := upd cfid (\<lambda>_. MarkDestroyed st) (column_families fs) \<rparr>"
      have "fs_inv ?fs'" using fs_inv_upd [OF inv, of "MarkDestroyed st" cfid] st by (simp add: d)
      then have "fs_inv ?fs" using False by (simp add: fs_inv_def cfs Some)
      moreover have "GetBlobStorage k ?fs = GetBlobStorage k ?fs'" for k
        using False by (simp add: GetBlobStorage_def cfs Some [unfolded GetBlobStorage_def])
      then have "GetBlobStorage k ?fs = (if k = cfid then Some (MarkDestroyed st) else GetBlobStorage k fs)" for k
        using Some by (simp add: GetBlobStorage_upd)
      ultimately show ?thesis
        by (intro manifest_inv_frame [OF assms]) (simp_all add: same Some fs_live_def d split: if_splits)
    qed
  qed
qed

section \<open>Recovery\<close>

text \<open>A manifest whose records are read back as they were written.\<close>

definition intact :: "bytes list \<Rightarrow> (status \<times> bytes) list" where
  "intact records = map (Pair OK) records"

lemma recover_history:
  "list_all VersionEdit_wf h \<Longrightarrow>
   recover_loop junk (intact (map VersionEdit_EncodeTo h)) c = while_ok AddEdit (map VersionEdit_persistent h) c"
  by (induction h arbitrary: c) (simp_all add: intact_def recover_record_def VersionEdit_roundtrip status_ok_OK split: prod.splits)

definition fs_fresh :: "BlobFileSet \<Rightarrow> bool" where
  "fs_fresh fs \<longleftrightarrow> fs_inv fs \<and> (\<forall>(k, st)\<in>set (column_families fs). files st = [])"

lemma fs_fresh_storage: "\<lbrakk>fs_fresh fs; GetBlobStorage k fs = Some st\<rbrakk> \<Longrightarrow> files st = []"
  by (auto simp: fs_fresh_def GetBlobStorage_def dest!: map_of_SomeD)

lemma coll_wf_cc:
  assumes "coll_wf c" "(k, cc) \<in> set (ec_column_families c)"
  shows "cc_added_files cc = coll_added c k" "cc_deleted_files cc = coll_deleted c k"
  using assms coll_wfD(1) [OF assms(1)] by (simp_all add: coll_added_def coll_deleted_def coll_open_def)

lemma persistent_not_obsolete: "persistent f = f \<Longrightarrow> \<not> is_obsolete f"
  by (metis BlobFileMeta.select_convs(8) BlobFileMeta_new_def FileState.distinct is_obsolete_def persistent_def)

lemma coll_wf_seals:
  assumes "coll_wf c" "fs_fresh fs"
  shows "seals fs c" "\<forall>(k, cc)\<in>set (ec_column_families c). cc_ok cc"
proof -
  show "\<forall>(k, cc)\<in>set (ec_column_families c). cc_ok cc"
  proof clarify
    fix k cc assume "(k, cc) \<in> set (ec_column_families c)"
    note cc = coll_wf_cc [OF assms(1) this]
    show "cc_ok cc"
      using coll_wfD(2-5) [OF assms(1), where k = k] persistent_not_obsolete by (auto simp: cc_ok_def cc)
  qed
  show "seals fs c"
    unfolding seals_def
  proof clarify
    fix k cc st assume kc: "(k, cc) \<in> set (ec_column_families c)" and st: "GetBlobStorage k fs = Some st"
    note cc = coll_wf_cc [OF assms(1) kc]
    have "FindFile n st = None" for n using fs_fresh_storage [OF assms(2) st] by (simp add: FindFile_def)
    then show "cc_Seal st cc = OK"
      using coll_wfD(4) [OF assms(1), of k] by (auto simp: cc_Seal_ok_iff cc)
  qed
qed

text \<open>
  Reading a manifest back into fresh storages succeeds and restores the live files of every column
  family present in both runs, as far as their records hold them.
\<close>

definition restores :: "BlobFileSet \<Rightarrow> BlobFileSet \<Rightarrow> BlobFileSet \<Rightarrow> bool" where
  "restores fs fs0 fs1 \<longleftrightarrow> fs_inv fs1 \<and>
     map fst (column_families fs1) = map fst (column_families fs0) \<and>
     (\<forall>k n. GetBlobStorage k fs \<noteq> None \<longrightarrow> GetBlobStorage k fs0 \<noteq> None \<longrightarrow>
        fs_live fs1 k n = map_option persistent (fs_live fs k n)) \<and>
     (\<forall>k n. fs_live fs1 k n \<noteq> None \<longrightarrow> n < next_file_number fs1) \<and>
     next_file_number fs1 \<le> next_file_number fs"

lemma recover_edits_restores:
  assumes inv: "manifest_inv h fs" and fresh: "fs_fresh fs0"
  shows "\<exists>fs1. recover_edits junk (intact (the (manifest fs))) fs0 = (OK, fs1) \<and> restores fs fs0 fs1"
proof -
  obtain c where c: "describes h fs c" using inv by (auto simp: manifest_inv_def)
  note d = describesD [OF c]
  note wf = coll_wfD [OF d(2)]
  have open_c: "ec_status c = OK" "distinct (map fst (ec_column_families c))" using wf(1) by (simp_all add: coll_open_def)
  note seal = coll_wf_seals [OF d(2) fresh]
  let ?c = "c\<lparr> ec_sealed := True \<rparr>"
  have inv0: "fs_inv fs0" using fresh by (simp add: fs_fresh_def)
  obtain fs' where fs': "while_ok apply_cf (ec_column_families c) fs0 = (OK, fs')" "fs_inv fs'" "same_frame fs0 fs'"
    "\<forall>k. GetBlobStorage k fs0 \<noteq> None \<longrightarrow> fs_live fs' k = (case map_of (ec_column_families c) k of None \<Rightarrow> fs_live fs0 k
         | Some cc \<Rightarrow> view_after (cc_added_files cc) (cc_deleted_files cc) (fs_live fs0 k))"
    using apply_all_eq [OF inv0 open_c(2) seal(2)] seal(1) unfolding seals_def by blast
  have "fs_live fs0 k = (\<lambda>_. None)" for k
    using fs_fresh_storage [OF fresh] by (auto simp: fs_live_def live_at_def FindFile_def fun_eq_iff split: option.splits)
  then have live: "fs_live fs' k = view_after (coll_added c k) (coll_deleted c k) (\<lambda>_. None)"
    if "GetBlobStorage k fs0 \<noteq> None" for k
    using fs'(4) that by (auto simp: coll_added_def coll_deleted_def view_after_def fun_eq_iff split: option.splits)
  let ?fs1 = "fs'\<lparr> next_file_number := ec_next_file_number c \<rparr>"
  have same: "GetBlobStorage k ?fs1 = GetBlobStorage k fs'" "fs_live ?fs1 k n = fs_live fs' k n" for k n
    by (simp_all add: GetBlobStorage_def fs_live_def)
  have "the (manifest fs) = map VersionEdit_EncodeTo h" "list_all VersionEdit_wf h"
    using inv by (simp_all add: manifest_inv_def)
  then have "recover_edits junk (intact (the (manifest fs))) fs0 = (OK, ?fs1)"
    using d(1,7) open_c ec_Seal_eq(2) [OF open_c(1) seal(1)] ec_Apply_eq [of ?c fs0] fs'(1)
    by (simp add: recover_edits_def recover_history replay_def GetNextFileNumber_def)
  moreover have "n < ec_next_file_number c" if "fs_live fs' k n \<noteq> None" for k n
  proof -
    have "GetBlobStorage k fs' \<noteq> None" using that by (auto simp: fs_live_def split: option.splits)
    then have "GetBlobStorage k fs0 \<noteq> None" using fs'(3) unfolding GetBlobStorage_None same_frame_def by metis
    then have "map_of (coll_added c k) n \<noteq> None"
      using that live by (auto simp: view_after_def split: if_splits option.splits)
    then show ?thesis using d(5) by (metis map_of_eq_None_iff)
  qed
  moreover have "fs_live fs' k n = map_option persistent (fs_live fs k n)"
    if "GetBlobStorage k fs \<noteq> None" "GetBlobStorage k fs0 \<noteq> None" for k n
    using d(6) [OF that(1)] live [OF that(2)] by simp
  ultimately show ?thesis
    using fs'(2,3) d(3) by (auto simp: restores_def same fs_inv_def same_frame_def)
qed

section \<open>Runs of the file set\<close>

text \<open>
  \<open>logged h fs\<close>: the file set opened a manifest and then went through any sequence of its
  operations in which no sync of the manifest failed; \<open>h\<close> lists the edits the manifest holds. An edit
  adds files with new numbers taken from \<open>NewFileNumber\<close> to a column family of the set, as flush,
  compaction and garbage collection do; \<open>DeleteBlobFilesInRanges\<close> is the case of an edit that adds
  none. A column family that is created has an id that was not used before.
\<close>

definition edit_adds_new :: "VersionEdit list \<Rightarrow> BlobFileSet \<Rightarrow> VersionEdit \<Rightarrow> bool" where
  "edit_adds_new h fs e \<longleftrightarrow> GetBlobStorage (ve_column_family_id e) fs \<noteq> None \<and>
     (\<forall>f\<in>set (ve_added_files e). \<not> is_obsolete f \<and> keys_short f \<and> file_number f < next_file_number fs \<and>
        file_number f \<notin> hist_numbers h (ve_column_family_id e))"

text \<open>The edits \<open>DropColumnFamilies\<close> logs before it is done or fails.\<close>

fun drop_log :: "ManifestIO \<Rightarrow> u64 \<Rightarrow> u32 list \<Rightarrow> BlobFileSet \<Rightarrow> VersionEdit list" where
  "drop_log io seq [] fs = []"
| "drop_log io seq (cfid # cfids) fs =
     (case GetBlobStorage cfid fs of
        None \<Rightarrow> []
      | Some st \<Rightarrow>
          (case LogAndApply io (drop_edit cfid seq st) fs of
             (s, fs') \<Rightarrow>
               if status_ok s
               then logged_edit fs (drop_edit cfid seq st) # drop_log io seq cfids (fs'\<lparr> obsolete_columns := List.insert cfid (obsolete_columns fs') \<rparr>)
               else []))"

inductive logged :: "VersionEdit list \<Rightarrow> BlobFileSet \<Rightarrow> bool" where
  opened: "\<lbrakk>fs_inv fs; fs_short fs; OpenManifest io number fs = (OK, fs')\<rbrakk> \<Longrightarrow> logged (snapshot_edits fs) fs'"
| edited: "\<lbrakk>logged h fs; edit_adds_new h fs e; LogAndApply io e fs = (OK, fs')\<rbrakk> \<Longrightarrow>
     logged (h @ [logged_edit fs e]) fs'"
| refused: "\<lbrakk>logged h fs; edit_adds_new h fs e; LogAndApply io e fs = (s, fs'); s \<noteq> OK; io_sync io = OK\<rbrakk> \<Longrightarrow>
     logged h fs'"
| numbered: "\<lbrakk>logged h fs; next_file_number fs \<noteq> - 1\<rbrakk> \<Longrightarrow> logged h (snd (NewFileNumber fs))"
| purged: "logged h fs \<Longrightarrow> logged h (snd (fs_GetObsoleteFiles oldest fs))"
| touched: "\<lbrakk>logged h fs; touches g\<rbrakk> \<Longrightarrow> logged h (touch_file cfid n g fs)"
| closed: "logged h fs \<Longrightarrow> logged h (snd (MaybeDestroyColumnFamily cfid fs))"
| dropped: "\<lbrakk>logged h fs; DropColumnFamilies io cfids seq fs = (s, fs'); io_sync io = OK\<rbrakk> \<Longrightarrow>
     logged (h @ drop_log io seq cfids fs) fs'"
| created: "\<lbrakk>logged h fs; list_all (\<lambda>(cfid, opts). comparator (opt_comparator opts) \<and> hist_numbers h cfid = {}) cfs\<rbrakk> \<Longrightarrow>
     logged h (AddColumnFamilies cfs fs)"

lemma LogAndApply_refused:
  assumes "fs_inv fs" "\<forall>f\<in>set (ve_added_files e). \<not> is_obsolete f" "LogAndApply io e fs = (s, fs')" "s \<noteq> OK" "io_sync io = OK"
  shows "fs' = fs"
  by (rule LogAndApply_cases [OF assms(1-3)]) (use assms(4,5) in auto)

lemma drop_edit_fields: "ve_added_files (drop_edit cfid seq st) = [] \<and> ve_column_family_id (drop_edit cfid seq st) = cfid"
proof -
  have "ve_added_files (fold (\<lambda>(n, f) e. if is_obsolete f then e else ve_DeleteBlobFile n seq e) xs e) = ve_added_files e \<and>
      ve_column_family_id (fold (\<lambda>(n, f) e. if is_obsolete f then e else ve_DeleteBlobFile n seq e) xs e) = ve_column_family_id e" for xs e
    by (induction xs arbitrary: e) (auto simp: ve_DeleteBlobFile_def)
  then show ?thesis by (simp add: drop_edit_def SetColumnFamilyID_def VersionEdit_default_def)
qed

lemma manifest_inv_obsolete_columns: "manifest_inv h fs \<Longrightarrow> manifest_inv h (fs\<lparr> obsolete_columns := x \<rparr>)"
  by (rule manifest_inv_frame) (auto simp: manifest_inv_def fs_inv_def GetBlobStorage_def fs_live_def)

lemma DropColumnFamilies_inv:
  assumes "manifest_inv h fs" "DropColumnFamilies io cfids seq fs = (s, fs')" "io_sync io = OK"
  shows "manifest_inv (h @ drop_log io seq cfids fs) fs'"
  using assms(1,2)
proof (induction cfids arbitrary: h fs)
  case Nil
  then show ?case by (simp add: DropColumnFamilies_def)
next
  case (Cons cfid cfids)
  note d = drop_edit_fields [of cfid seq]
  show ?case
  proof (cases "GetBlobStorage cfid fs")
    case None
    then show ?thesis using Cons.prems by (simp add: DropColumnFamilies_def)
  next
    case (Some st)
    obtain s1 fs1 where l: "LogAndApply io (drop_edit cfid seq st) fs = (s1, fs1)" by fastforce
    have inv: "fs_inv fs" using Cons.prems(1) by (simp add: manifest_inv_def)
    show ?thesis
    proof (cases "s1 = OK")
      case True
      let ?fs = "fs1\<lparr> obsolete_columns := List.insert cfid (obsolete_columns fs1) \<rparr>"
      have "manifest_inv (h @ [logged_edit fs (drop_edit cfid seq st)]) fs1"
        using l True Some d by (intro manifest_inv_log [OF Cons.prems(1)]) auto
      moreover have "DropColumnFamilies io cfids seq ?fs = (s, fs')"
        using Cons.prems(2) Some l True by (simp add: DropColumnFamilies_def status_ok_OK)
      ultimately show ?thesis
        using Cons.IH [OF manifest_inv_obsolete_columns, of "h @ [logged_edit fs (drop_edit cfid seq st)]"] Some l True
        by (simp add: status_ok_OK)
    next
      case False
      have "fs1 = fs" by (rule LogAndApply_refused [OF inv _ l False assms(3)]) (simp add: d)
      then show ?thesis using Cons.prems Some l False by (auto simp: DropColumnFamilies_def status_ok_OK)
    qed
  qed
qed

lemma AddColumnFamily_inv:
  assumes "manifest_inv h fs" "comparator (opt_comparator opts)" "hist_numbers h cfid = {}"
  shows "manifest_inv h (fs\<lparr> column_families := emplace cfid (BlobStorage_new opts cfid) (column_families fs) \<rparr>)"
proof (cases "GetBlobStorage cfid fs")
  case (Some st)
  then have "emplace cfid (BlobStorage_new opts cfid) (column_families fs) = column_families fs"
    by (auto simp: emplace_def GetBlobStorage_def dest: map_of_SomeD intro: rev_image_eqI)
  then show ?thesis using assms(1) by simp
next
  case None
  let ?fs = "fs\<lparr> column_families := emplace cfid (BlobStorage_new opts cfid) (column_families fs) \<rparr>"
  have inv: "fs_inv fs" using assms(1) by (simp add: manifest_inv_def)
  obtain c where c: "describes h fs c" using assms(1) by (auto simp: manifest_inv_def)
  have cfs: "column_families ?fs = column_families fs @ [(cfid, BlobStorage_new opts cfid)]"
    using None by (simp add: emplace_def GetBlobStorage_def map_of_eq_None_iff)
  have g: "GetBlobStorage k ?fs = (if k = cfid then Some (BlobStorage_new opts cfid) else GetBlobStorage k fs)" for k
    unfolding GetBlobStorage_def cfs using None by (auto simp: GetBlobStorage_def map_add_def split: option.splits)
  have "storage_cmp (BlobStorage_new opts cfid) = opt_comparator opts" by (simp add: BlobStorage_new_def)
  then have inv': "fs_inv ?fs"
    using inv assms(2) None BlobStorage_new_inv [of opts cfid]
    by (auto simp: fs_inv_def cfs GetBlobStorage_None)
  have "coll_added c cfid = []" using describesD(4) [OF c, of cfid] assms(3) by simp
  moreover have "live_at (BlobStorage_new opts cfid) n = None" for n by (simp add: live_at_def FindFile_def BlobStorage_new_def)
  ultimately have "map_option persistent (fs_live ?fs k n) = view_after (coll_added c k) (coll_deleted c k) (\<lambda>_. None) n"
    if "GetBlobStorage k ?fs \<noteq> None" for k n
    using that describesD(6) [OF c, of k n] by (cases "k = cfid") (simp_all add: fs_live_def g view_after_def)
  moreover have "next_file_number ?fs = next_file_number fs" by simp
  ultimately have "describes h ?fs c" using c unfolding describes_def by metis
  then show ?thesis using assms(1) inv' by (auto simp: manifest_inv_def)
qed

lemma AddColumnFamilies_inv:
  assumes "manifest_inv h fs" "list_all (\<lambda>(cfid, opts). comparator (opt_comparator opts) \<and> hist_numbers h cfid = {}) cfs"
  shows "manifest_inv h (AddColumnFamilies cfs fs)"
  using assms
proof (induction cfs arbitrary: fs)
  case Nil
  then show ?case by (simp add: AddColumnFamilies_def)
next
  case (Cons x cfs)
  let ?fs = "fs\<lparr> column_families := emplace (fst x) (BlobStorage_new (snd x) (fst x)) (column_families fs) \<rparr>"
  have "manifest_inv h ?fs" using Cons.prems by (intro AddColumnFamily_inv) auto
  moreover have "AddColumnFamilies (x # cfs) fs = AddColumnFamilies cfs ?fs" by (simp add: AddColumnFamilies_def case_prod_unfold)
  ultimately show ?case using Cons.IH [of ?fs] Cons.prems(2) by simp
qed

lemma logged_manifest_inv: "logged h fs \<Longrightarrow> manifest_inv h fs"
proof (induction rule: logged.induct)
  case (edited h fs e io fs')
  then show ?case by (intro manifest_inv_log [OF edited.IH edited.hyps(3)]) (auto simp: edit_adds_new_def)
next
  case (refused h fs e io s fs')
  have "fs' = fs"
    using refused by (intro LogAndApply_refused [of fs e io s fs']) (auto simp: edit_adds_new_def manifest_inv_def)
  then show ?case using refused.IH by simp
qed (simp_all add: manifest_inv_open NewFileNumber_inv fs_GetObsoleteFiles_inv touch_file_inv MaybeDestroyColumnFamily_inv
      DropColumnFamilies_inv AddColumnFamilies_inv)

lemma ec_Apply_manifest: "manifest (snd (ec_Apply c fs)) = manifest fs"
proof -
  have w: "manifest (snd (while_ok f xs s)) = manifest s" if f: "\<And>x s. manifest (snd (f x s)) = manifest s" for f :: "'a \<Rightarrow> BlobFileSet \<Rightarrow> status \<times> BlobFileSet" and xs s
  proof (induction xs arbitrary: s)
    case (Cons x xs)
    then show ?case using f [of x s] by (cases "f x s") simp
  qed simp
  show ?thesis unfolding ec_Apply_def by (auto intro!: w split: option.splits prod.splits)
qed

text \<open>An edit whose sync fails has left in the manifest what it would have left had the sync succeeded.\<close>

lemma LogAndApply_unsynced:
  assumes "fs_inv fs" "\<forall>f\<in>set (ve_added_files e). \<not> is_obsolete f" "LogAndApply io e fs = (s, fs')" "io_sync io \<noteq> OK"
  shows "s \<noteq> OK \<and> (fs' = fs \<or> (\<exists>fs2. LogAndApply (io\<lparr> io_sync := OK \<rparr>) e fs = (OK, fs2) \<and> manifest fs2 = manifest fs'))"
proof (rule LogAndApply_cases [OF assms(1-3)])
  fix records
  assume u: "s \<noteq> OK" "manifest fs = Some records" "fs' = fs\<lparr> manifest := Some (records @ [VersionEdit_EncodeTo (logged_edit fs e)]) \<rparr>"
  obtain s2 fs2 where l: "LogAndApply (io\<lparr> io_sync := OK \<rparr>) e fs = (s2, fs2)" by fastforce
  have ne: "manifest fs' \<noteq> manifest fs" using u by simp
  have m: "manifest fs2 = manifest fs'"
    using l assms(3,4) u(2) ne ec_Apply_manifest
    by (auto simp: LogAndApply_def Let_def status_ok_OK split: prod.splits if_splits) (metis BlobFileSet.select_convs(4) BlobFileSet.surjective BlobFileSet.update_convs(4) snd_conv)
  have "s2 = OK" by (rule LogAndApply_cases [OF assms(1,2) l]) (use m ne in auto)
  then show ?thesis using u(1) l m by auto
next
  assume "s = OK"
  then show ?thesis
    using assms(3,4) by (auto simp: LogAndApply_def Let_def status_ok_OK split: prod.splits if_splits option.splits)
qed auto

section \<open>Properties\<close>

text \<open>
  C2: recovery restores the file set. After any run of the file set's operations (edits that are
  applied or refused, column families created, dropped and destroyed, purges, new numbers and changes
  of the files' in-memory state) in which no sync of the manifest has failed, replaying the manifest
  into fresh storages succeeds; every column family present in both runs has exactly the live files
  it had, up to their in-memory state, and the next file number is above every live file. When such a
  run ends with an edit whose sync fails, the file set is unchanged, and what its manifest restores is
  either that file set or the one with the whole edit applied.
\<close>

theorem recovery_restores:
  assumes "logged h fs" "fs_fresh fs0"
  shows "(\<exists>fs1. recover_edits junk (intact (the (manifest fs))) fs0 = (OK, fs1) \<and> restores fs fs0 fs1) \<and>
    (\<forall>io e s fs'. edit_adds_new h fs e \<and> io_sync io \<noteq> OK \<and> LogAndApply io e fs = (s, fs') \<longrightarrow>
      s \<noteq> OK \<and> fs'\<lparr> manifest := manifest fs \<rparr> = fs \<and>
      (\<exists>fs1 fs2. recover_edits junk (intact (the (manifest fs'))) fs0 = (OK, fs1) \<and> restores fs2 fs0 fs1 \<and>
        (fs2 = fs \<or> LogAndApply (io\<lparr> io_sync := OK \<rparr>) e fs = (OK, fs2))))"
proof -
  note inv = logged_manifest_inv [OF assms(1)]
  have rec: "\<exists>fs1. recover_edits junk (intact (the (manifest fs))) fs0 = (OK, fs1) \<and> restores fs fs0 fs1" if "logged h fs" for h fs
    by (rule recover_edits_restores [OF logged_manifest_inv [OF that] assms(2)])
  moreover have "s \<noteq> OK \<and> fs'\<lparr> manifest := manifest fs \<rparr> = fs \<and>
      (\<exists>fs1 fs2. recover_edits junk (intact (the (manifest fs'))) fs0 = (OK, fs1) \<and> restores fs2 fs0 fs1 \<and>
        (fs2 = fs \<or> LogAndApply (io\<lparr> io_sync := OK \<rparr>) e fs = (OK, fs2)))"
    if e: "edit_adds_new h fs e" and io: "io_sync io \<noteq> OK" and run: "LogAndApply io e fs = (s, fs')" for io e s fs'
  proof -
    have pre: "fs_inv fs" "\<forall>f\<in>set (ve_added_files e). \<not> is_obsolete f" using inv e by (auto simp: manifest_inv_def edit_adds_new_def)
    note u = LogAndApply_unsynced [OF pre run io]
    have "fs'\<lparr> manifest := manifest fs \<rparr> = fs" by (rule LogAndApply_cases [OF pre run]) (use u in auto)
    moreover have "\<exists>fs1 fs2. recover_edits junk (intact (the (manifest fs'))) fs0 = (OK, fs1) \<and> restores fs2 fs0 fs1 \<and>
        (fs2 = fs \<or> LogAndApply (io\<lparr> io_sync := OK \<rparr>) e fs = (OK, fs2))"
      using u rec [OF assms(1)] rec [OF logged.edited [OF assms(1) e]] by metis
    ultimately show ?thesis using u by blast
  qed
  ultimately show ?thesis using assms(1) by blast
qed

definition demo_io :: ManifestIO where
  "demo_io = \<lparr> io_new_file = OK, io_add_record = OK, io_sync = OK, io_set_current = OK \<rparr>"

definition demo_set :: BlobFileSet where
  "demo_set = AddColumnFamilies [(0, demo_options)]
     \<lparr> column_families = [], obsolete_columns = [], obsolete_manifests = [], manifest = None,
       next_file_number = 1, manifest_file_number = 0 \<rparr>"

definition demo_edit :: VersionEdit where
  "demo_edit = ve_AddBlobFile (BlobFileMeta_new 1 100 2 0 [1] [2]) (SetColumnFamilyID 0 VersionEdit_default)"

definition demo_opened :: BlobFileSet where
  "demo_opened = snd (NewFileNumber (snd (OpenManifest demo_io 1 demo_set)))"

definition demo_edited :: BlobFileSet where
  "demo_edited = snd (LogAndApply demo_io demo_edit demo_opened)"

lemma demo_set_families: "column_families demo_set = [(0, BlobStorage_new demo_options 0)]"
  by (simp add: demo_set_def AddColumnFamilies_def emplace_def)

lemma demo_fresh: "fs_fresh demo_set" "fs_inv demo_set" "fs_short demo_set"
proof -
  have "comparator (opt_comparator demo_options)"
    using bytewise.comparator_axioms by (simp add: demo_options_def TitanCFOptions_default_def ColumnFamilyOptions.defs)
  then show "fs_inv demo_set"
    using BlobStorage_new_inv [of demo_options 0]
    by (simp add: fs_inv_def demo_set_families) (simp add: BlobStorage_new_def)
  then show "fs_fresh demo_set" "fs_short demo_set"
    by (simp_all add: fs_fresh_def fs_short_def demo_set_families BlobStorage_new_def)
qed

lemma demo_opened_logged: "\<exists>h. logged h demo_opened \<and> edit_adds_new h demo_opened demo_edit"
proof -
  have o: "OpenManifest demo_io 1 demo_set =
    (OK, demo_set\<lparr> manifest := Some (map VersionEdit_EncodeTo (snapshot_edits demo_set)), manifest_file_number := 1 \<rparr>)"
    by (simp add: OpenManifest_def WriteSnapshot_def demo_io_def status_ok_OK)
  have "logged (snapshot_edits demo_set) (snd (OpenManifest demo_io 1 demo_set))"
    using logged.opened [OF demo_fresh(2,3) o] by (simp add: o)
  moreover have n: "next_file_number (snd (OpenManifest demo_io 1 demo_set)) = 1"
    unfolding o by (simp add: demo_set_def AddColumnFamilies_def)
  ultimately have "logged (snapshot_edits demo_set) demo_opened"
    unfolding demo_opened_def by (intro logged.numbered) simp_all
  moreover have "hist_numbers (snapshot_edits demo_set) 0 = {}"
    by (auto simp: hist_numbers_def snapshot_edits_def demo_set_families BlobStorage_new_def live_metas_def
        SetColumnFamilyID_def VersionEdit_default_def)
  moreover have "GetBlobStorage 0 demo_opened \<noteq> None" "next_file_number demo_opened = 2"
    using n by (simp_all add: demo_opened_def NewFileNumber_def GetBlobStorage_def o demo_set_families)
  ultimately show ?thesis
    by (intro exI [of _ "snapshot_edits demo_set"])
      (simp add: edit_adds_new_def demo_edit_def ve_AddBlobFile_def SetColumnFamilyID_def
        BlobFileMeta_new_def is_obsolete_def keys_short_def VersionEdit_default_def)
qed

lemma demo_edit_applies: "fst (LogAndApply demo_io demo_edit demo_opened) = OK"
  by code_simp

definition demo_unsynced :: BlobFileSet where
  "demo_unsynced = snd (LogAndApply (demo_io\<lparr> io_sync := IOError [] \<rparr>) (drop_edit 0 9 (BlobStorage_new demo_options 0)) demo_edited)"

lemma demo_edited_logged: "\<exists>h. logged h demo_edited"
proof -
  obtain h where h: "logged h demo_opened" "edit_adds_new h demo_opened demo_edit"
    using demo_opened_logged by blast
  have "LogAndApply demo_io demo_edit demo_opened = (OK, demo_edited)"
    using demo_edit_applies by (simp add: demo_edited_def prod_eq_iff)
  with h show ?thesis by (blast intro: logged.edited)
qed

theorem recovery_restores_witness:
  "(\<exists>fs1. recover_edits (0, 0) (intact (the (manifest demo_edited))) demo_set = (OK, fs1) \<and>
     restores demo_edited demo_set fs1 \<and> fs_live demo_edited 0 1 \<noteq> None) \<and>
   column_families demo_unsynced = column_families demo_edited \<and>
   (\<exists>fs1. recover_edits (0, 0) (intact (the (manifest demo_unsynced))) demo_set = (OK, fs1))"
proof -
  obtain h where h: "logged h demo_edited" using demo_edited_logged by blast
  note r = recovery_restores [OF this demo_fresh(1), of "(0, 0)"]
  let ?e = "drop_edit 0 9 (BlobStorage_new demo_options 0)" and ?io = "demo_io\<lparr> io_sync := IOError [] \<rparr>"
  have "GetBlobStorage 0 demo_edited \<noteq> None" by code_simp
  then have e: "edit_adds_new h demo_edited ?e" using drop_edit_fields by (simp add: edit_adds_new_def)
  have l: "LogAndApply ?io ?e demo_edited = (fst (LogAndApply ?io ?e demo_edited), demo_unsynced)" by (simp add: demo_unsynced_def)
  have io: "io_sync ?io \<noteq> OK" by simp
  have "demo_unsynced\<lparr> manifest := manifest demo_edited \<rparr> = demo_edited"
    "\<exists>fs1. recover_edits (0, 0) (intact (the (manifest demo_unsynced))) demo_set = (OK, fs1)"
    using conjunct2 [OF r, rule_format, OF conjI [OF e conjI [OF io l]]] by blast+
  moreover have "column_families demo_unsynced = column_families (demo_unsynced\<lparr> manifest := manifest demo_edited \<rparr>)" by simp
  moreover have "fs_live demo_edited 0 1 \<noteq> None" by code_simp
  ultimately show ?thesis using conjunct1 [OF r] by metis
qed





end
