(* ===== verification/Base_Db.thy ===== *)
theory Base_Db
  imports Titan_Prelude
begin

text \<open>
  What Titan sees of the RocksDB database underneath: for one column family, a map from user keys to
  their newest version, a value in place or an encoded blob index; nothing if it is a deletion. A
  read at the latest sequence number or at a snapshot yields an entry, nothing, or an error.
\<close>

datatype lsm_entry = LsmValue bytes | LsmBlobIndex bytes

type_synonym lsm = "bytes \<Rightarrow> lsm_entry option"

datatype lsm_read = ReadError status | ReadEntry "lsm_entry option"

text \<open>A write batch of the job holds one entry.\<close>

datatype lsm_put = Put bytes bytes | PutBlobIndex bytes bytes

fun apply_put :: "lsm_put \<Rightarrow> lsm \<Rightarrow> lsm" where
  "apply_put (Put k v) db = db(k \<mapsto> LsmValue v)"
| "apply_put (PutBlobIndex k e) db = db(k \<mapsto> LsmBlobIndex e)"

text \<open>What other writers do: for the keys they write, the new entry, \<open>None\<close> for a deletion.\<close>

definition apply_foreign :: "(bytes \<Rightarrow> lsm_entry option option) \<Rightarrow> lsm \<Rightarrow> lsm" where
  "apply_foreign w db = (\<lambda>k. case w k of None \<Rightarrow> db k | Some e \<Rightarrow> e)"

end
