(* ===== verification/Blob_Gc.thy ===== *)
theory Blob_Gc
  imports Blob_Storage
begin

text \<open>
  \<open>src/blob_gc.cc\<close> and \<open>src/blob_gc_picker.cc\<close>: a garbage collection over some blob files, and the
  choice of the files. A shared pointer to a file is its number; the file is in the storage. The
  ticks recorded for statistics are left out.
\<close>

section \<open>Model\<close>

record BlobGC =
  gc_inputs :: "u64 list"
  gc_outputs :: "u64 list"
  gc_options :: TitanCFOptions
  gc_trigger_next :: bool

definition MarkFilesBeingGC :: "u64 list \<Rightarrow> BlobStorage \<Rightarrow> BlobStorage" where
  "MarkFilesBeingGC ns st = fold (\<lambda>n. update_file n (FileStateTransit kGCBegin)) ns st"

definition BlobGC_new :: "u64 list \<Rightarrow> TitanCFOptions \<Rightarrow> bool \<Rightarrow> BlobStorage \<Rightarrow> BlobGC \<times> BlobStorage" where
  "BlobGC_new blob_files opts need_trigger_next st =
     (\<lparr> gc_inputs = blob_files, gc_outputs = [], gc_options = opts, gc_trigger_next = need_trigger_next \<rparr>,
      MarkFilesBeingGC blob_files st)"

definition AddOutputFile :: "u64 \<Rightarrow> BlobGC \<Rightarrow> BlobGC" where
  "AddOutputFile n gc = gc\<lparr> gc_outputs := gc_outputs gc @ [n] \<rparr>"

definition ReleaseGcFiles :: "BlobGC \<Rightarrow> BlobStorage \<Rightarrow> BlobStorage" where
  "ReleaseGcFiles gc st = fold (\<lambda>n. update_file n (FileStateTransit kGCCompleted)) (gc_inputs gc @ gc_outputs gc) st"

text \<open>\<open>None\<close> is a null pointer; the assertion is checked first.\<close>

definition CheckBlobFile :: "BlobFileMeta option \<Rightarrow> status + bool" where
  "CheckBlobFile f =
     (case f of
        None \<Rightarrow> Inr False
      | Some f \<Rightarrow> if file_state f = kInit then Inl (Undefined ''assert'') else Inr (file_state f = kNormal))"

record PickState =
  pk_files :: "u64 list"
  pk_batch_size :: u64
  pk_estimate_output_size :: u64
  pk_stop_picking :: bool
  pk_maybe_continue :: bool
  pk_next_gc_size :: u64

text \<open>The loop over the scores. A file that is not found is dereferenced for the log message.\<close>

fun pick_loop :: "TitanCFOptions \<Rightarrow> BlobStorage \<Rightarrow> GCScore list \<Rightarrow> PickState \<Rightarrow> status + PickState" where
  "pick_loop opts st [] p = Inr p"
| "pick_loop opts st (s # ss) p =
     (if dbl_less (gcs_score s) (Fin (blob_file_discardable_ratio opts)) then Inr p
      else
        let blob_file = FindFile (gcs_file_number s) st in
        case CheckBlobFile blob_file of
          Inl e \<Rightarrow> Inl e
        | Inr False \<Rightarrow>
            if blob_file = None then Inl (Undefined ''null pointer'') else pick_loop opts st ss p
        | Inr True \<Rightarrow>
            let f = the blob_file in
            if \<not> pk_stop_picking p then
              let p = p\<lparr> pk_files := pk_files p @ [file_number f], pk_batch_size := pk_batch_size p + file_size f,
                         pk_estimate_output_size := pk_estimate_output_size p + live_data_size f \<rparr>
              in pick_loop opts st ss (if max_gc_batch_size opts \<le> pk_batch_size p then p\<lparr> pk_stop_picking := True \<rparr> else p)
            else
              let p = p\<lparr> pk_next_gc_size := pk_next_gc_size p + file_size f \<rparr>
              in if min_gc_batch_size opts < pk_next_gc_size p then Inr (p\<lparr> pk_maybe_continue := True \<rparr>)
                 else pick_loop opts st ss p)"

definition pick_start :: PickState where
  "pick_start = \<lparr> pk_files = [], pk_batch_size = 0, pk_estimate_output_size = 0, pk_stop_picking = False,
     pk_maybe_continue = False, pk_next_gc_size = 0 \<rparr>"

definition PickBlobGC :: "TitanCFOptions \<Rightarrow> BlobStorage \<Rightarrow> status + (BlobGC option \<times> BlobStorage)" where
  "PickBlobGC opts st =
     (case pick_loop opts st (gc_score st) pick_start of
        Inl e \<Rightarrow> Inl e
      | Inr p \<Rightarrow>
          if pk_files p = [] \<or> pk_batch_size p < min_gc_batch_size opts then Inr (None, st)
          else if length (pk_files p) = 1 \<and>
                  file_size (the (FindFile (hd (pk_files p)) st)) \<le> merge_small_file_threshold opts \<and>
                  dbl_less (GetDiscardableRatio (the (FindFile (hd (pk_files p)) st))) (Fin (blob_file_discardable_ratio opts))
          then Inr (None, st)
          else Inr (map_prod Some id (BlobGC_new (pk_files p) opts (pk_maybe_continue p) st)))"

section \<open>What is picked\<close>

text \<open>The candidates: the files in the order of their scores, down to the threshold, that are in normal use.\<close>

definition candidates :: "TitanCFOptions \<Rightarrow> BlobStorage \<Rightarrow> GCScore list \<Rightarrow> BlobFileMeta list" where
  "candidates opts st ss =
     filter (\<lambda>f. file_state f = kNormal)
       (map (\<lambda>s. the (FindFile (gcs_file_number s) st))
          (takeWhile (\<lambda>s. \<not> dbl_less (gcs_score s) (Fin (blob_file_discardable_ratio opts))) ss))"

text \<open>The files taken from the candidates when \<open>tot\<close> bytes have been taken already.\<close>

fun take_batch :: "u64 \<Rightarrow> u64 \<Rightarrow> BlobFileMeta list \<Rightarrow> BlobFileMeta list" where
  "take_batch limit tot [] = []"
| "take_batch limit tot (f # fs) =
     f # (if limit \<le> tot + file_size f then [] else take_batch limit (tot + file_size f) fs)"

definition sizes :: "BlobFileMeta list \<Rightarrow> u64" where
  "sizes fs = sum_list (map file_size fs)"

definition scores_ok :: "BlobStorage \<Rightarrow> GCScore list \<Rightarrow> bool" where
  "scores_ok st ss \<longleftrightarrow>
     (\<forall>s\<in>set ss. case FindFile (gcs_file_number s) st of
        None \<Rightarrow> False | Some f \<Rightarrow> file_state f \<noteq> kInit \<and> file_number f = gcs_file_number s)"

lemma pick_loop_stopped:
  assumes "scores_ok st ss" "pk_stop_picking p"
  shows "\<exists>q. pick_loop opts st ss p = Inr q \<and> pk_files q = pk_files p \<and> pk_batch_size q = pk_batch_size p"
  using assms
proof (induction ss arbitrary: p)
  case (Cons s ss)
  obtain f where f: "FindFile (gcs_file_number s) st = Some f" "file_state f \<noteq> kInit" using Cons.prems(1) by (auto simp: scores_ok_def split: option.splits)
  have ok: "scores_ok st ss" using Cons.prems(1) by (simp add: scores_ok_def)
  show ?case
    using Cons.IH [OF ok, of p] Cons.IH [OF ok, of "p\<lparr> pk_next_gc_size := pk_next_gc_size p + file_size f \<rparr>"] Cons.prems(2) f
    by (auto simp: CheckBlobFile_def Let_def split: bool.splits)
qed simp

lemma pick_loop_takes:
  assumes "scores_ok st ss" "\<not> pk_stop_picking p"
  shows "\<exists>q. pick_loop opts st ss p = Inr q \<and>
    pk_files q = pk_files p @ map file_number (take_batch (max_gc_batch_size opts) (pk_batch_size p) (candidates opts st ss)) \<and>
    pk_batch_size q = pk_batch_size p + sizes (take_batch (max_gc_batch_size opts) (pk_batch_size p) (candidates opts st ss))"
  using assms
proof (induction ss arbitrary: p)
  case Nil
  then show ?case by (simp add: candidates_def sizes_def)
next
  case (Cons s ss)
  obtain f where f: "FindFile (gcs_file_number s) st = Some f" "file_state f \<noteq> kInit" using Cons.prems(1) by (auto simp: scores_ok_def split: option.splits)
  have ok: "scores_ok st ss" using Cons.prems(1) by (simp add: scores_ok_def)
  let ?low = "dbl_less (gcs_score s) (Fin (blob_file_discardable_ratio opts))"
  let ?p = "p\<lparr> pk_files := pk_files p @ [file_number f], pk_batch_size := pk_batch_size p + file_size f,
               pk_estimate_output_size := pk_estimate_output_size p + live_data_size f \<rparr>"
  consider "?low" | "\<not> ?low" "file_state f \<noteq> kNormal"
    | "\<not> ?low" "file_state f = kNormal" "max_gc_batch_size opts \<le> pk_batch_size p + file_size f"
    | "\<not> ?low" "file_state f = kNormal" "\<not> max_gc_batch_size opts \<le> pk_batch_size p + file_size f" by blast
  then show ?case
  proof cases
    case 1
    then show ?thesis by (simp add: candidates_def sizes_def)
  next
    case 2
    then show ?thesis using Cons.IH [OF ok Cons.prems(2)] f by (simp add: candidates_def CheckBlobFile_def Let_def)
  next
    case 3
    then show ?thesis
      using pick_loop_stopped [OF ok, of "?p\<lparr> pk_stop_picking := True \<rparr>" opts] Cons.prems(2) f
      by (simp add: candidates_def CheckBlobFile_def Let_def sizes_def)
  next
    case 4
    then show ?thesis
      using Cons.IH [OF ok, of ?p] Cons.prems(2) f
      by (simp add: candidates_def CheckBlobFile_def Let_def sizes_def add.assoc)
  qed
qed

lemma take_batch_prefix: "\<exists>rest. fs = take_batch limit tot fs @ rest"
  by (induction limit tot fs rule: take_batch.induct) auto

lemma take_batch_below:
  "take_batch limit tot fs = pre @ f # g # post \<Longrightarrow> tot + sizes (pre @ [f]) < limit"
proof (induction limit tot fs arbitrary: pre rule: take_batch.induct)
  case (2 limit tot h fs)
  then show ?case
    by (cases pre) (auto simp: sizes_def add.assoc not_le split: if_splits)
qed simp

lemma take_batch_stops:
  "fs = take_batch limit tot fs @ r # rest \<Longrightarrow> limit \<le> tot + sizes (take_batch limit tot fs)"
proof (induction limit tot fs rule: take_batch.induct)
  case (2 limit tot h fs)
  then show ?case by (auto simp: sizes_def add.assoc split: if_splits)
qed simp

lemma candidates_found:
  assumes "scores_ok st ss" "f \<in> set (candidates opts st ss)"
  shows "FindFile (file_number f) st = Some f \<and> file_state f = kNormal"
proof -
  obtain s where "s \<in> set ss" "f = the (FindFile (gcs_file_number s) st)" "file_state f = kNormal"
    using assms(2) by (auto simp: candidates_def dest: set_takeWhileD)
  then show ?thesis using assms(1) by (auto simp: scores_ok_def split: option.splits)
qed

lemma FindFile_MarkFilesBeingGC:
  "FindFile n (MarkFilesBeingGC ns st) =
     (if n \<in> set ns then map_option (FileStateTransit kGCBegin) (FindFile n st) else FindFile n st)"
proof (induction ns arbitrary: st)
  case (Cons m ns)
  have "FileStateTransit kGCBegin (FileStateTransit kGCBegin f) = FileStateTransit kGCBegin f" for f
    by (simp add: FileStateTransit_def transit_def)
  then show ?case using Cons
    by (simp add: MarkFilesBeingGC_def update_file_def FindFile_def map_of_upd option.map_comp o_def)
qed (simp add: MarkFilesBeingGC_def)

section \<open>Properties\<close>

text \<open>
  C34: the choice of files. With scores of known files, picking succeeds. If it starts a garbage
  collection, its inputs are the first candidates, by decreasing score: as few as reach the maximal
  batch size, or all of them; together they have the minimal batch size. Every input was in normal
  use and is now being collected, and no other file changes.
\<close>

theorem pick_blob_gc:
  assumes "scores_ok st (gc_score st)"
  shows "\<exists>r st'. PickBlobGC opts st = Inr (r, st') \<and>
    (case r of
       None \<Rightarrow> st' = st
     | Some gc \<Rightarrow>
         \<exists>fs rest. candidates opts st (gc_score st) = fs @ rest \<and> fs \<noteq> [] \<and> gc_inputs gc = map file_number fs \<and> gc_outputs gc = [] \<and>
           min_gc_batch_size opts \<le> sizes fs \<and> (rest \<noteq> [] \<longrightarrow> max_gc_batch_size opts \<le> sizes fs) \<and>
           (\<forall>pre f g post. fs = pre @ f # g # post \<longrightarrow> sizes (pre @ [f]) < max_gc_batch_size opts) \<and>
           (\<forall>n. FindFile n st' = (if n \<in> set (gc_inputs gc) then map_option (\<lambda>f. f\<lparr> file_state := kBeingGC \<rparr>) (FindFile n st) else FindFile n st)) \<and>
           (\<forall>f\<in>set fs. FindFile (file_number f) st = Some f \<and> file_state f = kNormal))"
proof -
  define cs where "cs = candidates opts st (gc_score st)"
  define fs where "fs = take_batch (max_gc_batch_size opts) 0 cs"
  obtain p where p: "pick_loop opts st (gc_score st) pick_start = Inr p" "pk_files p = map file_number fs" "pk_batch_size p = sizes fs"
    using pick_loop_takes [OF assms, of pick_start opts] by (auto simp: pick_start_def fs_def cs_def)
  obtain rest where rest: "cs = fs @ rest" using take_batch_prefix [of cs] unfolding fs_def by blast
  have st: "FileStateTransit kGCBegin = (\<lambda>f. f\<lparr> file_state := kBeingGC \<rparr>)"
    by (simp add: FileStateTransit_def transit_def fun_eq_iff)
  have found: "\<forall>f\<in>set fs. FindFile (file_number f) st = Some f \<and> file_state f = kNormal"
    using candidates_found [OF assms, of _ opts] rest unfolding cs_def by auto
  have max: "max_gc_batch_size opts \<le> sizes fs" if "rest \<noteq> []"
    using take_batch_stops [of cs "max_gc_batch_size opts" 0 "hd rest" "tl rest"] rest that unfolding fs_def by simp
  have below: "sizes (pre @ [f]) < max_gc_batch_size opts" if "fs = pre @ f # g # post" for pre f g post
    using take_batch_below [of "max_gc_batch_size opts" 0 cs pre f g post] that unfolding fs_def by simp
  show ?thesis
  proof (cases "\<exists>st'. PickBlobGC opts st = Inr (None, st')")
    case True
    then show ?thesis using p(1) by (auto simp: PickBlobGC_def BlobGC_new_def split: if_splits)
  next
    case False
    then have r: "PickBlobGC opts st = Inr (map_prod Some id (BlobGC_new (map file_number fs) opts (pk_maybe_continue p) st))"
      and ne: "fs \<noteq> []" and min: "min_gc_batch_size opts \<le> sizes fs"
      using p by (auto simp: PickBlobGC_def not_less split: if_splits)
    let ?gc = "fst (BlobGC_new (map file_number fs) opts (pk_maybe_continue p) st)"
    let ?st' = "snd (BlobGC_new (map file_number fs) opts (pk_maybe_continue p) st)"
    have r': "PickBlobGC opts st = Inr (Some ?gc, ?st')" using r by (simp add: BlobGC_new_def)
    have "FindFile n ?st' = (if n \<in> set (gc_inputs ?gc) then map_option (\<lambda>f. f\<lparr> file_state := kBeingGC \<rparr>) (FindFile n st) else FindFile n st)" for n
      by (simp add: BlobGC_new_def FindFile_MarkFilesBeingGC st)
    moreover have "gc_inputs ?gc = map file_number fs" "gc_outputs ?gc = []" by (simp_all add: BlobGC_new_def)
    moreover have "cs = fs @ rest" by (rule rest)
    ultimately have "\<exists>rest. candidates opts st (gc_score st) = fs @ rest \<and> fs \<noteq> [] \<and> gc_inputs ?gc = map file_number fs \<and> gc_outputs ?gc = [] \<and>
        min_gc_batch_size opts \<le> sizes fs \<and> (rest \<noteq> [] \<longrightarrow> max_gc_batch_size opts \<le> sizes fs) \<and>
        (\<forall>pre f g post. fs = pre @ f # g # post \<longrightarrow> sizes (pre @ [f]) < max_gc_batch_size opts) \<and>
        (\<forall>n. FindFile n ?st' = (if n \<in> set (gc_inputs ?gc) then map_option (\<lambda>f. f\<lparr> file_state := kBeingGC \<rparr>) (FindFile n st) else FindFile n st)) \<and>
        (\<forall>f\<in>set fs. FindFile (file_number f) st = Some f \<and> file_state f = kNormal)"
      using ne min max below found unfolding cs_def by (intro exI [of _ rest]) simp
    then show ?thesis using r' by (intro exI [of _ "Some ?gc"] exI [of _ ?st'] conjI) (assumption, simp only: option.case, rule exI [of _ fs])
  qed
qed

definition demo_normal :: BlobStorage where
  "demo_normal = InitializeAllFiles demo_storage"

definition demo_gc_options :: TitanCFOptions where
  "demo_gc_options = demo_options\<lparr> min_gc_batch_size := 1, max_gc_batch_size := 1, merge_small_file_threshold := 0,
     blob_file_discardable_ratio := 0 \<rparr>"

theorem pick_blob_gc_witness:
  "\<exists>gc st' f. PickBlobGC demo_gc_options demo_normal = Inr (Some gc, st') \<and> gc_inputs gc = [file_number f] \<and>
     FindFile (file_number f) st' = Some (f\<lparr> file_state := kBeingGC \<rparr>)"
proof -
  have ok: "scores_ok demo_normal (gc_score demo_normal)" by code_simp
  have "map_sum id (map_option gc_inputs \<circ> fst) (PickBlobGC demo_gc_options demo_normal) = Inr (Some [1])" by code_simp
  then obtain gc st' where gc: "PickBlobGC demo_gc_options demo_normal = Inr (Some gc, st')" "gc_inputs gc = [1]"
    by (cases "PickBlobGC demo_gc_options demo_normal") auto
  then obtain f where "FindFile 1 st' = map_option (\<lambda>f. f\<lparr> file_state := kBeingGC \<rparr>) (FindFile 1 demo_normal)" "file_number f = 1"
    "FindFile 1 demo_normal = Some f"
    using pick_blob_gc [OF ok, of demo_gc_options] by (fastforce simp: Cons_eq_append_conv)
  then show ?thesis using gc by (intro exI [of _ gc] exI [of _ st'] exI [of _ f]) simp
qed

end
