(* ===== verification/Blob_File_Builder.thy ===== *)
theory Blob_File_Builder
  imports Blob_Format Titan_Options
begin

text \<open>
  \<open>src/blob_file_builder.{h,cc}\<close>: writing a blob file. The record \<open>BuilderLib\<close> holds what the
  builder calls outside the sources of Titan: the compression library, the training of a
  dictionary, the encoding of a meta index block by RocksDB's table code, and the outcome of each
  operation on the file, by its number. An append that fails leaves the file as it was, as
  \<open>WritableFileWriter::Append\<close> leaves its size. Contexts handed out through \<open>OutContexts\<close> are
  returned as a list.
\<close>

section \<open>Model\<close>

record BuilderLib =
  lib_compress :: "bytes \<Rightarrow> byte \<Rightarrow> bytes \<Rightarrow> bytes option"
  lib_train :: "bytes \<Rightarrow> nat list \<Rightarrow> u32 \<Rightarrow> bytes"
  lib_meta_index :: "(string \<times> BlockHandle) list \<Rightarrow> bytes"
  lib_zstd_old :: bool
  lib_io :: "nat \<Rightarrow> status"

record WritableFile =
  wf_contents :: bytes
  wf_ops :: nat

definition GetFileSize :: "WritableFile \<Rightarrow> u64" where
  "GetFileSize f = of_nat (length (wf_contents f))"

definition Append :: "BuilderLib \<Rightarrow> bytes \<Rightarrow> WritableFile \<Rightarrow> status \<times> WritableFile" where
  "Append lib data f =
     (let s = lib_io lib (wf_ops f)
      in (s, f\<lparr> wf_contents := (if s = OK then wf_contents f @ data else wf_contents f), wf_ops := wf_ops f + 1 \<rparr>))"

definition Flush :: "BuilderLib \<Rightarrow> WritableFile \<Rightarrow> status \<times> WritableFile" where
  "Flush lib f = (lib_io lib (wf_ops f), f\<lparr> wf_ops := wf_ops f + 1 \<rparr>)"

datatype BuilderState = kBuffered | kUnbuffered

record BlobRecordContext =
  ctx_key :: bytes
  ctx_original_blob_index :: BlobIndex
  ctx_new_blob_index :: BlobIndex
  ctx_has_value :: bool
  ctx_value :: bytes

definition set_handle :: "BlobHandle \<Rightarrow> BlobRecordContext \<Rightarrow> BlobRecordContext" where
  "set_handle h c = c\<lparr> ctx_new_blob_index := (ctx_new_blob_index c)\<lparr> bi_blob_handle := h \<rparr> \<rparr>"

record BlobFileBuilder =
  bb_state :: BuilderState
  bb_options :: TitanCFOptions
  bb_file :: WritableFile
  bb_version :: u32
  bb_status :: status
  bb_dict :: "bytes option"
  bb_sample_records :: "bytes list"
  bb_sample_str_len :: u64
  bb_cached_contexts :: "BlobRecordContext list"
  bb_num_entries :: u64
  bb_smallest_key :: bytes
  bb_largest_key :: bytes
  bb_live_data_size :: u64

definition uses_dict :: "BlobFileBuilder \<Rightarrow> bool" where
  "uses_dict b \<longleftrightarrow> 0 < max_dict_bytes (blob_file_compression_options (bb_options b))"

definition WriteHeader :: "BuilderLib \<Rightarrow> BlobFileBuilder \<Rightarrow> BlobFileBuilder" where
  "WriteHeader lib b =
     (if uses_dict b \<and> bb_version b \<noteq> kVersion2 then b\<lparr> bb_status := Undefined ''assert'' \<rparr>
      else
        let header = \<lparr> hdr_version = bb_version b,
                       hdr_flags = (if uses_dict b then 0 OR kHasUncompressionDictionary else 0) \<rparr>;
            (s, f) = Append lib (BlobFileHeader_EncodeTo header) (bb_file b)
        in b\<lparr> bb_status := s, bb_file := f \<rparr>)"

definition BlobFileBuilder_new :: "BuilderLib \<Rightarrow> TitanCFOptions \<Rightarrow> WritableFile \<Rightarrow> u32 \<Rightarrow> BlobFileBuilder" where
  "BlobFileBuilder_new lib cf_options f blob_file_version =
     (let b = \<lparr> bb_state = (if 0 < max_dict_bytes (blob_file_compression_options cf_options) then kBuffered else kUnbuffered),
                bb_options = cf_options, bb_file = f, bb_version = blob_file_version,
                bb_status = ValidateVersion blob_file_version, bb_dict = None,
                bb_sample_records = [], bb_sample_str_len = 0, bb_cached_contexts = [], bb_num_entries = 0,
                bb_smallest_key = [], bb_largest_key = [], bb_live_data_size = 0 \<rparr>
      in if bb_status b \<noteq> OK then b
         else if uses_dict b then
           let b = (if blob_file_version \<noteq> kVersion2
                    then b\<lparr> bb_status := NotSupported ''dictionary comparession is not supported by blob file version 1'' \<rparr>
                    else b)
           in if lib_zstd_old lib then b\<lparr> bb_status := NotSupported ''ZSTD version too old.'' \<rparr>
              else WriteHeader lib b
         else WriteHeader lib b)"

definition encode_slice :: "BuilderLib \<Rightarrow> BlobFileBuilder \<Rightarrow> bytes \<Rightarrow> BlobEncoder" where
  "encode_slice lib b input =
     EncodeSlice (lib_compress lib (case bb_dict b of None \<Rightarrow> [] | Some d \<Rightarrow> d)) (blob_file_compression (bb_options b)) input"

definition WriteEncoderData :: "BuilderLib \<Rightarrow> BlobEncoder \<Rightarrow> BlobFileBuilder \<Rightarrow> BlobHandle \<times> BlobFileBuilder" where
  "WriteEncoderData lib e b =
     (let h = \<lparr> bh_offset = GetFileSize (bb_file b), bh_size = of_nat (GetEncodedSize e), bh_index = bb_num_entries b \<rparr>;
          b = b\<lparr> bb_live_data_size := bb_live_data_size b + bh_size h \<rparr>;
          (s, f) = Append lib (enc_header e) (bb_file b);
          b = b\<lparr> bb_status := s, bb_file := f \<rparr>
      in if s = OK then
           let (s, f) = Append lib (enc_record e) (bb_file b)
           in (h, b\<lparr> bb_status := s, bb_file := f, bb_num_entries := bb_num_entries b + 1 \<rparr>)
         else (h, b))"

text \<open>
  The loop of \<open>FlushSampleRecords\<close>: the samples left, the contexts left, the contexts handed out.
  Running out of contexts is an access past the end of the vector.
\<close>

fun flush_loop ::
    "BuilderLib \<Rightarrow> bytes list \<Rightarrow> BlobRecordContext list \<Rightarrow> BlobFileBuilder \<Rightarrow> BlobFileBuilder \<times> BlobRecordContext list" where
  "flush_loop lib [] ctxs b =
     (if list_all ctx_has_value ctxs then (b, ctxs) else (b\<lparr> bb_status := Undefined ''assert'' \<rparr>, ctxs))"
| "flush_loop lib (record_str # ss) ctxs b =
     (let small = takeWhile ctx_has_value ctxs
      in case dropWhile ctx_has_value ctxs of
           [] \<Rightarrow> (b\<lparr> bb_status := Undefined ''no context for a sample'' \<rparr>, small)
         | c # cs \<Rightarrow>
             let (h, b) = WriteEncoderData lib (encode_slice lib b record_str) b;
                 (b, out) = flush_loop lib ss cs b
             in (b, small @ set_handle h c # out))"

definition FlushSampleRecords :: "BuilderLib \<Rightarrow> BlobFileBuilder \<Rightarrow> BlobFileBuilder \<times> BlobRecordContext list" where
  "FlushSampleRecords lib b =
     (let (b, out) = flush_loop lib (bb_sample_records b) (bb_cached_contexts b) b
      in (b\<lparr> bb_sample_records := [], bb_sample_str_len := 0, bb_cached_contexts := [] \<rparr>, out))"

definition EnterUnbuffered :: "BuilderLib \<Rightarrow> BlobFileBuilder \<Rightarrow> BlobFileBuilder \<times> BlobRecordContext list" where
  "EnterUnbuffered lib b =
     (let dict = lib_train lib (concat (bb_sample_records b)) (map length (bb_sample_records b))
                   (max_dict_bytes (blob_file_compression_options (bb_options b)));
          (b, out) = FlushSampleRecords lib (b\<lparr> bb_dict := Some dict \<rparr>)
      in (b\<lparr> bb_state := kUnbuffered \<rparr>, out))"

definition update_keys :: "bytes \<Rightarrow> BlobFileBuilder \<Rightarrow> BlobFileBuilder" where
  "update_keys key b =
     (let cmp = opt_comparator (bb_options b);
          b = (if bb_smallest_key b = [] \<or> cmp key (bb_smallest_key b) < 0 then b\<lparr> bb_smallest_key := key \<rparr> else b)
      in if bb_largest_key b = [] \<or> 0 < cmp key (bb_largest_key b) then b\<lparr> bb_largest_key := key \<rparr> else b)"

definition bb_Add ::
    "BuilderLib \<Rightarrow> BlobRecord \<Rightarrow> BlobRecordContext \<Rightarrow> BlobFileBuilder \<Rightarrow> BlobFileBuilder \<times> BlobRecordContext list" where
  "bb_Add lib rec ctx b =
     (if bb_status b \<noteq> OK then (b, [])
      else
        let (b, out) =
          (if bb_state b = kBuffered then
             let record_str = BlobRecord_EncodeTo rec;
                 b = b\<lparr> bb_sample_records := bb_sample_records b @ [record_str],
                        bb_sample_str_len := bb_sample_str_len b + of_nat (length record_str),
                        bb_cached_contexts := bb_cached_contexts b @ [ctx] \<rparr>;
                 train = zstd_max_train_bytes (blob_file_compression_options (bb_options b))
             in if 0 < train \<and> ucast train \<le> bb_sample_str_len b then EnterUnbuffered lib b else (b, [])
           else
             let (h, b) = WriteEncoderData lib (encode_slice lib b (BlobRecord_EncodeTo rec)) b
             in (b, [set_handle h ctx]))
        in (update_keys (rec_key rec) b, out))"

definition bb_AddSmall :: "BlobRecordContext \<Rightarrow> BlobFileBuilder \<Rightarrow> BlobFileBuilder" where
  "bb_AddSmall ctx b = b\<lparr> bb_cached_contexts := bb_cached_contexts b @ [ctx] \<rparr>"

definition WriteRawBlock :: "BuilderLib \<Rightarrow> bytes \<Rightarrow> BlobFileBuilder \<Rightarrow> BlockHandle \<times> BlobFileBuilder" where
  "WriteRawBlock lib block b =
     (let h = \<lparr> blk_offset = GetFileSize (bb_file b), blk_size = of_nat (length block) \<rparr>;
          (s, f) = Append lib block (bb_file b);
          b = b\<lparr> bb_status := s, bb_file := f \<rparr>
      in if s = OK then
           let crc = Extend (crc32c_Value block) [kNoCompression];
               (s, f) = Append lib ([kNoCompression] @ EncodeFixed32 (Mask crc)) (bb_file b)
           in (h, b\<lparr> bb_status := s, bb_file := f \<rparr>)
         else (h, b))"

definition kCompressionDictBlockName :: string where
  "kCompressionDictBlockName = ''rocksdb.compression_dict''"

text \<open>The result is the entries of the meta index builder.\<close>

definition WriteCompressionDictBlock ::
    "BuilderLib \<Rightarrow> BlobFileBuilder \<Rightarrow> (string \<times> BlockHandle) list \<times> BlobFileBuilder" where
  "WriteCompressionDictBlock lib b =
     (case bb_dict b of
        None \<Rightarrow> ([], b\<lparr> bb_status := Undefined ''null compression_dict_'' \<rparr>)
      | Some dict \<Rightarrow>
          let (h, b) = WriteRawBlock lib dict b
          in (if bb_status b = OK then [(kCompressionDictBlockName, h)] else [], b))"

definition bb_Finish :: "BuilderLib \<Rightarrow> BlobFileBuilder \<Rightarrow> BlobFileBuilder \<times> BlobRecordContext list" where
  "bb_Finish lib b =
     (if bb_status b \<noteq> OK then (b, [])
      else
        let (b, out) = (if bb_state b = kBuffered then EnterUnbuffered lib b else (b, []));
            (footer, b) =
              (if uses_dict b then
                 let (entries, b) = WriteCompressionDictBlock lib b;
                     (h, b) = WriteRawBlock lib (lib_meta_index lib entries) b
                 in (\<lparr> meta_index_handle = h \<rparr>, b)
               else (\<lparr> meta_index_handle = NullBlockHandle \<rparr>, b));
            (s, f) = Append lib (BlobFileFooter_EncodeTo footer) (bb_file b);
            (s, f) = (if s = OK then Flush lib f else (s, f))
        in (b\<lparr> bb_status := s, bb_file := f \<rparr>, out))"

definition bb_Abandon :: "BlobFileBuilder \<Rightarrow> BlobFileBuilder" where
  "bb_Abandon b = b"

section \<open>What a builder writes\<close>

text \<open>A record as it stands in the file, and the handles of consecutive records.\<close>

definition framed :: "BuilderLib \<Rightarrow> bytes option \<Rightarrow> byte \<Rightarrow> bytes \<Rightarrow> bytes" where
  "framed lib dict t s =
     (let e = EncodeSlice (lib_compress lib (case dict of None \<Rightarrow> [] | Some d \<Rightarrow> d)) t s in enc_header e @ enc_record e)"

fun handles :: "nat \<Rightarrow> nat \<Rightarrow> bytes list \<Rightarrow> BlobHandle list" where
  "handles off i [] = []"
| "handles off i (w # ws) =
     \<lparr> bh_offset = of_nat off, bh_size = of_nat (length w), bh_index = of_nat i \<rparr> # handles (off + length w) (i + 1) ws"

text \<open>The contexts in the order they came in, those without a value given the handles in turn.\<close>

fun fill :: "BlobRecordContext list \<Rightarrow> BlobHandle list \<Rightarrow> BlobRecordContext list" where
  "fill [] hs = []"
| "fill (c # cs) hs =
     (if ctx_has_value c then c # fill cs hs
      else case hs of [] \<Rightarrow> c # fill cs [] | h # hs' \<Rightarrow> set_handle h c # fill cs hs')"

abbreviation blob_ctxs :: "BlobRecordContext list \<Rightarrow> BlobRecordContext list" where
  "blob_ctxs cs \<equiv> filter (\<lambda>c. \<not> ctx_has_value c) cs"

lemma handles_append: "handles off i (ws @ us) = handles off i ws @ handles (off + length (concat ws)) (i + length ws) us"
  by (induction off i ws rule: handles.induct) (simp_all add: add.assoc)

lemma length_handles [simp]: "length (handles off i ws) = length ws"
  by (induction off i ws rule: handles.induct) simp_all

lemma fill_values: "list_all ctx_has_value cs \<Longrightarrow> fill cs hs = cs"
  by (induction cs) simp_all

lemma fill_append:
  "length (blob_ctxs cs) = length hs \<Longrightarrow> fill (cs @ cs') (hs @ hs') = fill cs hs @ fill cs' hs'"
  by (induction cs hs rule: fill.induct) (auto split: list.splits if_splits)

lemma fill_split:
  "dropWhile ctx_has_value cs = c # cs' \<Longrightarrow>
   fill cs (h # hs) = takeWhile ctx_has_value cs @ set_handle h c # fill cs' hs"
  by (induction cs) (auto split: if_splits)

lemma blob_ctxs_split:
  "dropWhile ctx_has_value cs = c # cs' \<Longrightarrow> length (blob_ctxs cs) = Suc (length (blob_ctxs cs'))"
  by (induction cs) (auto split: if_splits)

definition io_ok :: "BuilderLib \<Rightarrow> bool" where
  "io_ok lib \<longleftrightarrow> (\<forall>n. lib_io lib n = OK)"

definition b_framed :: "BuilderLib \<Rightarrow> BlobFileBuilder \<Rightarrow> bytes \<Rightarrow> bytes" where
  "b_framed lib b = framed lib (bb_dict b) (blob_file_compression (bb_options b))"

text \<open>The file of a builder that has written the record strings \<open>ss\<close> after the header \<open>hdr\<close>.\<close>

definition bb_written :: "BuilderLib \<Rightarrow> bytes \<Rightarrow> BlobFileBuilder \<Rightarrow> bytes list \<Rightarrow> bool" where
  "bb_written lib hdr b ss \<longleftrightarrow>
     bb_status b = OK \<and> wf_contents (bb_file b) = hdr @ concat (map (b_framed lib b) ss) \<and>
     bb_num_entries b = of_nat (length ss) \<and> bb_live_data_size b = of_nat (length (concat (map (b_framed lib b) ss)))"

text \<open>A builder after writing: only the file, its counters and the status differ.\<close>

definition wrote :: "BlobFileBuilder \<Rightarrow> BlobFileBuilder \<Rightarrow> bool" where
  "wrote b b' \<longleftrightarrow> b' = b\<lparr> bb_status := bb_status b', bb_file := bb_file b', bb_num_entries := bb_num_entries b',
                         bb_live_data_size := bb_live_data_size b' \<rparr>"

lemma wrote_refl: "wrote b b"
  by (simp add: wrote_def)

lemma wrote_trans: "\<lbrakk>wrote a b; wrote b c\<rbrakk> \<Longrightarrow> wrote a c"
  by (cases a; cases b; cases c) (simp add: wrote_def)

lemma wrote_fields:
  assumes "wrote b b'"
  shows "bb_dict b' = bb_dict b" "bb_options b' = bb_options b" "bb_state b' = bb_state b" "bb_version b' = bb_version b"
    "bb_cached_contexts b' = bb_cached_contexts b" "bb_sample_records b' = bb_sample_records b"
    "bb_smallest_key b' = bb_smallest_key b" "bb_largest_key b' = bb_largest_key b" "b_framed lib b' = b_framed lib b"
  using assms by (cases b; cases b'; simp add: wrote_def b_framed_def fun_eq_iff)+

lemma WriteEncoderData_ok:
  assumes "io_ok lib" "bb_written lib hdr b ss"
  shows "\<exists>b'. WriteEncoderData lib (encode_slice lib b s) b =
      (\<lparr> bh_offset = of_nat (length hdr + length (concat (map (b_framed lib b) ss))),
         bh_size = of_nat (length (b_framed lib b s)), bh_index = of_nat (length ss) \<rparr>, b') \<and>
    bb_written lib hdr b' (ss @ [s]) \<and> wrote b b'"
  using assms
  by (simp add: WriteEncoderData_def Append_def io_ok_def Let_def bb_written_def wrote_def GetFileSize_def
      GetEncodedSize_def encode_slice_def b_framed_def framed_def)

lemma flush_loop_ok:
  assumes "io_ok lib" "bb_written lib hdr b ss" "length (blob_ctxs ctxs) = length samples"
  shows "\<exists>b'. flush_loop lib samples ctxs b =
      (b', fill ctxs (handles (length hdr + length (concat (map (b_framed lib b) ss))) (length ss) (map (b_framed lib b) samples))) \<and>
    bb_written lib hdr b' (ss @ samples) \<and> wrote b b'"
  using assms(2,3)
proof (induction samples arbitrary: ctxs b ss)
  case Nil
  then have "list_all ctx_has_value ctxs" by (auto simp: list_all_iff filter_empty_conv)
  then show ?case using Nil by (simp add: fill_values wrote_refl)
next
  case (Cons s samples)
  obtain c cs where c: "dropWhile ctx_has_value ctxs = c # cs"
    using Cons.prems(2) by (cases "dropWhile ctx_has_value ctxs") (auto simp: dropWhile_eq_Nil_conv filter_empty_conv [symmetric])
  obtain b1 where b1: "WriteEncoderData lib (encode_slice lib b s) b =
      (\<lparr> bh_offset = of_nat (length hdr + length (concat (map (b_framed lib b) ss))),
         bh_size = of_nat (length (b_framed lib b s)), bh_index = of_nat (length ss) \<rparr>, b1)"
    "bb_written lib hdr b1 (ss @ [s])" "wrote b b1"
    using WriteEncoderData_ok [OF assms(1) Cons.prems(1)] by blast
  have "length (blob_ctxs cs) = length samples" using blob_ctxs_split [OF c] Cons.prems(2) by simp
  from Cons.IH [OF b1(2) this] b1 show ?case
    by (auto simp: c fill_split [OF c] wrote_fields(9) [OF b1(3)] add.assoc intro: wrote_trans)
qed

lemma EnterUnbuffered_ok:
  assumes "io_ok lib" "wf_contents (bb_file b) = hdr" "bb_status b = OK" "bb_num_entries b = 0" "bb_live_data_size b = 0"
    "length (blob_ctxs (bb_cached_contexts b)) = length (bb_sample_records b)"
  shows "\<exists>b' dict. EnterUnbuffered lib b =
      (b', fill (bb_cached_contexts b) (handles (length hdr) 0 (map (b_framed lib b') (bb_sample_records b)))) \<and>
    bb_written lib hdr b' (bb_sample_records b) \<and> bb_state b' = kUnbuffered \<and> bb_cached_contexts b' = [] \<and>
    bb_sample_records b' = [] \<and> bb_options b' = bb_options b \<and> bb_version b' = bb_version b \<and> bb_dict b' = Some dict \<and>
    bb_smallest_key b' = bb_smallest_key b \<and> bb_largest_key b' = bb_largest_key b"
proof -
  define d where "d = lib_train lib (concat (bb_sample_records b)) (map length (bb_sample_records b))
                   (max_dict_bytes (blob_file_compression_options (bb_options b)))"
  let ?b = "b\<lparr> bb_dict := Some d \<rparr>"
  have "bb_written lib hdr ?b []" using assms by (simp add: bb_written_def)
  from flush_loop_ok [OF assms(1) this, of "bb_cached_contexts b" "bb_sample_records b"] assms(6)
  obtain b1 where b1: "flush_loop lib (bb_sample_records b) (bb_cached_contexts b) ?b =
      (b1, fill (bb_cached_contexts b) (handles (length hdr) 0 (map (b_framed lib ?b) (bb_sample_records b))))"
    "bb_written lib hdr b1 (bb_sample_records b)" "wrote ?b b1"
    by auto
  let ?b' = "b1\<lparr> bb_sample_records := [], bb_sample_str_len := 0, bb_cached_contexts := [], bb_state := kUnbuffered \<rparr>"
  have e: "EnterUnbuffered lib b =
      (?b', fill (bb_cached_contexts b) (handles (length hdr) 0 (map (b_framed lib ?b) (bb_sample_records b))))"
    unfolding EnterUnbuffered_def Let_def d_def [symmetric] FlushSampleRecords_def using b1(1) by simp
  have f: "b_framed lib ?b' = b_framed lib b1" by (simp add: b_framed_def fun_eq_iff)
  then have "bb_written lib hdr ?b' (bb_sample_records b)" using b1(2) by (simp add: bb_written_def)
  then show ?thesis
    using e f wrote_fields [OF b1(3)] by auto
qed

section \<open>Runs of a builder\<close>

definition builder_header :: "TitanCFOptions \<Rightarrow> u32 \<Rightarrow> BlobFileHeader" where
  "builder_header opts ver =
     \<lparr> hdr_version = ver,
       hdr_flags = (if 0 < max_dict_bytes (blob_file_compression_options opts) then kHasUncompressionDictionary else 0) \<rparr>"

definition builder_supported :: "BuilderLib \<Rightarrow> TitanCFOptions \<Rightarrow> u32 \<Rightarrow> bool" where
  "builder_supported lib opts ver \<longleftrightarrow>
     (if 0 < max_dict_bytes (blob_file_compression_options opts) then ver = kVersion2 \<and> \<not> lib_zstd_old lib
      else ver = kVersion1 \<or> ver = kVersion2)"

text \<open>
  The calls a client makes before \<open>Finish\<close>: records with a context that has no value, and small pairs
  with one that has. The arguments are the builder, the records so far, the contexts so far that
  are to be handed out, and those handed out. A small pair that comes when the builder no longer
  buffers is put with the cached contexts, which nothing reads any more: its context is lost
  (the table builder gives such pairs to the base table instead).
\<close>

inductive bb_reach ::
    "BuilderLib \<Rightarrow> TitanCFOptions \<Rightarrow> u32 \<Rightarrow> BlobFileBuilder \<Rightarrow> BlobRecord list \<Rightarrow> BlobRecordContext list \<Rightarrow> BlobRecordContext list \<Rightarrow> bool"
  for lib opts ver where
  bb_start: "bb_reach lib opts ver (BlobFileBuilder_new lib opts \<lparr> wf_contents = [], wf_ops = 0 \<rparr> ver) [] [] []"
| bb_add: "\<lbrakk>bb_reach lib opts ver b rs cs out; \<not> ctx_has_value c; bb_Add lib r c b = (b', o1)\<rbrakk>
    \<Longrightarrow> bb_reach lib opts ver b' (rs @ [r]) (cs @ [c]) (out @ o1)"
| bb_small: "\<lbrakk>bb_reach lib opts ver b rs cs out; ctx_has_value c; bb_state b = kBuffered\<rbrakk>
    \<Longrightarrow> bb_reach lib opts ver (bb_AddSmall c b) rs (cs @ [c]) out"
| bb_small_lost: "\<lbrakk>bb_reach lib opts ver b rs cs out; ctx_has_value c; bb_state b = kUnbuffered\<rbrakk>
    \<Longrightarrow> bb_reach lib opts ver (bb_AddSmall c b) rs cs out"

definition bb_inv ::
    "BuilderLib \<Rightarrow> TitanCFOptions \<Rightarrow> u32 \<Rightarrow> BlobFileBuilder \<Rightarrow> BlobRecord list \<Rightarrow> BlobRecordContext list \<Rightarrow> BlobRecordContext list \<Rightarrow> bool" where
  "bb_inv lib opts ver b rs cs out \<longleftrightarrow>
     (let hdr = BlobFileHeader_EncodeTo (builder_header opts ver); ss = map BlobRecord_EncodeTo rs in
      bb_options b = opts \<and> bb_version b = ver \<and> length (blob_ctxs cs) = length rs \<and>
      (case bb_state b of
         kBuffered \<Rightarrow>
           bb_written lib hdr b [] \<and> bb_sample_records b = ss \<and> bb_cached_contexts b = cs \<and> out = [] \<and> uses_dict b
       | kUnbuffered \<Rightarrow>
           bb_written lib hdr b ss \<and> out = fill cs (handles (length hdr) 0 (map (b_framed lib b) ss)) \<and>
           (uses_dict b \<longrightarrow> bb_dict b \<noteq> None) \<and> (\<not> uses_dict b \<longrightarrow> bb_dict b = None)))"

lemma bb_inv_new:
  assumes "io_ok lib" "builder_supported lib opts ver"
  shows "bb_inv lib opts ver (BlobFileBuilder_new lib opts \<lparr> wf_contents = [], wf_ops = 0 \<rparr> ver) [] [] []"
  using assms
  by (auto simp: bb_inv_def BlobFileBuilder_new_def WriteHeader_def builder_supported_def ValidateVersion_def uses_dict_def
      Append_def io_ok_def bb_written_def builder_header_def Let_def)

lemma update_keys_fields [simp]:
  "bb_options (update_keys k b) = bb_options b" "bb_version (update_keys k b) = bb_version b"
  "bb_state (update_keys k b) = bb_state b" "bb_dict (update_keys k b) = bb_dict b" "bb_status (update_keys k b) = bb_status b"
  "bb_sample_records (update_keys k b) = bb_sample_records b" "bb_cached_contexts (update_keys k b) = bb_cached_contexts b"
  "bb_file (update_keys k b) = bb_file b" "bb_num_entries (update_keys k b) = bb_num_entries b"
  "bb_live_data_size (update_keys k b) = bb_live_data_size b" "uses_dict (update_keys k b) = uses_dict b"
  "b_framed lib (update_keys k b) = b_framed lib b" "bb_written lib hdr (update_keys k b) ss = bb_written lib hdr b ss"
  by (simp_all add: update_keys_def Let_def uses_dict_def b_framed_def bb_written_def fun_eq_iff)

lemma bb_inv_update_keys [simp]: "bb_inv lib opts ver (update_keys k b) rs cs out = bb_inv lib opts ver b rs cs out"
  by (simp add: bb_inv_def Let_def cong: BuilderState.case_cong)

lemma bb_inv_status: "bb_inv lib opts ver b rs cs out \<Longrightarrow> bb_status b = OK"
  by (auto simp: bb_inv_def bb_written_def Let_def split: BuilderState.splits)

lemma bb_inv_Enter:
  assumes "io_ok lib" "bb_inv lib opts ver b rs cs out" "bb_state b = kBuffered"
    and "EnterUnbuffered lib b = (b', o1)"
  shows "bb_inv lib opts ver b' rs cs (out @ o1) \<and> bb_state b' = kUnbuffered"
proof -
  let ?hdr = "BlobFileHeader_EncodeTo (builder_header opts ver)"
  have i: "bb_options b = opts" "bb_version b = ver" "length (blob_ctxs cs) = length rs"
    "bb_written lib ?hdr b []" "bb_sample_records b = map BlobRecord_EncodeTo rs" "bb_cached_contexts b = cs" "out = []" "uses_dict b"
    using assms(2,3) by (simp_all add: bb_inv_def Let_def)
  then obtain b1 dict where "EnterUnbuffered lib b =
      (b1, fill cs (handles (length ?hdr) 0 (map (b_framed lib b1) (map BlobRecord_EncodeTo rs))))"
    "bb_written lib ?hdr b1 (map BlobRecord_EncodeTo rs)" "bb_state b1 = kUnbuffered" "bb_options b1 = bb_options b"
    "bb_version b1 = bb_version b" "bb_dict b1 = Some dict"
    using EnterUnbuffered_ok [OF assms(1), of b ?hdr] by (auto simp: bb_written_def)
  then show ?thesis using assms(4) i by (auto simp: bb_inv_def Let_def uses_dict_def)
qed

lemma bb_inv_Add:
  assumes "io_ok lib" "bb_inv lib opts ver b rs cs out" "\<not> ctx_has_value c" "bb_Add lib r c b = (b', o1)"
  shows "bb_inv lib opts ver b' (rs @ [r]) (cs @ [c]) (out @ o1)"
proof (cases "bb_state b")
  case kBuffered
  let ?b = "b\<lparr> bb_sample_records := bb_sample_records b @ [BlobRecord_EncodeTo r],
               bb_sample_str_len := bb_sample_str_len b + of_nat (length (BlobRecord_EncodeTo r)),
               bb_cached_contexts := bb_cached_contexts b @ [c] \<rparr>"
  have b: "bb_inv lib opts ver ?b (rs @ [r]) (cs @ [c]) out" "bb_state ?b = kBuffered"
    using assms(2,3) kBuffered by (auto simp: bb_inv_def Let_def bb_written_def uses_dict_def)
  have "\<exists>b1. b' = update_keys (rec_key r) b1 \<and> (EnterUnbuffered lib ?b = (b1, o1) \<or> b1 = ?b \<and> o1 = [])"
    using assms(4) kBuffered bb_inv_status [OF assms(2)]
    by (auto simp: bb_Add_def Let_def split: if_splits prod.splits)
  then show ?thesis using b bb_inv_Enter [OF assms(1) b] by auto
next
  case kUnbuffered
  let ?hdr = "BlobFileHeader_EncodeTo (builder_header opts ver)" and ?ss = "map BlobRecord_EncodeTo rs"
  have w: "bb_written lib ?hdr b ?ss" using assms(2) kUnbuffered by (simp add: bb_inv_def Let_def)
  obtain b1 where b1: "WriteEncoderData lib (encode_slice lib b (BlobRecord_EncodeTo r)) b =
      (\<lparr> bh_offset = of_nat (length ?hdr + length (concat (map (b_framed lib b) ?ss))),
         bh_size = of_nat (length (b_framed lib b (BlobRecord_EncodeTo r))), bh_index = of_nat (length ?ss) \<rparr>, b1)"
    "bb_written lib ?hdr b1 (?ss @ [BlobRecord_EncodeTo r])" "wrote b b1"
    using WriteEncoderData_ok [OF assms(1) w] by blast
  have "(b', o1) = (update_keys (rec_key r) b1, fill [c] [\<lparr> bh_offset = of_nat (length ?hdr + length (concat (map (b_framed lib b) ?ss))),
         bh_size = of_nat (length (b_framed lib b (BlobRecord_EncodeTo r))), bh_index = of_nat (length ?ss) \<rparr>])"
    using assms(3,4) kUnbuffered bb_inv_status [OF assms(2)] b1(1) by (simp add: bb_Add_def Let_def)
  moreover have "fill (cs @ [c]) (handles (length ?hdr) 0 (map (b_framed lib b) (?ss @ [BlobRecord_EncodeTo r]))) =
      fill cs (handles (length ?hdr) 0 (map (b_framed lib b) ?ss)) @
      fill [c] [\<lparr> bh_offset = of_nat (length ?hdr + length (concat (map (b_framed lib b) ?ss))),
         bh_size = of_nat (length (b_framed lib b (BlobRecord_EncodeTo r))), bh_index = of_nat (length ?ss) \<rparr>]"
    using assms(2) by (simp add: handles_append fill_append bb_inv_def Let_def)
  ultimately show ?thesis
    using assms(2,3) kUnbuffered b1(2) wrote_fields [OF b1(3)] wrote_fields(9) [OF b1(3), of lib]
    by (auto simp: bb_inv_def Let_def uses_dict_def)
qed

lemma bb_reach_inv:
  assumes "bb_reach lib opts ver b rs cs out" "io_ok lib" "builder_supported lib opts ver"
  shows "bb_inv lib opts ver b rs cs out"
  using assms(1)
proof (induction rule: bb_reach.induct)
  case bb_start
  show ?case by (rule bb_inv_new [OF assms(2,3)])
next
  case (bb_add b rs cs out c r b' o1)
  then show ?case using bb_inv_Add [OF assms(2)] by blast
next
  case (bb_small b rs cs out c)
  then show ?case by (auto simp: bb_inv_def Let_def bb_AddSmall_def bb_written_def uses_dict_def b_framed_def)
next
  case (bb_small_lost b rs cs out c)
  moreover have "b_framed lib (b\<lparr> bb_cached_contexts := x \<rparr>) = b_framed lib b" for x by (simp add: b_framed_def fun_eq_iff)
  ultimately show ?case by (auto simp: bb_inv_def Let_def bb_AddSmall_def bb_written_def uses_dict_def)
qed

text \<open>What follows the records: with a dictionary its block and the meta index block, then the footer.\<close>

definition block_trailer :: "bytes \<Rightarrow> bytes" where
  "block_trailer block = kNoCompression # EncodeFixed32 (Mask (Extend (crc32c_Value block) [kNoCompression]))"

definition file_tail :: "BuilderLib \<Rightarrow> bytes option \<Rightarrow> nat \<Rightarrow> bytes" where
  "file_tail lib dict off =
     (case dict of
        None \<Rightarrow> BlobFileFooter_EncodeTo \<lparr> meta_index_handle = NullBlockHandle \<rparr>
      | Some d \<Rightarrow>
          let mi = lib_meta_index lib [(kCompressionDictBlockName, \<lparr> blk_offset = of_nat off, blk_size = of_nat (length d) \<rparr>)]
          in d @ block_trailer d @ mi @ block_trailer mi @
             BlobFileFooter_EncodeTo \<lparr> meta_index_handle = \<lparr> blk_offset = of_nat (off + length d + 5), blk_size = of_nat (length mi) \<rparr> \<rparr>)"

definition builder_records :: "BuilderLib \<Rightarrow> TitanCFOptions \<Rightarrow> bytes option \<Rightarrow> BlobRecord list \<Rightarrow> bytes list" where
  "builder_records lib opts dict rs = map (\<lambda>r. framed lib dict (blob_file_compression opts) (BlobRecord_EncodeTo r)) rs"

definition builder_file :: "BuilderLib \<Rightarrow> TitanCFOptions \<Rightarrow> u32 \<Rightarrow> bytes option \<Rightarrow> BlobRecord list \<Rightarrow> bytes" where
  "builder_file lib opts ver dict rs =
     (let hdr = BlobFileHeader_EncodeTo (builder_header opts ver); body = concat (builder_records lib opts dict rs)
      in hdr @ body @ file_tail lib dict (length hdr + length body))"

definition builder_handles :: "BuilderLib \<Rightarrow> TitanCFOptions \<Rightarrow> u32 \<Rightarrow> bytes option \<Rightarrow> BlobRecord list \<Rightarrow> BlobHandle list" where
  "builder_handles lib opts ver dict rs =
     handles (length (BlobFileHeader_EncodeTo (builder_header opts ver))) 0 (builder_records lib opts dict rs)"

lemma Finish_unbuffered:
  assumes "io_ok lib" "bb_inv lib opts ver b rs cs out" "bb_state b = kUnbuffered"
  shows "\<exists>b'. bb_Finish lib b = (b', []) \<and> bb_status b' = OK \<and> bb_num_entries b' = of_nat (length rs) \<and>
    wf_contents (bb_file b') = builder_file lib opts ver (bb_dict b) rs \<and>
    bb_live_data_size b' = of_nat (length (concat (builder_records lib opts (bb_dict b) rs))) \<and>
    out = fill cs (builder_handles lib opts ver (bb_dict b) rs)"
proof -
  have i: "bb_options b = opts" "bb_written lib (BlobFileHeader_EncodeTo (builder_header opts ver)) b (map BlobRecord_EncodeTo rs)"
    "uses_dict b \<longrightarrow> bb_dict b \<noteq> None" "\<not> uses_dict b \<longrightarrow> bb_dict b = None"
    "out = fill cs (builder_handles lib opts ver (bb_dict b) rs)"
    using assms(2,3) by (simp_all add: bb_inv_def Let_def builder_handles_def builder_records_def b_framed_def comp_def)
  show ?thesis
  proof (cases "bb_dict b")
    case None
    then have "\<not> uses_dict b" using i(3) by blast
    then show ?thesis using None assms(1,3) i(1,2,5)
      by (simp add: bb_Finish_def Append_def Flush_def io_ok_def Let_def bb_written_def builder_file_def file_tail_def
          builder_records_def b_framed_def comp_def)
  next
    case (Some d)
    then have "uses_dict b" using i(4) by auto
    then show ?thesis using Some assms(1,3) i(1,2,5)
      by (simp add: bb_Finish_def Append_def Flush_def io_ok_def Let_def bb_written_def builder_file_def file_tail_def
          builder_records_def comp_def b_framed_def WriteCompressionDictBlock_def WriteRawBlock_def GetFileSize_def block_trailer_def add.assoc)
  qed
qed

lemma Finish_buffered:
  assumes "bb_status b = OK" "bb_state b = kBuffered" "EnterUnbuffered lib b = (b1, o1)" "bb_status b1 = OK" "bb_state b1 = kUnbuffered"
  shows "bb_Finish lib b = (fst (bb_Finish lib b1), o1)"
  using assms by (simp add: bb_Finish_def Let_def case_prod_unfold)

lemma builder_finish:
  assumes "bb_reach lib opts ver b rs cs out" "io_ok lib" "builder_supported lib opts ver"
    and "bb_Finish lib b = (b', o1)"
  shows "\<exists>dict. (dict = None \<longleftrightarrow> max_dict_bytes (blob_file_compression_options opts) = 0) \<and>
    bb_status b' = OK \<and> wf_contents (bb_file b') = builder_file lib opts ver dict rs \<and>
    out @ o1 = fill cs (builder_handles lib opts ver dict rs) \<and> bb_num_entries b' = of_nat (length rs) \<and>
    bb_live_data_size b' = of_nat (length (concat (builder_records lib opts dict rs)))"
proof -
  note inv = bb_reach_inv [OF assms(1-3)]
  have "\<exists>b1 o2. bb_inv lib opts ver b1 rs cs (out @ o2) \<and> bb_state b1 = kUnbuffered \<and> b' = fst (bb_Finish lib b1) \<and> o1 = o2"
  proof (cases "bb_state b")
    case kBuffered
    obtain b1 o2 where e: "EnterUnbuffered lib b = (b1, o2)" by fastforce
    note i = bb_inv_Enter [OF assms(2) inv kBuffered e]
    then have "bb_Finish lib b = (fst (bb_Finish lib b1), o2)"
      using Finish_buffered [OF bb_inv_status [OF inv] kBuffered e] bb_inv_status by blast
    then show ?thesis using i assms(4) by auto
  next
    case kUnbuffered
    then show ?thesis using inv assms(4) Finish_unbuffered [OF assms(2) inv kUnbuffered] by fastforce
  qed
  then obtain b1 where b1: "bb_inv lib opts ver b1 rs cs (out @ o1)" "bb_state b1 = kUnbuffered" "b' = fst (bb_Finish lib b1)"
    by blast
  have "bb_dict b1 = None \<longleftrightarrow> max_dict_bytes (blob_file_compression_options opts) = 0"
    using b1(1,2) by (auto simp: bb_inv_def Let_def uses_dict_def word_gt_0)
  then show ?thesis using Finish_unbuffered [OF assms(2) b1(1,2)] b1(3) by auto
qed

section \<open>Properties of the builder\<close>

text \<open>
  The assertion of the encoder, for every record and whatever dictionary it is compressed with, and
  what it is for: the size in a record's header is the size of the record.
\<close>

definition builder_asserts :: "BuilderLib \<Rightarrow> TitanCFOptions \<Rightarrow> BlobRecord list \<Rightarrow> bool" where
  "builder_asserts lib opts rs \<longleftrightarrow>
     (\<forall>dict. list_all (\<lambda>r. EncodeSlice_assert (lib_compress lib dict) (blob_file_compression opts) (BlobRecord_EncodeTo r)) rs)"

definition own_size :: "bytes \<Rightarrow> bool" where
  "own_size w \<longleftrightarrow> (case DecodeHeader w of Inl _ \<Rightarrow> False | Inr (d, rest) \<Rightarrow> unat (dec_record_size d) = length rest)"

lemma framed_own_size:
  assumes "EncodeSlice_assert (lib_compress lib (case dict of None \<Rightarrow> [] | Some d \<Rightarrow> d)) t s"
  shows "own_size (framed lib dict t s)"
  using assms DecodeHeader_EncodeSlice [of "lib_compress lib (case dict of None \<Rightarrow> [] | Some d \<Rightarrow> d)" t s]
  by (simp add: own_size_def framed_def Let_def EncodeSlice_assert_def) (simp add: EncodeSlice_def Let_def case_prod_unfold)

lemma builder_own_sizes: "builder_asserts lib opts rs \<Longrightarrow> list_all own_size (builder_records lib opts dict rs)"
  by (auto simp: builder_asserts_def builder_records_def list_all_iff intro!: framed_own_size)

text \<open>
  C8: a blob file holds what was added to it. However the calls of \<open>Add\<close> and \<open>AddSmall\<close> are
  interleaved and whether or not a dictionary is trained on the way, if no write fails and the
  encoder's assertion on the size of a record holds then \<open>Finish\<close> succeeds, the file is the header,
  the records in the order they were added, each with its own size in its header, and the tail, the
  contexts come out in the order they went in, and each record's context carries the offset, size
  and index of its record. The exception is \<open>AddSmall\<close> on a builder that no longer buffers, whose
  context does not come out.
\<close>

theorem build_file:
  assumes "bb_reach lib opts ver b rs cs out" "io_ok lib" "builder_supported lib opts ver"
    and "builder_asserts lib opts rs" "bb_Finish lib b = (b', o1)"
  shows "\<exists>dict. (dict = None \<longleftrightarrow> max_dict_bytes (blob_file_compression_options opts) = 0) \<and>
    bb_status b' = OK \<and> wf_contents (bb_file b') = builder_file lib opts ver dict rs \<and>
    list_all own_size (builder_records lib opts dict rs) \<and>
    out @ o1 = fill cs (builder_handles lib opts ver dict rs) \<and> bb_num_entries b' = of_nat (length rs) \<and>
    bb_live_data_size b' = of_nat (length (concat (builder_records lib opts dict rs)))"
  using builder_finish [OF assms(1-3,5)] builder_own_sizes [OF assms(4)] by blast

definition demo_lib :: "(nat \<Rightarrow> status) \<Rightarrow> BuilderLib" where
  "demo_lib io = \<lparr> lib_compress = \<lambda>_ _ _. None, lib_train = \<lambda>_ _ _. [7], lib_meta_index = \<lambda>_. [9],
     lib_zstd_old = False, lib_io = io \<rparr>"

definition demo_dict_options :: TitanCFOptions where
  "demo_dict_options = demo_options\<lparr> blob_file_compression_options := \<lparr> max_dict_bytes = 16, zstd_max_train_bytes = 0 \<rparr> \<rparr>"

definition demo_ctx :: "bytes \<Rightarrow> BlobRecordContext" where
  "demo_ctx k = (let i = \<lparr> bi_file_number = 1, bi_blob_handle = BlobHandle_default, bi_old_file_number = 0, bi_old_blob_handle = BlobHandle_default \<rparr>
     in \<lparr> ctx_key = k, ctx_original_blob_index = i, ctx_new_blob_index = i, ctx_has_value = False, ctx_value = [] \<rparr>)"

definition demo_record :: "bytes \<Rightarrow> BlobRecord" where
  "demo_record k = \<lparr> rec_key = k, rec_value = [5] \<rparr>"

text \<open>A builder to which the keys have been added with the value \<open>[5]\<close>, and the contexts handed out.\<close>

definition demo_start :: "(nat \<Rightarrow> status) \<Rightarrow> TitanCFOptions \<Rightarrow> BlobFileBuilder" where
  "demo_start io opts = BlobFileBuilder_new (demo_lib io) opts \<lparr> wf_contents = [], wf_ops = 0 \<rparr> 2"

definition demo_add :: "(nat \<Rightarrow> status) \<Rightarrow> BlobFileBuilder \<Rightarrow> bytes \<Rightarrow> BlobFileBuilder \<times> BlobRecordContext list" where
  "demo_add io b k = bb_Add (demo_lib io) (demo_record k) (demo_ctx k) b"

definition demo_two :: "(nat \<Rightarrow> status) \<Rightarrow> TitanCFOptions \<Rightarrow> bytes \<Rightarrow> bytes \<Rightarrow> BlobFileBuilder \<times> BlobRecordContext list" where
  "demo_two io opts k k' =
     (let (b, o1) = demo_add io (demo_start io opts) k; (b, o2) = demo_add io b k' in (b, o1 @ o2))"

lemma demo_two_reach:
  "bb_reach (demo_lib io) opts 2 (fst (demo_two io opts k k')) [demo_record k, demo_record k'] [demo_ctx k, demo_ctx k'] (snd (demo_two io opts k k'))"
proof -
  obtain b1 o1 where 1: "demo_add io (demo_start io opts) k = (b1, o1)" by fastforce
  obtain b2 o2 where 2: "demo_add io b1 k' = (b2, o2)" by fastforce
  have c: "\<not> ctx_has_value (demo_ctx x)" for x by (simp add: demo_ctx_def Let_def)
  have "bb_reach (demo_lib io) opts 2 b1 [demo_record k] [demo_ctx k] o1"
    using bb_reach.bb_add [OF bb_reach.bb_start c 1 [unfolded demo_add_def demo_start_def]] by simp
  from bb_reach.bb_add [OF this c 2 [unfolded demo_add_def]]
  have "bb_reach (demo_lib io) opts 2 b2 [demo_record k, demo_record k'] [demo_ctx k, demo_ctx k'] (o1 @ o2)" by simp
  then show ?thesis by (simp add: demo_two_def 1 2)
qed

lemma demo_supported: "builder_supported (demo_lib io) demo_options 2" "builder_supported (demo_lib io) demo_dict_options 2"
  by code_simp+

lemma demo_asserts: "builder_asserts (demo_lib io) opts [demo_record [1], demo_record [2]]"
proof -
  have l: "length (BlobRecord_EncodeTo (demo_record [1])) = 4" "length (BlobRecord_EncodeTo (demo_record [2])) = 4" by code_simp+
  have "fst (Compress (lib_compress (demo_lib io) d) c x) = x" for d c x by (simp add: Compress_def demo_lib_def)
  then show ?thesis unfolding builder_asserts_def EncodeSlice_assert_def by (simp add: l)
qed

theorem build_file_witness:
  "\<exists>dict. fst (demo_two (\<lambda>_. OK) demo_dict_options [1] [2]) \<noteq> demo_start (\<lambda>_. OK) demo_dict_options \<and>
     wf_contents (bb_file (fst (bb_Finish (demo_lib (\<lambda>_. OK)) (fst (demo_two (\<lambda>_. OK) demo_dict_options [1] [2]))))) =
       builder_file (demo_lib (\<lambda>_. OK)) demo_dict_options 2 dict [demo_record [1], demo_record [2]] \<and>
     dict \<noteq> None"
proof -
  let ?io = "\<lambda>_. OK"
  have "io_ok (demo_lib ?io)" by (simp add: io_ok_def demo_lib_def)
  from build_file [OF demo_two_reach this demo_supported(2) demo_asserts]
  obtain dict where "wf_contents (bb_file (fst (bb_Finish (demo_lib ?io) (fst (demo_two ?io demo_dict_options [1] [2]))))) =
       builder_file (demo_lib ?io) demo_dict_options 2 dict [demo_record [1], demo_record [2]]"
    "(dict = None) = (max_dict_bytes (blob_file_compression_options demo_dict_options) = 0)"
    by (metis prod.collapse)
  moreover have "max_dict_bytes (blob_file_compression_options demo_dict_options) \<noteq> 0" by (simp add: demo_dict_options_def)
  moreover have "bb_sample_records (fst (demo_two ?io demo_dict_options [1] [2])) \<noteq> bb_sample_records (demo_start ?io demo_dict_options)"
    by code_simp
  ultimately show ?thesis by fastforce
qed

section \<open>A write that fails\<close>

text \<open>While a builder buffers, it has only written the header, whatever becomes of later writes.\<close>

lemma EnterUnbuffered_state: "bb_state (fst (EnterUnbuffered lib b)) = kUnbuffered"
  by (simp add: EnterUnbuffered_def Let_def case_prod_unfold)

lemma bb_reach_buffered:
  assumes "bb_reach lib opts ver b rs cs out" "bb_state b = kBuffered" "bb_status b = OK"
  shows "bb_options b = opts \<and> bb_version b = ver \<and> uses_dict b \<and> out = [] \<and>
    wf_contents (bb_file b) = BlobFileHeader_EncodeTo (builder_header opts ver) \<and> bb_num_entries b = 0 \<and>
    bb_sample_records b = map BlobRecord_EncodeTo rs \<and> bb_cached_contexts b = cs \<and> length (blob_ctxs cs) = length rs"
  using assms
proof (induction rule: bb_reach.induct)
  case bb_start
  then show ?case
    by (auto simp: BlobFileBuilder_new_def WriteHeader_def uses_dict_def Append_def builder_header_def Let_def split: if_splits)
next
  case (bb_add b rs cs out c r b' o1)
  have ok: "bb_status b = OK"
  proof (rule ccontr)
    assume "bb_status b \<noteq> OK"
    then show False using bb_add.hyps(3) bb_add.prems(2) by (simp add: bb_Add_def)
  qed
  have st: "bb_state b = kBuffered"
  proof (cases "bb_state b")
    case kUnbuffered
    have "bb_state (snd (WriteEncoderData lib e b)) = bb_state b" for e by (simp add: WriteEncoderData_def Let_def case_prod_unfold)
    then show ?thesis using bb_add.hyps(3) bb_add.prems(1) ok kUnbuffered by (auto simp: bb_Add_def Let_def case_prod_unfold)
  qed simp
  let ?b = "b\<lparr> bb_sample_records := bb_sample_records b @ [BlobRecord_EncodeTo r],
               bb_sample_str_len := bb_sample_str_len b + of_nat (length (BlobRecord_EncodeTo r)),
               bb_cached_contexts := bb_cached_contexts b @ [c] \<rparr>"
  have "(b' = update_keys (rec_key r) ?b \<and> o1 = []) \<or> b' = update_keys (rec_key r) (fst (EnterUnbuffered lib ?b))"
    using bb_add.hyps(3) ok st by (auto simp: bb_Add_def Let_def case_prod_unfold split: if_splits)
  then have "b' = update_keys (rec_key r) ?b \<and> o1 = []" using bb_add.prems(1) EnterUnbuffered_state [of lib ?b] by auto
  then show ?case using bb_add.IH [OF st ok] bb_add.hyps(2) by (auto simp: uses_dict_def)
qed (auto simp: bb_AddSmall_def uses_dict_def)

text \<open>
  The file and the number of entries of a builder that has stored the record strings \<open>ss\<close>, whatever
  its status; and the handles given out when the write of the \<open>k\<close>-th of them fails: the record after
  it is given the same offset and index.
\<close>

definition bb_stored :: "BuilderLib \<Rightarrow> bytes \<Rightarrow> BlobFileBuilder \<Rightarrow> bytes list \<Rightarrow> bool" where
  "bb_stored lib hdr b ss \<longleftrightarrow>
     wf_contents (bb_file b) = hdr @ concat (map (b_framed lib b) ss) \<and> bb_num_entries b = of_nat (length ss)"

fun lost_handles :: "nat \<Rightarrow> nat \<Rightarrow> nat \<Rightarrow> bytes list \<Rightarrow> BlobHandle list" where
  "lost_handles off i k [] = []"
| "lost_handles off i 0 (w # ws) = \<lparr> bh_offset = of_nat off, bh_size = of_nat (length w), bh_index = of_nat i \<rparr> # handles off i ws"
| "lost_handles off i (Suc k) (w # ws) =
     \<lparr> bh_offset = of_nat off, bh_size = of_nat (length w), bh_index = of_nat i \<rparr> # lost_handles (off + length w) (i + 1) k ws"

lemma WriteEncoderData_stored:
  assumes "bb_stored lib hdr b ss"
  shows "\<exists>b'. WriteEncoderData lib (encode_slice lib b s) b =
      (\<lparr> bh_offset = of_nat (length hdr + length (concat (map (b_framed lib b) ss))),
         bh_size = of_nat (length (b_framed lib b s)), bh_index = of_nat (length ss) \<rparr>, b') \<and> wrote b b' \<and>
    (lib_io lib (wf_ops (bb_file b)) \<noteq> OK \<longrightarrow> bb_stored lib hdr b' ss \<and> wf_ops (bb_file b') = wf_ops (bb_file b) + 1) \<and>
    (lib_io lib (wf_ops (bb_file b)) = OK \<and> lib_io lib (wf_ops (bb_file b) + 1) = OK \<longrightarrow>
      bb_stored lib hdr b' (ss @ [s]) \<and> wf_ops (bb_file b') = wf_ops (bb_file b) + 2)"
  using assms
  by (simp add: WriteEncoderData_def Append_def Let_def bb_stored_def wrote_def GetFileSize_def
      GetEncodedSize_def encode_slice_def b_framed_def framed_def)

lemma sample_context:
  assumes "length (blob_ctxs ctxs) = Suc n"
  obtains c cs where "dropWhile ctx_has_value ctxs = c # cs" "length (blob_ctxs cs) = n"
proof (cases "dropWhile ctx_has_value ctxs")
  case Nil
  then show thesis using assms by (auto simp: dropWhile_eq_Nil_conv filter_empty_conv [symmetric])
next
  case (Cons c cs)
  then show thesis using assms that blob_ctxs_split by auto
qed

lemma flush_loop_stored:
  assumes "bb_stored lib hdr b ss" "length (blob_ctxs ctxs) = length samples" "\<And>m. wf_ops (bb_file b) \<le> m \<Longrightarrow> lib_io lib m = OK"
  shows "\<exists>b'. flush_loop lib samples ctxs b =
      (b', fill ctxs (handles (length hdr + length (concat (map (b_framed lib b) ss))) (length ss) (map (b_framed lib b) samples))) \<and>
    bb_stored lib hdr b' (ss @ samples) \<and> wrote b b' \<and> wf_ops (bb_file b') = wf_ops (bb_file b) + 2 * length samples"
  using assms
proof (induction samples arbitrary: ctxs b ss)
  case Nil
  then have "list_all ctx_has_value ctxs" by (auto simp: list_all_iff filter_empty_conv)
  then show ?case using Nil by (simp add: fill_values wrote_refl)
next
  case (Cons s samples)
  obtain c cs where c: "dropWhile ctx_has_value ctxs = c # cs" "length (blob_ctxs cs) = length samples"
    using Cons.prems(2) by (auto elim: sample_context)
  obtain b1 where b1: "WriteEncoderData lib (encode_slice lib b s) b =
      (\<lparr> bh_offset = of_nat (length hdr + length (concat (map (b_framed lib b) ss))),
         bh_size = of_nat (length (b_framed lib b s)), bh_index = of_nat (length ss) \<rparr>, b1)"
    "bb_stored lib hdr b1 (ss @ [s])" "wrote b b1" "wf_ops (bb_file b1) = wf_ops (bb_file b) + 2"
    using WriteEncoderData_stored [OF Cons.prems(1), of s] Cons.prems(3) by (metis le_add1 order_refl)
  from Cons.IH [OF b1(2) c(2)] b1 Cons.prems(3) show ?case
    by (auto simp: c fill_split [OF c(1)] wrote_fields(9) [OF b1(3)] add.assoc intro: wrote_trans)
qed

lemma flush_loop_lost:
  assumes "bb_stored lib hdr b ss" "length (blob_ctxs ctxs) = length samples" "k < length samples"
    and "\<And>m. wf_ops (bb_file b) \<le> m \<Longrightarrow> lib_io lib m = OK \<longleftrightarrow> m \<noteq> wf_ops (bb_file b) + 2 * k"
  shows "\<exists>b'. flush_loop lib samples ctxs b =
      (b', fill ctxs (lost_handles (length hdr + length (concat (map (b_framed lib b) ss))) (length ss) k (map (b_framed lib b) samples))) \<and>
    bb_stored lib hdr b' (ss @ take k samples @ drop (Suc k) samples) \<and> wrote b b' \<and> wf_ops (bb_file b) + 2 * k < wf_ops (bb_file b')"
  using assms
proof (induction k arbitrary: samples ctxs b ss)
  case 0
  obtain s rest where s: "samples = s # rest" using "0.prems"(3) by (cases samples) auto
  obtain c cs where c: "dropWhile ctx_has_value ctxs = c # cs" "length (blob_ctxs cs) = length rest"
    using "0.prems"(2) s by (auto elim: sample_context)
  obtain b1 where b1: "WriteEncoderData lib (encode_slice lib b s) b =
      (\<lparr> bh_offset = of_nat (length hdr + length (concat (map (b_framed lib b) ss))),
         bh_size = of_nat (length (b_framed lib b s)), bh_index = of_nat (length ss) \<rparr>, b1)"
    "bb_stored lib hdr b1 ss" "wrote b b1" "wf_ops (bb_file b1) = wf_ops (bb_file b) + 1"
    using WriteEncoderData_stored [OF "0.prems"(1), of s] "0.prems"(4) [of "wf_ops (bb_file b)"] by auto
  have "lib_io lib m = OK" if "wf_ops (bb_file b1) \<le> m" for m using that b1(4) "0.prems"(4) [of m] by simp
  from flush_loop_stored [OF b1(2) c(2) this] b1 show ?case
    by (auto simp: s c fill_split [OF c(1)] wrote_fields(9) [OF b1(3)] intro: wrote_trans)
next
  case (Suc k)
  obtain s rest where s: "samples = s # rest" "k < length rest" using Suc.prems(3) by (cases samples) auto
  obtain c cs where c: "dropWhile ctx_has_value ctxs = c # cs" "length (blob_ctxs cs) = length rest"
    using Suc.prems(2) s by (auto elim: sample_context)
  obtain b1 where b1: "WriteEncoderData lib (encode_slice lib b s) b =
      (\<lparr> bh_offset = of_nat (length hdr + length (concat (map (b_framed lib b) ss))),
         bh_size = of_nat (length (b_framed lib b s)), bh_index = of_nat (length ss) \<rparr>, b1)"
    "bb_stored lib hdr b1 (ss @ [s])" "wrote b b1" "wf_ops (bb_file b1) = wf_ops (bb_file b) + 2"
    using WriteEncoderData_stored [OF Suc.prems(1), of s] Suc.prems(4) [of "wf_ops (bb_file b)"] Suc.prems(4) [of "wf_ops (bb_file b) + 1"] by auto
  have "lib_io lib m = OK \<longleftrightarrow> m \<noteq> wf_ops (bb_file b1) + 2 * k" if "wf_ops (bb_file b1) \<le> m" for m using that b1(4) Suc.prems(4) [of m] by simp
  from Suc.IH [OF b1(2) c(2) s(2) this] b1 show ?case
    by (auto simp: s c fill_split [OF c(1)] wrote_fields(9) [OF b1(3)] add.assoc intro: wrote_trans)
qed

lemma EnterUnbuffered_lost:
  assumes "bb_reach lib opts ver b rs cs out" "bb_state b = kBuffered" "bb_status b = OK" "k < length rs"
    and "\<And>m. wf_ops (bb_file b) \<le> m \<Longrightarrow> lib_io lib m = OK \<longleftrightarrow> m \<noteq> wf_ops (bb_file b) + 2 * k"
  shows "\<exists>b' d. EnterUnbuffered lib b =
      (b', fill cs (lost_handles (length (BlobFileHeader_EncodeTo (builder_header opts ver))) 0 k (builder_records lib opts (Some d) rs))) \<and>
    bb_stored lib (BlobFileHeader_EncodeTo (builder_header opts ver)) b' (map BlobRecord_EncodeTo (take k rs @ drop (Suc k) rs)) \<and>
    bb_options b' = opts \<and> bb_dict b' = Some d \<and> wf_ops (bb_file b) + 2 * k < wf_ops (bb_file b')"
proof -
  note r = bb_reach_buffered [OF assms(1-3)]
  let ?hdr = "BlobFileHeader_EncodeTo (builder_header opts ver)"
  define d where "d = lib_train lib (concat (bb_sample_records b)) (map length (bb_sample_records b))
                   (max_dict_bytes (blob_file_compression_options (bb_options b)))"
  let ?b = "b\<lparr> bb_dict := Some d \<rparr>"
  have s: "bb_stored lib ?hdr ?b []" using r by (simp add: bb_stored_def)
  have l: "length (blob_ctxs cs) = length (map BlobRecord_EncodeTo rs)" "k < length (map BlobRecord_EncodeTo rs)" using r assms(4) by simp_all
  from flush_loop_lost [OF s l, simplified] assms(5)
  obtain b1 where b1: "flush_loop lib (map BlobRecord_EncodeTo rs) cs ?b =
      (b1, fill cs (lost_handles (length ?hdr) 0 k (map (b_framed lib ?b) (map BlobRecord_EncodeTo rs))))"
    "bb_stored lib ?hdr b1 (map BlobRecord_EncodeTo (take k rs @ drop (Suc k) rs))" "wrote ?b b1" "wf_ops (bb_file b) + 2 * k < wf_ops (bb_file b1)"
    by (auto simp: take_map drop_map)
  let ?b' = "b1\<lparr> bb_sample_records := [], bb_sample_str_len := 0, bb_cached_contexts := [], bb_state := kUnbuffered \<rparr>"
  have e: "EnterUnbuffered lib b = (?b', fill cs (lost_handles (length ?hdr) 0 k (map (b_framed lib ?b) (map BlobRecord_EncodeTo rs))))"
    unfolding EnterUnbuffered_def Let_def d_def [symmetric] FlushSampleRecords_def using b1(1) r by simp
  have f: "map (b_framed lib ?b) (map BlobRecord_EncodeTo rs) = builder_records lib opts (Some d) rs"
    using r by (simp add: builder_records_def b_framed_def)
  have "b_framed lib ?b' = b_framed lib b1" by (simp add: b_framed_def fun_eq_iff)
  then have "bb_stored lib ?hdr ?b' (map BlobRecord_EncodeTo (take k rs @ drop (Suc k) rs))" using b1(2) by (simp add: bb_stored_def)
  then show ?thesis using e [unfolded f] wrote_fields(1,2) [OF b1(3)] b1(4) r by (intro exI [of _ ?b'] exI [of _ d]) simp
qed

text \<open>
  C28: a write error can be lost. With a dictionary, the records are written when the dictionary has
  been trained, and a failed write stops neither \<open>FlushSampleRecords\<close> nor \<open>Finish\<close>, where the status of
  the next write replaces it. For every builder that buffers at \<open>Finish\<close> and every record \<open>k\<close> in it, if
  the write of that record's header fails and no other operation does, then \<open>Finish\<close> reports success,
  the file is the one without that record, and its key is handed out with the offset and the index
  of whatever was written next.
\<close>

theorem buffered_write_error_lost:
  assumes "bb_reach lib opts ver b rs cs out" "bb_state b = kBuffered" "bb_status b = OK" "k < length rs"
    and "\<And>m. wf_ops (bb_file b) \<le> m \<Longrightarrow> lib_io lib m = OK \<longleftrightarrow> m \<noteq> wf_ops (bb_file b) + 2 * k"
    and "bb_Finish lib b = (b', o1)"
  shows "bb_status b' = OK \<and>
    (\<exists>dict. wf_contents (bb_file b') = builder_file lib opts ver (Some dict) (take k rs @ drop (Suc k) rs) \<and>
      out @ o1 = fill cs (lost_handles (length (BlobFileHeader_EncodeTo (builder_header opts ver))) 0 k (builder_records lib opts (Some dict) rs)))"
proof -
  note r = bb_reach_buffered [OF assms(1-3)]
  let ?hdr = "BlobFileHeader_EncodeTo (builder_header opts ver)"
  obtain b1 d where e: "EnterUnbuffered lib b = (b1, fill cs (lost_handles (length ?hdr) 0 k (builder_records lib opts (Some d) rs)))"
    "bb_stored lib ?hdr b1 (map BlobRecord_EncodeTo (take k rs @ drop (Suc k) rs))"
    "bb_options b1 = opts" "bb_dict b1 = Some d" "wf_ops (bb_file b) + 2 * k < wf_ops (bb_file b1)"
    using EnterUnbuffered_lost [OF assms(1-5)] by blast
  have ok: "lib_io lib m = OK" if "wf_ops (bb_file b1) \<le> m" for m using that e(5) assms(5) [of m] by simp
  have u: "uses_dict b1" using r e(3) by (auto simp: uses_dict_def)
  have io: "lib_io lib (wf_ops (bb_file b1)) = OK" "lib_io lib (Suc (wf_ops (bb_file b1))) = OK" "lib_io lib (Suc (Suc (wf_ops (bb_file b1)))) = OK"
    "lib_io lib (Suc (Suc (Suc (wf_ops (bb_file b1))))) = OK" "lib_io lib (Suc (Suc (Suc (Suc (wf_ops (bb_file b1)))))) = OK"
    "lib_io lib (Suc (Suc (Suc (Suc (Suc (wf_ops (bb_file b1))))))) = OK"
    using ok by simp_all
  show ?thesis
    using assms(2,3,6) e(1-4) u io r
    by (auto simp: bb_Finish_def Append_def Flush_def Let_def bb_stored_def builder_file_def file_tail_def
        builder_records_def comp_def b_framed_def WriteCompressionDictBlock_def WriteRawBlock_def GetFileSize_def block_trailer_def add.assoc)
qed

definition demo_fail :: "nat \<Rightarrow> status" where
  "demo_fail n = (if n = 1 then IOError [] else OK)"

theorem buffered_write_error_lost_witness:
  "demo_fail 1 = IOError [] \<and>
   bb_status (fst (bb_Finish (demo_lib demo_fail) (fst (demo_two demo_fail demo_dict_options [1] [2])))) = OK \<and>
   (\<exists>dict. wf_contents (bb_file (fst (bb_Finish (demo_lib demo_fail) (fst (demo_two demo_fail demo_dict_options [1] [2]))))) =
      builder_file (demo_lib demo_fail) demo_dict_options 2 (Some dict) [demo_record [2]])"
proof -
  have s: "bb_state (fst (demo_two demo_fail demo_dict_options [1] [2])) = kBuffered"
    "bb_status (fst (demo_two demo_fail demo_dict_options [1] [2])) = OK"
    "wf_ops (bb_file (fst (demo_two demo_fail demo_dict_options [1] [2]))) = 1"
    by code_simp+
  have io: "lib_io (demo_lib demo_fail) m = OK \<longleftrightarrow> m \<noteq> wf_ops (bb_file (fst (demo_two demo_fail demo_dict_options [1] [2]))) + 2 * 0" for m
    by (simp add: s(3) demo_lib_def demo_fail_def)
  have k: "0 < length [demo_record [1], demo_record [2]]" by simp
  show ?thesis
    using buffered_write_error_lost [OF demo_two_reach s(1,2) k io prod.collapse [symmetric]] by (auto simp: demo_fail_def)
qed

section \<open>The key range of the file\<close>

lemma WriteEncoderData_wrote: "wrote b (snd (WriteEncoderData lib e b))"
  by (simp add: WriteEncoderData_def wrote_def Let_def case_prod_unfold)

lemma flush_loop_wrote: "wrote b (fst (flush_loop lib ss ctxs b))"
proof (induction ss arbitrary: ctxs b)
  case Nil
  then show ?case by (simp add: wrote_def)
next
  case (Cons s ss)
  have "wrote b (fst (flush_loop lib ss cs (snd (WriteEncoderData lib (encode_slice lib b s) b))))" for cs
    by (rule wrote_trans [OF WriteEncoderData_wrote Cons.IH])
  then show ?case by (auto simp: Let_def case_prod_unfold wrote_def split: list.splits)
qed

definition bb_keys :: "BlobFileBuilder \<Rightarrow> bytes \<times> bytes" where
  "bb_keys b = (bb_smallest_key b, bb_largest_key b)"

lemma EnterUnbuffered_keys: "bb_keys (fst (EnterUnbuffered lib b)) = bb_keys b \<and> bb_options (fst (EnterUnbuffered lib b)) = bb_options b"
  using wrote_fields [OF flush_loop_wrote] by (simp add: bb_keys_def EnterUnbuffered_def FlushSampleRecords_def Let_def case_prod_unfold)

lemma update_keys_cong:
  "\<lbrakk>bb_keys b = bb_keys b'; bb_options b = bb_options b'\<rbrakk> \<Longrightarrow> bb_keys (update_keys k b) = bb_keys (update_keys k b')"
  by (simp add: bb_keys_def update_keys_def Let_def)

lemma bb_Add_keys:
  assumes "bb_status b = OK" "bb_Add lib r c b = (b', o1)"
  shows "bb_keys b' = bb_keys (update_keys (rec_key r) b) \<and> bb_options b' = bb_options b"
proof -
  have w: "bb_keys (snd (WriteEncoderData lib e b)) = bb_keys b" "bb_options (snd (WriteEncoderData lib e b)) = bb_options b" for e
    using wrote_fields(2,7,8) [OF WriteEncoderData_wrote] by (simp_all add: bb_keys_def)
  have e: "bb_keys (fst (EnterUnbuffered lib (b\<lparr> bb_sample_records := x, bb_sample_str_len := y, bb_cached_contexts := z \<rparr>))) = bb_keys b"
    "bb_options (fst (EnterUnbuffered lib (b\<lparr> bb_sample_records := x, bb_sample_str_len := y, bb_cached_contexts := z \<rparr>))) = bb_options b" for x y z
    using EnterUnbuffered_keys by (simp_all add: bb_keys_def)
  have "\<exists>b1. b' = update_keys (rec_key r) b1 \<and> bb_keys b1 = bb_keys b \<and> bb_options b1 = bb_options b"
  proof (cases "bb_state b")
    case kBuffered
    then show ?thesis using assms e by (auto simp: bb_Add_def Let_def case_prod_unfold split: if_splits) (auto simp: bb_keys_def)
  next
    case kUnbuffered
    then show ?thesis using assms w by (auto simp: bb_Add_def Let_def case_prod_unfold)
  qed
  then obtain b1 where "b' = update_keys (rec_key r) b1" "bb_keys b1 = bb_keys b" "bb_options b1 = bb_options b" by blast
  then show ?thesis using update_keys_cong [of b1 b "rec_key r"] by simp
qed

text \<open>The span of the keys added: both ends were added, and every key lies between them.\<close>

definition key_span :: "comparator \<Rightarrow> bytes list \<Rightarrow> bytes \<Rightarrow> bytes \<Rightarrow> bool" where
  "key_span cmp ks lo hi \<longleftrightarrow> lo \<in> set ks \<and> hi \<in> set ks \<and> list_all (\<lambda>k. cmp lo k \<le> 0 \<and> cmp k hi \<le> 0) ks"

lemma update_keys_span:
  assumes "comparator (opt_comparator (bb_options b))" "k \<noteq> []" "[] \<notin> set ks"
    and "ks = [] \<and> bb_keys b = ([], []) \<or> key_span (opt_comparator (bb_options b)) ks (bb_smallest_key b) (bb_largest_key b)"
  shows "key_span (opt_comparator (bb_options b)) (ks @ [k]) (bb_smallest_key (update_keys k b)) (bb_largest_key (update_keys k b))"
proof -
  let ?cmp = "opt_comparator (bb_options b)"
  note c = comparator.cmp_refl [OF assms(1)] comparator.cmp_not_less [OF assms(1)] comparator.cmp_swap [OF assms(1)]
  from assms(4) show ?thesis
  proof
    assume "ks = [] \<and> bb_keys b = ([], [])"
    then show ?thesis using c by (simp add: key_span_def update_keys_def Let_def bb_keys_def)
  next
    assume s: "key_span ?cmp ks (bb_smallest_key b) (bb_largest_key b)"
    have ne: "bb_smallest_key b \<noteq> []" "bb_largest_key b \<noteq> []" using s assms(3) by (auto simp: key_span_def)
    have lo: "?cmp k x \<le> 0" if "?cmp k (bb_smallest_key b) < 0" "x \<in> set ks" for x
      using that s comparator.cmp_trans [OF assms(1), of k "bb_smallest_key b" x] by (auto simp: key_span_def list_all_iff)
    have hi: "?cmp x k \<le> 0" if "0 < ?cmp k (bb_largest_key b)" "x \<in> set ks" for x
      using that s comparator.cmp_trans [OF assms(1), of x "bb_largest_key b" k] c(3) [of "bb_largest_key b" k]
      by (auto simp: key_span_def list_all_iff)
    show ?thesis
      using s ne lo hi c(1) c(2) [of k "bb_smallest_key b"] c(3) [of "bb_largest_key b" k] c(2) [of "bb_largest_key b" k]
      by (auto simp: key_span_def update_keys_def Let_def list_all_iff)
  qed
qed

lemma bb_reach_span:
  assumes "bb_reach lib opts ver b rs cs out" "io_ok lib" "builder_supported lib opts ver"
    and "comparator (opt_comparator opts)" "[] \<notin> rec_key ` set rs"
  shows "rs = [] \<and> bb_keys b = ([], []) \<or> key_span (opt_comparator opts) (map rec_key rs) (bb_smallest_key b) (bb_largest_key b)"
  using assms(1,5)
proof (induction rule: bb_reach.induct)
  case bb_start
  then show ?case by (auto simp: BlobFileBuilder_new_def WriteHeader_def Let_def bb_keys_def Append_def)
next
  case (bb_add b rs cs out c r b' o1)
  note inv = bb_reach_inv [OF bb_add.hyps(1) assms(2,3)]
  have o: "bb_options b = opts" using inv by (simp add: bb_inv_def Let_def)
  have "key_span (opt_comparator opts) (map rec_key rs @ [rec_key r]) (bb_smallest_key (update_keys (rec_key r) b)) (bb_largest_key (update_keys (rec_key r) b))"
    using update_keys_span [of b "rec_key r" "map rec_key rs"] bb_add.IH bb_add.prems assms(4) o by auto
  then show ?case using bb_Add_keys [OF bb_inv_status [OF inv] bb_add.hyps(3)] by (simp add: bb_keys_def)
next
  case (bb_small b rs cs out c)
  then show ?case by (simp add: bb_AddSmall_def bb_keys_def)
next
  case (bb_small_lost b rs cs out c)
  then show ?case by (simp add: bb_AddSmall_def bb_keys_def)
qed

text \<open>
  C21: the key range of a blob file is the span of its keys: under a comparator that orders the keys
  totally, and with no empty key, the smallest and the largest key the builder reports were added
  and every key added lies between them.
\<close>

theorem key_range_spans:
  assumes "bb_reach lib opts ver b rs cs out" "io_ok lib" "builder_supported lib opts ver"
    and "comparator (opt_comparator opts)" "[] \<notin> rec_key ` set rs" "rs \<noteq> []"
  shows "key_span (opt_comparator opts) (map rec_key rs) (bb_smallest_key b) (bb_largest_key b)"
  using bb_reach_span [OF assms(1-5)] assms(6) by simp

theorem key_range_spans_witness:
  "key_span bytewise_compare [[2], [1, 3]]
     (bb_smallest_key (fst (demo_two (\<lambda>_. OK) demo_options [2] [1, 3]))) (bb_largest_key (fst (demo_two (\<lambda>_. OK) demo_options [2] [1, 3])))"
proof -
  have "io_ok (demo_lib (\<lambda>_. OK))" by (simp add: io_ok_def demo_lib_def)
  from key_range_spans [OF demo_two_reach this demo_supported(1)] bytewise.comparator_axioms
  show ?thesis by (simp add: demo_record_def)
qed

lemma bb_reach_last_key:
  assumes "bb_reach lib opts ver b rs cs out" "io_ok lib" "builder_supported lib opts ver" "rs \<noteq> []" "rec_key (last rs) \<noteq> []"
  shows "bb_smallest_key b \<noteq> []"
  using assms(1,4,5)
proof (induction rule: bb_reach.induct)
  case (bb_add b rs cs out c r b' o1)
  have "bb_keys b' = bb_keys (update_keys (rec_key r) b)"
    using bb_Add_keys [OF bb_inv_status [OF bb_reach_inv [OF bb_add.hyps(1) assms(2,3)]] bb_add.hyps(3)] by simp
  then show ?case using bb_add.prems by (auto simp: bb_keys_def update_keys_def Let_def)
qed (simp_all add: bb_AddSmall_def)

text \<open>
  An empty key escapes the range. The builder takes an empty smallest key for none yet, so the
  next key replaces it. Under any comparator that puts the empty key before all others, if the
  empty key was added and the last key added is another one, then the empty key lies below the
  range the builder reports, which is not the span of the keys.
\<close>

lemma empty_key_escapes_range:
  assumes "bb_reach lib opts ver b rs cs out" "io_ok lib" "builder_supported lib opts ver"
    and "\<And>k. k \<noteq> [] \<Longrightarrow> opt_comparator opts [] k < 0 \<and> 0 < opt_comparator opts k []"
    and "[] \<in> rec_key ` set rs" "rec_key (last rs) \<noteq> []"
  shows "opt_comparator opts [] (bb_smallest_key b) < 0 \<and>
    \<not> key_span (opt_comparator opts) (map rec_key rs) (bb_smallest_key b) (bb_largest_key b)"
proof -
  have "rs \<noteq> []" using assms(5) by auto
  then have "bb_smallest_key b \<noteq> []" using bb_reach_last_key [OF assms(1-3) _ assms(6)] by simp
  then have "opt_comparator opts [] (bb_smallest_key b) < 0" "0 < opt_comparator opts (bb_smallest_key b) []" using assms(4) by auto
  then show ?thesis using assms(5) by (fastforce simp: key_span_def list_all_iff)
qed

end
