(* ===== verification/Titan_Files.thy ===== *)
theory Titan_Files
  imports Blob_File_Set Blob_File_Builder
begin

text \<open>
  The blob files of a database: the file manager of \<open>src/db_impl.cc\<close> through which flushes,
  compactions and garbage collections create, install and delete them, the purge of
  \<open>src/db_impl_files.cc\<close>, and the background error. \<open>tf_disk\<close> is what the directory holds under each
  number; \<open>FilesEnv\<close> is the outcome of the file operations and what the listeners make of an error.
\<close>

section \<open>Model\<close>

record TitanFiles =
  tf_set :: BlobFileSet
  tf_pending_outputs :: "u64 set"
  tf_bg_error :: status
  tf_disk :: "u64 \<Rightarrow> bytes option"
  tf_disable_deletions :: int

record FilesEnv =
  fe_new_file :: "u64 \<Rightarrow> status"
  fe_sync :: "u64 \<Rightarrow> status"
  fe_close :: "u64 \<Rightarrow> status"
  fe_fsync :: status
  fe_delete :: "u64 \<Rightarrow> status"
  fe_manifest :: ManifestIO
  fe_on_error :: "status \<Rightarrow> status"

definition SetBGError :: "FilesEnv \<Rightarrow> status \<Rightarrow> TitanFiles \<Rightarrow> status \<times> TitanFiles" where
  "SetBGError env s tf =
     (if s = OK then (s, tf)
      else let bg_err = fe_on_error env s
           in (bg_err, if bg_err \<noteq> OK then tf\<lparr> tf_bg_error := bg_err \<rparr> else tf))"

definition fm_NewFile :: "FilesEnv \<Rightarrow> TitanFiles \<Rightarrow> (status + u64) \<times> TitanFiles" where
  "fm_NewFile env tf =
     (let (number, fs) = NewFileNumber (tf_set tf);
          tf = tf\<lparr> tf_set := fs \<rparr>
      in if fe_new_file env number \<noteq> OK then (Inl (fe_new_file env number), tf)
         else (Inr number, tf\<lparr> tf_disk := (tf_disk tf)(number \<mapsto> []),
                               tf_pending_outputs := insert number (tf_pending_outputs tf) \<rparr>))"

text \<open>Syncing and closing one file, whose contents are then on disk.\<close>

definition fm_finish_one :: "FilesEnv \<Rightarrow> BlobFileMeta \<times> u64 \<times> WritableFile \<Rightarrow> VersionEdit \<times> TitanFiles \<Rightarrow> status \<times> VersionEdit \<times> TitanFiles" where
  "fm_finish_one env = (\<lambda>(meta, number, f) (edit, tf).
     if fe_sync env number \<noteq> OK then (fe_sync env number, edit, tf)
     else
       let tf = tf\<lparr> tf_disk := (tf_disk tf)(number \<mapsto> wf_contents f) \<rparr>
       in if fe_close env number \<noteq> OK then (fe_close env number, edit, tf)
          else (OK, ve_AddBlobFile meta edit, tf))"

definition fm_BatchFinishFiles ::
    "FilesEnv \<Rightarrow> u32 \<Rightarrow> (BlobFileMeta \<times> u64 \<times> WritableFile) list \<Rightarrow> TitanFiles \<Rightarrow> status \<times> TitanFiles" where
  "fm_BatchFinishFiles env cfid fs tf =
     (case while_ok (fm_finish_one env) fs (SetColumnFamilyID cfid VersionEdit_default, tf) of
        (s, edit, tf) \<Rightarrow>
          if s \<noteq> OK then (s, tf)
          else if fe_fsync env \<noteq> OK then (fe_fsync env, tf)
          else
            let (s, fs') = LogAndApply (fe_manifest env) edit (tf_set tf);
                tf = tf\<lparr> tf_set := fs' \<rparr>;
                tf = (if s \<noteq> OK then snd (SetBGError env s tf) else tf)
            in (s, tf\<lparr> tf_pending_outputs := tf_pending_outputs tf - (fst \<circ> snd) ` set fs \<rparr>))"

text \<open>The status of the last deletion is returned, the earlier ones are lost.\<close>

definition fm_delete :: "FilesEnv \<Rightarrow> u64 \<Rightarrow> TitanFiles \<Rightarrow> TitanFiles" where
  "fm_delete env number tf = (if fe_delete env number = OK then tf\<lparr> tf_disk := (tf_disk tf)(number := None) \<rparr> else tf)"

definition fm_BatchDeleteFiles :: "FilesEnv \<Rightarrow> u64 list \<Rightarrow> TitanFiles \<Rightarrow> status \<times> TitanFiles" where
  "fm_BatchDeleteFiles env numbers tf =
     (let tf = fold (fm_delete env) numbers tf
      in (if numbers = [] then OK else fe_delete env (last numbers),
          tf\<lparr> tf_pending_outputs := tf_pending_outputs tf - set numbers \<rparr>))"

text \<open>\<open>oldest_sequence\<close> is the one of the oldest snapshot. The status is never assigned.\<close>

definition PurgeObsoleteFilesImpl :: "FilesEnv \<Rightarrow> u64 \<Rightarrow> TitanFiles \<Rightarrow> status \<times> TitanFiles" where
  "PurgeObsoleteFilesImpl env oldest_sequence tf =
     (if 0 < tf_disable_deletions tf then (OK, tf)
      else
        let ((ns, manifests), fs) = fs_GetObsoleteFiles oldest_sequence (tf_set tf)
        in (OK, fold (fm_delete env) (remdups ns) (tf\<lparr> tf_set := fs \<rparr>)))"

text \<open>The first argument of each is what the base database answers.\<close>

definition DisableFileDeletions :: "status \<Rightarrow> TitanFiles \<Rightarrow> status \<times> TitanFiles" where
  "DisableFileDeletions base tf =
     (if base \<noteq> OK then (base, tf) else (OK, tf\<lparr> tf_disable_deletions := tf_disable_deletions tf + 1 \<rparr>))"

definition EnableFileDeletions :: "status \<Rightarrow> bool \<Rightarrow> TitanFiles \<Rightarrow> status \<times> TitanFiles" where
  "EnableFileDeletions base force tf =
     (if base \<noteq> OK then (base, tf)
      else (OK, tf\<lparr> tf_disable_deletions := (if force then 0 else if 0 < tf_disable_deletions tf then tf_disable_deletions tf - 1
                                              else tf_disable_deletions tf) \<rparr>))"

definition GetAllTitanFiles ::
    "status \<Rightarrow> status \<Rightarrow> TitanFiles \<Rightarrow> (status \<times> ((u64 list \<times> u64) \<times> VersionEdit list) option) \<times> TitanFiles" where
  "GetAllTitanFiles base_disable base_enable tf =
     (case DisableFileDeletions base_disable tf of
        (s, tf) \<Rightarrow>
          if s \<noteq> OK then ((s, None), tf)
          else
            let all = fs_GetAllFiles (tf_set tf); (s, tf) = EnableFileDeletions base_enable False tf
            in ((s, Some all), tf))"

end
