(* ===== verification/Blob_File_Reader.thy ===== *)
theory Blob_File_Reader
  imports Blob_File_Builder
begin

text \<open>
  \<open>src/blob_file_reader.{h,cc}\<close> and \<open>src/blob_file_cache.cc\<close>: reading records back, through the blob
  cache and the cache of open readers. A file is its contents and the outcome of a read at an
  offset; a read past the end returns the bytes there are. \<open>ReaderLib\<close> holds the decompression
  library and RocksDB's iterator over a meta index block: its status after \<open>Seek\<close> and the entry it
  stands on. The caches are maps; what they evict is up to them.
\<close>

section \<open>Model\<close>

record ReaderLib =
  rl_uncompress :: "bytes \<Rightarrow> byte \<Rightarrow> bytes \<Rightarrow> bytes option"
  rl_meta_seek :: "bytes \<Rightarrow> string \<Rightarrow> status \<times> (string \<times> bytes) option"
  rl_zstd_old :: bool

record RandomFile =
  rf_contents :: bytes
  rf_io :: "u64 \<Rightarrow> u64 \<Rightarrow> status"

definition rf_Read :: "RandomFile \<Rightarrow> u64 \<Rightarrow> u64 \<Rightarrow> status + bytes" where
  "rf_Read f off n =
     (if rf_io f off n \<noteq> OK then Inl (rf_io f off n) else Inr (take (unat n) (drop (unat off) (rf_contents f))))"

definition EncodeBlobCache :: "bytes \<Rightarrow> u64 \<Rightarrow> bytes" where
  "EncodeBlobCache prefix off = prefix @ PutVarint64 off"

text \<open>The handle of the block, \<open>None\<close> when the block is not found.\<close>

definition SeekToMetaBlock :: "ReaderLib \<Rightarrow> bytes \<Rightarrow> string \<Rightarrow> status + BlockHandle option" where
  "SeekToMetaBlock lib meta block_name =
     (case rl_meta_seek lib meta block_name of
        (s, entry) \<Rightarrow>
          if s = OK \<and> entry \<noteq> None \<and> fst (the entry) = block_name then
            (case BlockHandle_DecodeFrom (snd (the entry)) of Inl s \<Rightarrow> Inl s | Inr (h, _) \<Rightarrow> Inr (Some h))
          else if s = OK then Inr None else Inl s)"

text \<open>
  The block and the dictionary are taken from buffers of the size asked for: reading fewer bytes
  leaves the rest of the buffer undefined.
\<close>

definition InitUncompressionDict :: "ReaderLib \<Rightarrow> BlobFileFooter \<Rightarrow> RandomFile \<Rightarrow> status + bytes" where
  "InitUncompressionDict lib footer f =
     (if rl_zstd_old lib then Inl (NotSupported ''the version of libztsd is too low'')
      else if blk_size (meta_index_handle footer) = 0 then Inl (Undefined ''assert'')
      else
        case rf_Read f (blk_offset (meta_index_handle footer)) (blk_size (meta_index_handle footer)) of
          Inl s \<Rightarrow> Inl s
        | Inr meta \<Rightarrow>
            if length meta \<noteq> unat (blk_size (meta_index_handle footer)) then Inl (Undefined ''short block'')
            else
              (case SeekToMetaBlock lib meta kCompressionDictBlockName of
                 Inl s \<Rightarrow> Inl s
               | Inr None \<Rightarrow> Inl (NotFound ''uncompression dict'')
               | Inr (Some dict_block) \<Rightarrow>
                   (case rf_Read f (blk_offset dict_block) (blk_size dict_block) of
                      Inl s \<Rightarrow> Inl s
                    | Inr dict \<Rightarrow>
                        if length dict \<noteq> unat (blk_size dict_block) then Inl (Undefined ''short block'')
                        else Inr dict)))"

record BlobFileReader =
  rd_file :: RandomFile
  rd_cache_prefix :: "bytes option"
  rd_footer :: BlobFileFooter
  rd_dict :: "bytes option"

definition ReadHeader :: "RandomFile \<Rightarrow> status + BlobFileHeader" where
  "ReadHeader f =
     (case rf_Read f 0 12 of
        Inl s \<Rightarrow> Inl s
      | Inr buffer \<Rightarrow> DecodeInto BlobFileHeader_DecodeFrom buffer True)"

text \<open>\<open>prefix\<close> is what \<open>GenerateCachePrefix\<close> gets for the file, if there is a blob cache.\<close>

definition rd_Open :: "ReaderLib \<Rightarrow> bytes option \<Rightarrow> RandomFile \<Rightarrow> u64 \<Rightarrow> status + BlobFileReader" where
  "rd_Open lib prefix f fsize =
     (if fsize < kBlobFooterSize then Inl (Corruption ''file is too short to be a blob file'')
      else case ReadHeader f of
        Inl s \<Rightarrow> Inl s
      | Inr header \<Rightarrow>
          (case rf_Read f (fsize - kBlobFooterSize) kBlobFooterSize of
             Inl s \<Rightarrow> Inl s
           | Inr buffer \<Rightarrow>
               (case DecodeInto BlobFileFooter_DecodeFrom buffer False of
                  Inl s \<Rightarrow> Inl s
                | Inr footer \<Rightarrow>
                    let rd = \<lparr> rd_file = f, rd_cache_prefix = prefix, rd_footer = footer, rd_dict = None \<rparr>
                    in if hdr_flags header AND kHasUncompressionDictionary \<noteq> 0 then
                         (case InitUncompressionDict lib footer f of
                            Inl s \<Rightarrow> Inl s
                          | Inr dict \<Rightarrow> Inr (rd\<lparr> rd_dict := Some dict \<rparr>))
                       else Inr rd)))"

text \<open>
  The record, and the buffer that owns its bytes: what is left of the blob after the header, or
  the decompressed record.
\<close>

definition ReadRecord :: "ReaderLib \<Rightarrow> BlobFileReader \<Rightarrow> BlobHandle \<Rightarrow> status + (BlobRecord \<times> bytes)" where
  "ReadRecord lib rd h =
     (case rf_Read (rd_file rd) (bh_offset h) (bh_size h) of
        Inl s \<Rightarrow> Inl s
      | Inr blob \<Rightarrow>
          if unat (bh_size h) \<noteq> length blob then Inl (Corruption ''ReadRecord actual size not equal to blob size'')
          else
            let U = rl_uncompress lib (case rd_dict rd of None \<Rightarrow> [] | Some d \<Rightarrow> d) in
            (case DecodeHeader blob of
               Inl s \<Rightarrow> Inl s
             | Inr (d, blob) \<Rightarrow>
                 (case DecodeRecord U d blob of
                    Inl s \<Rightarrow> Inl s
                  | Inr (r, _) \<Rightarrow>
                      Inr (r, if dec_compression d = kNoCompression then blob
                              else the (U (dec_compression d) (take (unat (dec_record_size d)) blob))))))"

type_synonym blob_cache = "bytes \<Rightarrow> bytes option"

definition rd_Get :: "ReaderLib \<Rightarrow> BlobFileReader \<Rightarrow> BlobHandle \<Rightarrow> blob_cache \<Rightarrow> (status + BlobRecord) \<times> blob_cache" where
  "rd_Get lib rd h cache =
     (case rd_cache_prefix rd of
        None \<Rightarrow> (map_sum id fst (ReadRecord lib rd h), cache)
      | Some prefix \<Rightarrow>
          let cache_key = EncodeBlobCache prefix (bh_offset h) in
          (case cache cache_key of
             Some blob \<Rightarrow> (DecodeInto BlobRecord_DecodeFrom blob False, cache)
           | None \<Rightarrow>
               (case ReadRecord lib rd h of
                  Inl s \<Rightarrow> (Inl s, cache)
                | Inr (r, blob) \<Rightarrow> (Inr r, cache(cache_key \<mapsto> blob)))))"

definition kMaxReadaheadSize :: u64 where "kMaxReadaheadSize = 262144"

record BlobFilePrefetcher =
  pf_reader :: BlobFileReader
  pf_last_offset :: u64
  pf_readahead_size :: u64
  pf_readahead_limit :: u64

definition BlobFilePrefetcher_new :: "BlobFileReader \<Rightarrow> BlobFilePrefetcher" where
  "BlobFilePrefetcher_new rd = \<lparr> pf_reader = rd, pf_last_offset = 0, pf_readahead_size = 0, pf_readahead_limit = 0 \<rparr>"

text \<open>
  The result of the read, the caches, the prefetcher and the range the file is asked to prefetch, if
  any. The request is a hint: the source does not look at its outcome, and it does not change what
  the file reads.
\<close>

definition pf_Get ::
    "ReaderLib \<Rightarrow> BlobFilePrefetcher \<Rightarrow> BlobHandle \<Rightarrow> blob_cache
      \<Rightarrow> ((status + BlobRecord) \<times> blob_cache) \<times> BlobFilePrefetcher \<times> (u64 \<times> u64) option" where
  "pf_Get lib p h cache =
     (let (p, prefetched) =
        (if bh_offset h = pf_last_offset p then
           let p = p\<lparr> pf_last_offset := bh_offset h + bh_size h \<rparr>
           in if pf_readahead_limit p < bh_offset h + bh_size h then
                let n = max (bh_size h) (pf_readahead_size p)
                in (p\<lparr> pf_readahead_limit := bh_offset h + n, pf_readahead_size := min kMaxReadaheadSize (n * 2) \<rparr>,
                    Some (bh_offset h, n))
              else (p, None)
         else
           (p\<lparr> pf_last_offset := bh_offset h + bh_size h, pf_readahead_size := 0, pf_readahead_limit := 0 \<rparr>, None))
      in (rd_Get lib (pf_reader p) h cache, p, prefetched))"

section \<open>Model of the cache of readers\<close>

text \<open>
  The directory: the file of each number, or the error of opening it; and the cache prefix of
  each file.
\<close>

record BlobFileCache =
  fc_open :: "u64 \<Rightarrow> status + RandomFile"
  fc_prefix :: "u64 \<Rightarrow> bytes option"
  fc_cache :: "u64 \<Rightarrow> BlobFileReader option"

definition fc_FindFile :: "ReaderLib \<Rightarrow> u64 \<Rightarrow> u64 \<Rightarrow> BlobFileCache \<Rightarrow> (status + BlobFileReader) \<times> BlobFileCache" where
  "fc_FindFile lib fnum fsize fc =
     (case fc_cache fc fnum of
        Some rd \<Rightarrow> (Inr rd, fc)
      | None \<Rightarrow>
          (case fc_open fc fnum of
             Inl s \<Rightarrow> (Inl s, fc)
           | Inr f \<Rightarrow>
               (case rd_Open lib (fc_prefix fc fnum) f fsize of
                  Inl s \<Rightarrow> (Inl s, fc)
                | Inr rd \<Rightarrow> (Inr rd, fc\<lparr> fc_cache := (fc_cache fc)(fnum \<mapsto> rd) \<rparr>))))"

definition fc_Get ::
    "ReaderLib \<Rightarrow> u64 \<Rightarrow> u64 \<Rightarrow> BlobHandle \<Rightarrow> BlobFileCache \<Rightarrow> blob_cache
      \<Rightarrow> (status + BlobRecord) \<times> BlobFileCache \<times> blob_cache" where
  "fc_Get lib fnum fsize h fc cache =
     (case fc_FindFile lib fnum fsize fc of
        (Inl s, fc) \<Rightarrow> (Inl s, fc, cache)
      | (Inr rd, fc) \<Rightarrow> let (r, cache) = rd_Get lib rd h cache in (r, fc, cache))"

definition fc_NewPrefetcher :: "ReaderLib \<Rightarrow> u64 \<Rightarrow> u64 \<Rightarrow> BlobFileCache \<Rightarrow> (status + BlobFilePrefetcher) \<times> BlobFileCache" where
  "fc_NewPrefetcher lib fnum fsize fc =
     (case fc_FindFile lib fnum fsize fc of
        (Inl s, fc) \<Rightarrow> (Inl s, fc)
      | (Inr rd, fc) \<Rightarrow> (Inr (BlobFilePrefetcher_new rd), fc))"

definition fc_Evict :: "u64 \<Rightarrow> BlobFileCache \<Rightarrow> BlobFileCache" where
  "fc_Evict fnum fc = fc\<lparr> fc_cache := (fc_cache fc)(fnum := None) \<rparr>"

section \<open>Reading what a builder wrote\<close>

text \<open>
  The contract between the libraries of the two sides: what was compressed under a dictionary
  is decompressed under it, and a meta index block yields the entry written to it.
\<close>

definition libs_agree :: "BuilderLib \<Rightarrow> ReaderLib \<Rightarrow> bool" where
  "libs_agree bl rl \<longleftrightarrow>
     (\<forall>d. compression_ok (lib_compress bl d) (rl_uncompress rl d)) \<and>
     (\<forall>name h. lib_meta_index bl [(name, h)] \<noteq> [] \<and>
        rl_meta_seek rl (lib_meta_index bl [(name, h)]) name = (OK, Some (name, BlockHandle_EncodeTo h))) \<and>
     \<not> rl_zstd_old rl"

definition reads_ok :: "RandomFile \<Rightarrow> bool" where
  "reads_ok f \<longleftrightarrow> (\<forall>off n. rf_io f off n = OK)"

lemma rf_Read_part:
  assumes "reads_ok f" "rf_contents f = xs @ ys @ zs" "unat off = length xs" "unat n = length ys"
  shows "rf_Read f off n = Inr ys"
  using assms by (simp add: rf_Read_def reads_ok_def)

lemma block_handle_exact: "BlockHandle_DecodeFrom (BlockHandle_EncodeTo h) = Inr (h, [])"
  using block_handle.decode_encode [of h "[]"] by simp

text \<open>A file the builder can have written.\<close>

definition builder_output :: "BuilderLib \<Rightarrow> TitanCFOptions \<Rightarrow> u32 \<Rightarrow> bytes option \<Rightarrow> BlobRecord list \<Rightarrow> bytes \<Rightarrow> bool" where
  "builder_output bl opts ver dict rs c \<longleftrightarrow>
     builder_supported bl opts ver \<and> (dict = None \<longleftrightarrow> max_dict_bytes (blob_file_compression_options opts) = 0) \<and>
     c = builder_file bl opts ver dict rs \<and> length c < 2 ^ 64"

lemma builder_header_wf: "builder_supported bl opts ver \<Longrightarrow> BlobFileHeader_wf (builder_header opts ver)"
  by (auto simp: BlobFileHeader_wf_def builder_header_def builder_supported_def kHasUncompressionDictionary_def split: if_splits)

lemma length_footer [simp]: "length (BlobFileFooter_EncodeTo ft) = 32"
  by (simp add: length_BlobFileFooter kBlobFooterSize_def)

lemma length_block_trailer [simp]: "length (block_trailer x) = 5"
  by (simp add: block_trailer_def)

lemma file_tail_footer: "\<exists>mid ft. file_tail bl dict off = mid @ BlobFileFooter_EncodeTo ft"
proof (cases dict)
  case None
  then show ?thesis by (intro exI [of _ "[]"]) (auto simp: file_tail_def)
next
  case (Some d)
  then show ?thesis unfolding file_tail_def by (simp add: Let_def) (metis append.assoc append_Cons)
qed

lemma ReadHeader_built:
  assumes "reads_ok f" "builder_output bl opts ver dict rs (rf_contents f)"
  shows "ReadHeader f = Inr (builder_header opts ver)"
proof -
  let ?hdr = "BlobFileHeader_EncodeTo (builder_header opts ver)"
  obtain x where x: "rf_contents f = ?hdr @ x"
    using assms(2) by (auto simp: builder_output_def builder_file_def Let_def)
  have wf: "BlobFileHeader_wf (builder_header opts ver)" using assms(2) by (auto simp: builder_output_def intro: builder_header_wf)
  then have "length ?hdr \<le> 12" by (simp add: length_BlobFileHeader BlobFileHeader_size_def)
  then have "rf_Read f 0 12 = Inr (?hdr @ take (12 - length ?hdr) x)"
    using assms(1) by (simp add: rf_Read_def reads_ok_def x)
  then show ?thesis
    using blob_header.decode_encode [OF wf] by (simp add: ReadHeader_def DecodeInto_def)
qed

lemma InitUncompressionDict_built:
  assumes "reads_ok f" "libs_agree bl rl" "rf_contents f = pre @ file_tail bl (Some d) (length pre)" "length (rf_contents f) < 2 ^ 64"
  shows "\<exists>mid ft. file_tail bl (Some d) (length pre) = mid @ BlobFileFooter_EncodeTo ft \<and>
    InitUncompressionDict rl ft f = Inr d \<and> blk_size (meta_index_handle ft) \<noteq> 0 \<and>
    length mid = length d + unat (blk_size (meta_index_handle ft)) + 10"
proof -
  let ?dh = "\<lparr> blk_offset = of_nat (length pre), blk_size = of_nat (length d) \<rparr> :: BlockHandle"
  define mi where "mi = lib_meta_index bl [(kCompressionDictBlockName, ?dh)]"
  let ?mh = "\<lparr> blk_offset = of_nat (length pre + length d + 5), blk_size = of_nat (length mi) \<rparr> :: BlockHandle"
  let ?ft = "\<lparr> meta_index_handle = ?mh \<rparr>"
  have tail: "file_tail bl (Some d) (length pre) = d @ block_trailer d @ mi @ block_trailer mi @ BlobFileFooter_EncodeTo ?ft"
    unfolding file_tail_def Let_def mi_def [symmetric] option.case ..
  have c: "rf_contents f = (pre @ d @ block_trailer d) @ mi @ block_trailer mi @ BlobFileFooter_EncodeTo ?ft"
    "rf_contents f = pre @ d @ block_trailer d @ mi @ block_trailer mi @ BlobFileFooter_EncodeTo ?ft"
    using assms(3) tail by simp_all
  have sz: "length pre + length d + 5 + length mi + 37 < 2 ^ 64"
    using assms(4) unfolding c(2) by simp
  then have u: "unat (of_nat (length pre) :: u64) = length pre" "unat (of_nat (length d) :: u64) = length d"
    "unat (of_nat (length pre + length d + 5) :: u64) = length (pre @ d @ block_trailer d)" "unat (of_nat (length mi) :: u64) = length mi"
    by (simp_all add: unat_of_nat_u64 del: of_nat_add)
  have mi: "mi \<noteq> []" "rl_meta_seek rl mi kCompressionDictBlockName = (OK, Some (kCompressionDictBlockName, BlockHandle_EncodeTo ?dh))"
    "\<not> rl_zstd_old rl"
    using assms(2) by (simp_all add: libs_agree_def mi_def)
  have "SeekToMetaBlock rl mi kCompressionDictBlockName = Inr (Some ?dh)"
    by (simp add: SeekToMetaBlock_def mi(2) block_handle_exact)
  moreover have "rf_Read f (blk_offset ?mh) (blk_size ?mh) = Inr mi"
    by (rule rf_Read_part [OF assms(1) c(1)]) (simp_all add: u del: of_nat_add)
  moreover have "rf_Read f (blk_offset ?dh) (blk_size ?dh) = Inr d"
    by (rule rf_Read_part [OF assms(1) c(2)]) (simp_all add: u)
  moreover have nz: "blk_size ?mh \<noteq> 0" using mi(1) u(4) by (metis BlockHandle.select_convs(2) length_0_conv unat_0)
  ultimately have "InitUncompressionDict rl ?ft f = Inr d"
    using mi(3) u by (simp add: InitUncompressionDict_def del: of_nat_add)
  moreover have "file_tail bl (Some d) (length pre) = (d @ block_trailer d @ mi @ block_trailer mi) @ BlobFileFooter_EncodeTo ?ft"
    using tail by simp
  moreover have "length (d @ block_trailer d @ mi @ block_trailer mi) = length d + unat (blk_size (meta_index_handle ?ft)) + 10"
    using u(4) by simp
  ultimately show ?thesis using nz by (metis BlobFileFooter.select_convs(1))
qed

lemma footer_built:
  assumes "reads_ok f" "libs_agree bl rl" "builder_output bl opts ver dict rs (rf_contents f)"
  defines "pre \<equiv> BlobFileHeader_EncodeTo (builder_header opts ver) @ concat (builder_records bl opts dict rs)"
  shows "\<exists>mid ft. rf_contents f = pre @ mid @ BlobFileFooter_EncodeTo ft \<and>
    rf_Read f (of_nat (length (rf_contents f)) - kBlobFooterSize) kBlobFooterSize = Inr (BlobFileFooter_EncodeTo ft) \<and>
    (case dict of None \<Rightarrow> mid = [] \<and> meta_index_handle ft = NullBlockHandle
     | Some d \<Rightarrow> InitUncompressionDict rl ft f = Inr d \<and> blk_size (meta_index_handle ft) \<noteq> 0 \<and>
                 length mid = length d + unat (blk_size (meta_index_handle ft)) + 10)"
proof -
  have len: "length (rf_contents f) < 2 ^ 64" using assms(3) unfolding builder_output_def by blast
  have c: "rf_contents f = pre @ file_tail bl dict (length pre)"
    using assms(3) by (simp add: builder_output_def builder_file_def Let_def pre_def)
  have "\<exists>mid ft. file_tail bl dict (length pre) = mid @ BlobFileFooter_EncodeTo ft \<and>
    (case dict of None \<Rightarrow> mid = [] \<and> meta_index_handle ft = NullBlockHandle
     | Some d \<Rightarrow> InitUncompressionDict rl ft f = Inr d \<and> blk_size (meta_index_handle ft) \<noteq> 0 \<and>
                 length mid = length d + unat (blk_size (meta_index_handle ft)) + 10)"
  proof (cases dict)
    case None
    then show ?thesis by (auto simp: file_tail_def)
  next
    case (Some d)
    then show ?thesis using InitUncompressionDict_built [OF assms(1,2) _ len, of pre d] c by auto
  qed
  then obtain mid ft where t: "file_tail bl dict (length pre) = mid @ BlobFileFooter_EncodeTo ft"
    "case dict of None \<Rightarrow> mid = [] \<and> meta_index_handle ft = NullBlockHandle
     | Some d \<Rightarrow> InitUncompressionDict rl ft f = Inr d \<and> blk_size (meta_index_handle ft) \<noteq> 0 \<and>
                 length mid = length d + unat (blk_size (meta_index_handle ft)) + 10" by blast
  have c': "rf_contents f = (pre @ mid) @ BlobFileFooter_EncodeTo ft @ []" using c t(1) by simp
  have u: "unat (of_nat (length (rf_contents f)) :: u64) = length (rf_contents f)" using len by simp
  have le: "kBlobFooterSize \<le> of_nat (length (rf_contents f))"
    unfolding word_le_nat_alt u by (simp add: c' kBlobFooterSize_def)
  then have "unat (of_nat (length (rf_contents f)) - kBlobFooterSize) = length (rf_contents f) - 32"
    unfolding unat_sub [OF le] u by (simp add: kBlobFooterSize_def)
  then have "unat (of_nat (length (rf_contents f)) - kBlobFooterSize) = length (pre @ mid)"
    using arg_cong [OF c', of length] by simp
  then have "rf_Read f (of_nat (length (rf_contents f)) - kBlobFooterSize) kBlobFooterSize = Inr (BlobFileFooter_EncodeTo ft)"
    by (rule rf_Read_part [OF assms(1) c']) (simp add: kBlobFooterSize_def)
  then show ?thesis using c' t(2) by (intro exI [of _ mid] exI [of _ ft]) simp
qed

lemma builder_flags:
  assumes "builder_output bl opts ver dict rs c"
  shows "hdr_flags (builder_header opts ver) AND kHasUncompressionDictionary \<noteq> 0 \<longleftrightarrow> dict \<noteq> None"
  using assms by (simp add: builder_output_def builder_header_def kHasUncompressionDictionary_def word_gt_0)

lemma rd_Open_built:
  assumes "reads_ok f" "libs_agree bl rl" "builder_output bl opts ver dict rs (rf_contents f)"
  shows "\<exists>rd. rd_Open rl prefix f (of_nat (length (rf_contents f))) = Inr rd \<and> rd_file rd = f \<and> rd_dict rd = dict \<and>
    rd_cache_prefix rd = prefix"
proof -
  obtain mid ft where c: "rf_contents f = (BlobFileHeader_EncodeTo (builder_header opts ver) @ concat (builder_records bl opts dict rs)) @
      mid @ BlobFileFooter_EncodeTo ft"
    and r: "rf_Read f (of_nat (length (rf_contents f)) - kBlobFooterSize) kBlobFooterSize = Inr (BlobFileFooter_EncodeTo ft)"
    and d: "case dict of None \<Rightarrow> mid = [] \<and> meta_index_handle ft = NullBlockHandle
     | Some d \<Rightarrow> InitUncompressionDict rl ft f = Inr d \<and> blk_size (meta_index_handle ft) \<noteq> 0 \<and>
                 length mid = length d + unat (blk_size (meta_index_handle ft)) + 10"
    using footer_built [OF assms] by blast
  have d': "dict \<noteq> None \<Longrightarrow> InitUncompressionDict rl ft f = Inr (the dict)" using d by auto
  have "length (rf_contents f) < 2 ^ 64" using assms(3) unfolding builder_output_def by blast
  then have u: "unat (of_nat (length (rf_contents f)) :: u64) = length (rf_contents f)" by simp
  have "kBlobFooterSize \<le> of_nat (length (rf_contents f))"
    unfolding word_le_nat_alt u by (simp add: c kBlobFooterSize_def)
  moreover have "DecodeInto BlobFileFooter_DecodeFrom (BlobFileFooter_EncodeTo ft) False = Inr ft"
    using blob_footer.decode_encode [of ft "[]"] by (simp add: DecodeInto_def)
  ultimately show ?thesis
    using r d' builder_flags [OF assms(3)] ReadHeader_built [OF assms(1,3)] by (auto simp: rd_Open_def Let_def not_less)
qed

lemma handles_nth:
  "i < length ws \<Longrightarrow> handles off k ws ! i =
    \<lparr> bh_offset = of_nat (off + length (concat (take i ws))), bh_size = of_nat (length (ws ! i)), bh_index = of_nat (k + i) \<rparr>"
  by (induction off k ws arbitrary: i rule: handles.induct) (auto simp: nth_Cons split: nat.splits)

lemma concat_nth: "i < length ws \<Longrightarrow> concat ws = concat (take i ws) @ ws ! i @ concat (drop (Suc i) ws)"
  by (metis append_take_drop_id concat.simps(2) concat_append Cons_nth_drop_Suc)

text \<open>The record strings of the builder are those of the encoder.\<close>

lemma framed_record:
  "framed bl dict t (BlobRecord_EncodeTo r) =
     (let e = EncodeRecord (lib_compress bl (case dict of None \<Rightarrow> [] | Some d \<Rightarrow> d)) t r in enc_header e @ enc_record e)"
  by (simp add: framed_def EncodeRecord_def)

lemma DecodeRecord_built:
  assumes "libs_agree bl rl" "BlobRecord_wf r" "length (framed bl dict t (BlobRecord_EncodeTo r)) < 2 ^ 32"
  defines "U \<equiv> rl_uncompress rl (case dict of None \<Rightarrow> [] | Some d \<Rightarrow> d)"
  shows "\<exists>d body. framed bl dict t (BlobRecord_EncodeTo r) = take 9 (framed bl dict t (BlobRecord_EncodeTo r)) @ body \<and>
    DecodeHeader (framed bl dict t (BlobRecord_EncodeTo r) @ rest) = Inr (d, body @ rest) \<and> unat (dec_record_size d) = length body \<and>
    DecodeHeader (take 9 (framed bl dict t (BlobRecord_EncodeTo r))) = Inr (d, []) \<and>
    DecodeRecord U d (body @ rest') = Inr (r, rest') \<and>
    (if dec_compression d = kNoCompression then body else the (U (dec_compression d) (take (unat (dec_record_size d)) body))) =
      BlobRecord_EncodeTo r"
proof -
  let ?C = "lib_compress bl (case dict of None \<Rightarrow> [] | Some d \<Rightarrow> d)" and ?in = "BlobRecord_EncodeTo r"
  define e where "e = EncodeRecord ?C t r"
  have fr: "framed bl dict t ?in = enc_header e @ enc_record e" by (simp add: framed_record e_def Let_def)
  have l9: "length (enc_header e) = 9" by (simp add: e_def EncodeRecord_def)
  have cok: "compression_ok ?C U" using assms(1) by (simp add: libs_agree_def U_def)
  have len: "length (enc_record e) < 2 ^ 32" using assms(3) by (simp add: fr)
  have rc: "enc_record e = fst (Compress ?C t ?in)"
    by (simp add: e_def EncodeRecord_def EncodeSlice_def Let_def split: prod.splits)
  have dh: "DecodeHeader (enc_header e @ x) =
      Inr (\<lparr> dec_crc = Extend (crc32c_Value (EncodeFixed32 (of_nat (length (enc_record e))) @ [snd (Compress ?C t ?in)])) (enc_record e),
            dec_header_crc = crc32c_Value (EncodeFixed32 (of_nat (length (enc_record e))) @ [snd (Compress ?C t ?in)]),
            dec_record_size = of_nat (length (enc_record e)),
            dec_compression = snd (Compress ?C t ?in) \<rparr>, x)" for x
    unfolding rc by (simp add: e_def EncodeRecord_def DecodeHeader_EncodeSlice)
  obtain d where d: "DecodeHeader (enc_header e @ x) = Inr (d, x)" "unat (dec_record_size d) = length (enc_record e)"
    "dec_compression d = snd (Compress ?C t ?in)" for x
    using dh len by fastforce
  have dr: "DecodeRecord U d (enc_record e @ rest') = Inr (r, rest')" for rest'
    using DecodeRecord_EncodeRecord [OF assms(2) cok len [unfolded e_def], of rest'] d(1) [of "enc_record e @ rest'"]
    by (simp add: e_def [symmetric])
  have body: "if snd (Compress ?C t ?in) = kNoCompression then enc_record e = ?in else U (snd (Compress ?C t ?in)) (enc_record e) = Some ?in"
    unfolding rc using cok by (auto simp: Compress_def compression_ok_def split: option.splits)
  show ?thesis
    unfolding fr using d(1) [of "[]"] d(1) [of "enc_record e @ rest"] d(2,3) dr l9 body by (intro exI [of _ d] exI [of _ "enc_record e"]) auto
qed

lemma ReadRecord_built:
  assumes "reads_ok f" "libs_agree bl rl" "builder_output bl opts ver dict rs (rf_contents f)"
    and "rd_file rd = f" "rd_dict rd = dict" "i < length rs" "list_all BlobRecord_wf rs"
    and "list_all (\<lambda>w. length w < 2 ^ 32) (builder_records bl opts dict rs)"
  shows "ReadRecord rl rd (builder_handles bl opts ver dict rs ! i) = Inr (rs ! i, BlobRecord_EncodeTo (rs ! i))"
proof -
  let ?hdr = "BlobFileHeader_EncodeTo (builder_header opts ver)" and ?ws = "builder_records bl opts dict rs"
  let ?w = "framed bl dict (blob_file_compression opts) (BlobRecord_EncodeTo (rs ! i))"
  define pre where "pre = ?hdr @ concat (take i ?ws)"
  have i: "i < length ?ws" "?ws ! i = ?w" using assms(6) by (simp_all add: builder_records_def)
  have "concat ?ws = concat (take i ?ws) @ ?w @ concat (drop (Suc i) ?ws)" using concat_nth [OF i(1)] i(2) by simp
  then obtain post where c: "rf_contents f = pre @ ?w @ post" and len: "length (rf_contents f) < 2 ^ 64"
    using assms(3) by (auto simp: builder_output_def builder_file_def Let_def pre_def)
  have u: "unat (of_nat (length pre) :: u64) = length pre" "unat (of_nat (length ?w) :: u64) = length ?w"
    using len by (simp_all add: c)
  have h: "builder_handles bl opts ver dict rs ! i = \<lparr> bh_offset = of_nat (length pre), bh_size = of_nat (length ?w), bh_index = of_nat i \<rparr>"
    using handles_nth [OF i(1)] i(2) by (simp add: builder_handles_def pre_def)
  have "rf_Read f (of_nat (length pre)) (of_nat (length ?w)) = Inr ?w" by (rule rf_Read_part [OF assms(1) c u])
  moreover have wf: "BlobRecord_wf (rs ! i)" using assms(6,7) by (simp add: list_all_length)
  moreover have "length ?w < 2 ^ 32" unfolding i(2) [symmetric] using assms(8) i(1) unfolding list_all_length by blast
  ultimately show ?thesis
    using DecodeRecord_built [OF assms(2) wf, of dict "blob_file_compression opts" "[]" "[]"] u
    by (auto simp: ReadRecord_def h assms(4,5) Let_def)
qed

section \<open>The blob cache\<close>

text \<open>
  The states of a shared blob cache as a reader sees them: reads through the handles \<open>hs\<close> add to it,
  other readers add entries under keys this one does not use, and entries can go away at any time.
\<close>

inductive cache_reach :: "ReaderLib \<Rightarrow> BlobFileReader \<Rightarrow> BlobHandle list \<Rightarrow> blob_cache \<Rightarrow> bool" for lib rd hs where
  cache_empty: "cache_reach lib rd hs Map.empty"
| cache_get: "\<lbrakk>cache_reach lib rd hs c; h \<in> set hs\<rbrakk> \<Longrightarrow> cache_reach lib rd hs (snd (rd_Get lib rd h c))"
| cache_other: "\<lbrakk>cache_reach lib rd hs c; \<forall>prefix off. rd_cache_prefix rd = Some prefix \<longrightarrow> k \<noteq> EncodeBlobCache prefix off\<rbrakk>
    \<Longrightarrow> cache_reach lib rd hs (c(k \<mapsto> v))"
| cache_evict: "\<lbrakk>cache_reach lib rd hs c; c' \<subseteq>\<^sub>m c\<rbrakk> \<Longrightarrow> cache_reach lib rd hs c'"

definition cache_coherent :: "ReaderLib \<Rightarrow> BlobFileReader \<Rightarrow> BlobHandle list \<Rightarrow> blob_cache \<Rightarrow> bool" where
  "cache_coherent lib rd hs c \<longleftrightarrow>
     (\<forall>prefix off blob. rd_cache_prefix rd = Some prefix \<and> c (EncodeBlobCache prefix off) = Some blob \<longrightarrow>
        (\<exists>h\<in>set hs. bh_offset h = off \<and> map_sum id snd (ReadRecord lib rd h) = Inr blob))"

lemma EncodeBlobCache_inj: "EncodeBlobCache prefix a = EncodeBlobCache prefix b \<longleftrightarrow> a = b"
  using varint64.enc_inj [of a b] by (auto simp: EncodeBlobCache_def)

lemma cache_reach_coherent: "cache_reach lib rd hs c \<Longrightarrow> cache_coherent lib rd hs c"
proof (induction rule: cache_reach.induct)
  case cache_empty
  then show ?case by (simp add: cache_coherent_def)
next
  case (cache_get c h)
  show ?case
  proof (cases "rd_cache_prefix rd")
    case None
    then show ?thesis by (simp add: cache_coherent_def)
  next
    case (Some p)
    show ?thesis
      using cache_get Some EncodeBlobCache_inj
      by (auto simp: rd_Get_def Let_def cache_coherent_def split: option.splits sum.splits if_splits)
  qed
next
  case (cache_other c k v)
  then show ?case by (auto simp: cache_coherent_def split: if_splits)
next
  case (cache_evict c c')
  have "c x = Some y" if "c' x = Some y" for x y
    using cache_evict.hyps(2) that by (metis domI map_le_def)
  then show ?case using cache_evict.IH unfolding cache_coherent_def by blast
qed

text \<open>Handles with different offsets whose records own exactly their encoding can be cached.\<close>

lemma rd_Get_cached:
  assumes "cache_reach lib rd hs c" "h \<in> set hs" "inj_on bh_offset (set hs)"
    and "\<forall>h\<in>set hs. \<exists>r. ReadRecord lib rd h = Inr (r, BlobRecord_EncodeTo r) \<and> BlobRecord_wf r"
  shows "fst (rd_Get lib rd h c) = map_sum id fst (ReadRecord lib rd h)"
proof -
  obtain r where r: "ReadRecord lib rd h = Inr (r, BlobRecord_EncodeTo r)" "BlobRecord_wf r" using assms(2,4) by blast
  have "blob = BlobRecord_EncodeTo r" if hit: "rd_cache_prefix rd = Some p" "c (EncodeBlobCache p (bh_offset h)) = Some blob" for p blob
  proof -
    obtain h' where h': "h' \<in> set hs" "bh_offset h' = bh_offset h" "map_sum id snd (ReadRecord lib rd h') = Inr blob"
      using cache_reach_coherent [OF assms(1)] hit unfolding cache_coherent_def by blast
    then have "h' = h" using assms(2,3) by (auto dest: inj_onD)
    then show ?thesis using h'(3) r(1) by simp
  qed
  then show ?thesis
    using r(1) DecodeInto_record [OF r(2)] by (auto simp: rd_Get_def Let_def split: option.splits)
qed

lemma handles_inj:
  assumes "length hdr + length (concat ws) < 2 ^ 64" "\<forall>w\<in>set ws. w \<noteq> []"
  shows "inj_on bh_offset (set (handles (length hdr) k ws))"
proof -
  let ?off = "\<lambda>i. length hdr + length (concat (take i ws))"
  have lt: "?off i < ?off j" if "i < j" "j \<le> length ws" for i j
  proof -
    have "take j ws = take i ws @ take (j - i) (drop i ws)" using that(1) by (metis le_add_diff_inverse less_imp_le take_add)
    moreover have "take (j - i) (drop i ws) = ws ! i # take (j - i - 1) (drop (Suc i) ws)"
      using that by (simp add: Cons_nth_drop_Suc [symmetric] take_Cons')
    ultimately show ?thesis using assms(2) that by simp
  qed
  have small: "?off i < 2 ^ 64" if "i < length ws" for i using lt [OF that order_refl] assms(1) by simp
  have "i = j" if "i < length ws" "j < length ws" "(of_nat (?off i) :: u64) = of_nat (?off j)" for i j
  proof -
    have "?off i = ?off j" using that(3) small [OF that(1)] small [OF that(2)] by (metis unat_of_nat_u64)
    then show ?thesis using lt [of i j] lt [of j i] that(1,2) by (cases i j rule: linorder_cases) auto
  qed
  note inj = this
  show ?thesis
  proof (rule inj_onI)
    fix x y assume xy: "x \<in> set (handles (length hdr) k ws)" "y \<in> set (handles (length hdr) k ws)" "bh_offset x = bh_offset y"
    obtain i j where "i < length ws" "x = handles (length hdr) k ws ! i" "j < length ws" "y = handles (length hdr) k ws ! j"
      using xy(1,2) by (auto simp: in_set_conv_nth)
    then show "x = y" using xy(3) inj [of i j] by (simp add: handles_nth del: of_nat_add)
  qed
qed

lemma framed_nonempty: "framed bl dict t s \<noteq> []"
proof -
  have "length (framed bl dict t s) \<ge> 9" by (simp add: framed_def Let_def)
  then show ?thesis by auto
qed

lemma fill_handles:
  "length (blob_ctxs cs) = length hs \<Longrightarrow>
   map (\<lambda>c. bi_blob_handle (ctx_new_blob_index c)) (blob_ctxs (fill cs hs)) = hs"
proof (induction cs hs rule: fill.induct)
  case (2 c cs hs)
  then show ?case by (cases hs) (auto simp: set_handle_def split: if_splits)
qed simp

section \<open>Properties of reading\<close>

lemma builder_output_length:
  "builder_output bl opts ver dict rs c \<Longrightarrow>
   length (BlobFileHeader_EncodeTo (builder_header opts ver)) + length (concat (builder_records bl opts dict rs)) < 2 ^ 64"
  unfolding builder_output_def builder_file_def Let_def by (auto simp only: length_append)

lemma builder_records_small:
  assumes "builder_output bl opts ver dict rs c" "list_all (\<lambda>h. bh_size h < 2 ^ 32) (builder_handles bl opts ver dict rs)"
  shows "list_all (\<lambda>w. length w < 2 ^ 32) (builder_records bl opts dict rs)"
  unfolding list_all_length
proof (intro allI impI)
  let ?hdr = "BlobFileHeader_EncodeTo (builder_header opts ver)" and ?ws = "builder_records bl opts dict rs"
  fix i assume i: "i < length ?ws"
  have "builder_handles bl opts ver dict rs ! i =
      \<lparr> bh_offset = of_nat (length ?hdr + length (concat (take i ?ws))), bh_size = of_nat (length (?ws ! i)), bh_index = of_nat i \<rparr>"
    using handles_nth [OF i] by (simp add: builder_handles_def)
  moreover have "length (?ws ! i) < 2 ^ 64" using builder_output_length [OF assms(1)] concat_nth [OF i] by simp
  moreover have "bh_size (builder_handles bl opts ver dict rs ! i) < 2 ^ 32"
    using assms(2) i unfolding list_all_length by (simp add: builder_handles_def)
  ultimately show "length (?ws ! i) < 2 ^ 32" by (simp add: word_less_nat_alt)
qed

text \<open>The handles handed out for the records, in order.\<close>

definition out_handles :: "BlobRecordContext list \<Rightarrow> BlobHandle list" where
  "out_handles cs = map (\<lambda>c. bi_blob_handle (ctx_new_blob_index c)) (blob_ctxs cs)"

lemma built_file_output:
  assumes "bb_reach bl opts ver b rs cs out" "io_ok bl" "builder_supported bl opts ver" "bb_Finish bl b = (b', o1)"
    and "length (wf_contents (bb_file b')) < 2 ^ 64"
  obtains dict where "builder_output bl opts ver dict rs (wf_contents (bb_file b'))"
    "out_handles (out @ o1) = builder_handles bl opts ver dict rs"
proof -
  let ?hdr = "BlobFileHeader_EncodeTo (builder_header opts ver)"
  have inv: "length (blob_ctxs cs) = length rs" using bb_reach_inv [OF assms(1-3)] by (simp add: bb_inv_def Let_def)
  obtain dict where d: "dict = None \<longleftrightarrow> max_dict_bytes (blob_file_compression_options opts) = 0"
    "wf_contents (bb_file b') = builder_file bl opts ver dict rs" "out @ o1 = fill cs (builder_handles bl opts ver dict rs)"
    using builder_finish [OF assms(1-4)] by blast
  have "out_handles (out @ o1) = builder_handles bl opts ver dict rs"
    using fill_handles [of cs "builder_handles bl opts ver dict rs"] inv d(3)
    by (simp add: out_handles_def builder_handles_def builder_records_def)
  then show ?thesis using that [of dict] d assms(3,5) by (simp add: builder_output_def)
qed

text \<open>
  C29: what was written is read. For every file a builder finishes without write errors, a reader
  opens it, and the handle handed out for each record reads that record, through the blob cache in
  any state that reads, other files and evictions can bring about.
\<close>

theorem built_records_read:
  assumes "bb_reach bl opts ver b rs cs out" "io_ok bl" "builder_supported bl opts ver" "bb_Finish bl b = (b', o1)"
    and "libs_agree bl rl" "reads_ok f" "rf_contents f = wf_contents (bb_file b')"
    and "list_all BlobRecord_wf rs" "list_all (\<lambda>h. bh_size h < 2 ^ 32) (out_handles (out @ o1))" "length (wf_contents (bb_file b')) < 2 ^ 64"
  shows "\<exists>rd. rd_Open rl prefix f (GetFileSize (bb_file b')) = Inr rd \<and>
    (\<forall>cache i. cache_reach rl rd (out_handles (out @ o1)) cache \<and> i < length rs \<longrightarrow>
       fst (rd_Get rl rd (out_handles (out @ o1) ! i) cache) = Inr (rs ! i))"
proof -
  let ?hs = "out_handles (out @ o1)" and ?c = "wf_contents (bb_file b')"
  obtain dict where d: "builder_output bl opts ver dict rs ?c" "?hs = builder_handles bl opts ver dict rs"
    using built_file_output [OF assms(1-4,10)] .
  let ?ws = "builder_records bl opts dict rs" and ?hdr = "BlobFileHeader_EncodeTo (builder_header opts ver)"
  have c: "builder_output bl opts ver dict rs (rf_contents f)" "GetFileSize (bb_file b') = of_nat (length (rf_contents f))"
    using d(1) assms(7) by (simp_all add: GetFileSize_def)
  obtain rd where rd: "rd_Open rl prefix f (GetFileSize (bb_file b')) = Inr rd" "rd_file rd = f" "rd_dict rd = dict"
    using rd_Open_built [OF assms(6,5) c(1), of prefix] c(2) by auto
  have len: "length ?hdr + length (concat ?ws) < 2 ^ 64"
    by (rule builder_output_length [OF d(1)])
  have hs: "length ?hs = length rs" by (simp add: d(2) builder_handles_def builder_records_def)
  have small: "list_all (\<lambda>w. length w < 2 ^ 32) ?ws"
    by (rule builder_records_small [OF d(1)]) (use assms(9) d(2) in simp)
  have read: "ReadRecord rl rd (?hs ! i) = Inr (rs ! i, BlobRecord_EncodeTo (rs ! i)) \<and> BlobRecord_wf (rs ! i)" if "i < length rs" for i
    using ReadRecord_built [OF assms(6,5) c(1) rd(2,3) that assms(8) small] assms(8) that by (simp add: d(2) list_all_length)
  have "inj_on bh_offset (set ?hs)"
    unfolding d(2) builder_handles_def by (rule handles_inj [OF len]) (auto simp: builder_records_def framed_nonempty)
  moreover have "\<forall>h\<in>set ?hs. \<exists>r. ReadRecord rl rd h = Inr (r, BlobRecord_EncodeTo r) \<and> BlobRecord_wf r"
    using read hs by (metis in_set_conv_nth)
  ultimately have "fst (rd_Get rl rd (?hs ! i) cache) = Inr (rs ! i)" if "cache_reach rl rd ?hs cache" "i < length rs" for cache i
    using rd_Get_cached [OF that(1), of "?hs ! i"] that(2) hs read [OF that(2)] by simp
  then show ?thesis using rd(1) by blast
qed

definition demo_rlib :: ReaderLib where
  "demo_rlib = \<lparr> rl_uncompress = \<lambda>_ _ _. None,
     rl_meta_seek = \<lambda>b name. (OK, Some (name, drop 1 b)), rl_zstd_old = False \<rparr>"

definition demo_blib :: BuilderLib where
  "demo_blib = (demo_lib (\<lambda>_. OK))\<lparr> lib_meta_index := \<lambda>es. 0 # concat (map (BlockHandle_EncodeTo \<circ> snd) es) \<rparr>"

definition demo_built :: "BlobFileBuilder \<times> BlobRecordContext list" where
  "demo_built = bb_Add demo_blib (demo_record [1]) (demo_ctx [1])
     (BlobFileBuilder_new demo_blib demo_dict_options \<lparr> wf_contents = [], wf_ops = 0 \<rparr> 2)"

definition demo_finished :: "BlobFileBuilder \<times> BlobRecordContext list" where
  "demo_finished = bb_Finish demo_blib (fst demo_built)"

definition demo_file :: RandomFile where
  "demo_file = \<lparr> rf_contents = wf_contents (bb_file (fst demo_finished)), rf_io = \<lambda>_ _. OK \<rparr>"

lemma demo_bytes:
  "wf_contents (bb_file (fst demo_finished)) = [20, 166, 224, 43, 2, 0, 0, 0, 1, 0, 0, 0, 61, 30, 125, 59, 4, 0, 0, 0, 0,
     1, 1, 1, 5, 7, 0, 241, 0, 178, 31, 0, 25, 1, 0, 198, 87, 134, 167, 31, 3,
     0, 0, 0, 0, 0, 0, 0, 0, 0, 0, 0, 0, 0, 0, 0, 0, 0, 0, 198, 237, 57, 142,
     20, 166, 224, 43, 161, 22, 127, 196] \<and>
   out_handles (snd demo_built @ snd demo_finished) = [\<lparr> bh_offset = 12, bh_size = 13, bh_index = 0 \<rparr>]"
  by code_simp

lemmas demo_contents = demo_bytes [THEN conjunct1]

lemmas demo_out_handles [simp, code_unfold] = demo_bytes [THEN conjunct2]

lemma demo_file_code [code]: "demo_file = \<lparr> rf_contents = [20, 166, 224, 43, 2, 0, 0, 0, 1, 0, 0, 0, 61, 30, 125, 59, 4, 0, 0, 0, 0,
     1, 1, 1, 5, 7, 0, 241, 0, 178, 31, 0, 25, 1, 0, 198, 87, 134, 167, 31, 3,
     0, 0, 0, 0, 0, 0, 0, 0, 0, 0, 0, 0, 0, 0, 0, 0, 0, 0, 198, 237, 57, 142,
     20, 166, 224, 43, 161, 22, 127, 196], rf_io = \<lambda>_ _. OK \<rparr>"
  by (simp add: demo_file_def demo_contents)

lemma demo_finished_facts:
  "bb_reach demo_blib demo_dict_options 2 (fst demo_built) [demo_record [1]] [demo_ctx [1]] (snd demo_built)"
  "io_ok demo_blib" "builder_supported demo_blib demo_dict_options 2"
  "bb_Finish demo_blib (fst demo_built) = (fst demo_finished, snd demo_finished)" "libs_agree demo_blib demo_rlib"
  "reads_ok demo_file" "rf_contents demo_file = wf_contents (bb_file (fst demo_finished))" "list_all BlobRecord_wf [demo_record [1]]"
  "list_all (\<lambda>h. bh_size h < 2 ^ 32) (out_handles (snd demo_built @ snd demo_finished))"
  "length (wf_contents (bb_file (fst demo_finished))) = 71"
proof -
  have c: "\<not> ctx_has_value (demo_ctx [1])" by (simp add: demo_ctx_def Let_def)
  have "bb_Add demo_blib (demo_record [1]) (demo_ctx [1])
     (BlobFileBuilder_new demo_blib demo_dict_options \<lparr> wf_contents = [], wf_ops = 0 \<rparr> 2) = (fst demo_built, snd demo_built)"
    by (simp add: demo_built_def)
  from bb_reach.bb_add [OF bb_reach.bb_start c this]
  show "bb_reach demo_blib demo_dict_options 2 (fst demo_built) [demo_record [1]] [demo_ctx [1]] (snd demo_built)" by simp
  show "builder_supported demo_blib demo_dict_options 2" by code_simp
  show "length (wf_contents (bb_file (fst demo_finished))) = 71" by (simp add: demo_contents)
  show "list_all (\<lambda>h. bh_size h < 2 ^ 32) (out_handles (snd demo_built @ snd demo_finished))" by simp
qed (simp_all add: demo_finished_def io_ok_def demo_blib_def demo_lib_def libs_agree_def demo_rlib_def compression_ok_def
       demo_record_def BlobRecord_wf_def reads_ok_def demo_file_def)

theorem built_records_read_witness:
  "\<exists>rd. rd_Open demo_rlib (Some [7]) demo_file (GetFileSize (bb_file (fst demo_finished))) = Inr rd \<and>
      fst (rd_Get demo_rlib rd (out_handles (snd demo_built @ snd demo_finished) ! 0) Map.empty) = Inr (demo_record [1])"
  using built_records_read [OF demo_finished_facts(1-9), of "Some [7]"] demo_finished_facts(10) cache_reach.cache_empty
  by fastforce

section \<open>Prefetching\<close>

text \<open>A read that follows the last one ends inside the window that has been prefetched, and the read-ahead size stays within 256 KiB.\<close>

lemma pf_Get_sequential:
  assumes "bh_offset h = pf_last_offset p" "pf_readahead_size p \<le> kMaxReadaheadSize" "pf_Get lib p h cache = (res, p', prefetched)"
    and "unat (bh_offset h) + unat (max (bh_size h) kMaxReadaheadSize) < 2 ^ 64"
  shows "pf_last_offset p' = bh_offset h + bh_size h \<and> pf_last_offset p' \<le> pf_readahead_limit p' \<and> pf_readahead_size p' \<le> kMaxReadaheadSize"
proof (cases "pf_readahead_limit p < bh_offset h + bh_size h")
  case True
  let ?n = "max (bh_size h) (pf_readahead_size p)"
  have le: "bh_size h \<le> ?n" "?n \<le> max (bh_size h) kMaxReadaheadSize" using assms(2) by (auto simp: max_def)
  then have "unat (bh_offset h) + unat ?n < 2 ^ 64" using assms(4) by (simp add: word_le_nat_alt)
  then have "bh_offset h + bh_size h \<le> bh_offset h + ?n" using le(1) by (simp add: word_le_nat_alt unat_word_ariths)
  then show ?thesis using True assms(1,3) by (auto simp: pf_Get_def Let_def min_def)
next
  case False
  then show ?thesis using assms(1-3) by (auto simp: pf_Get_def Let_def)
qed

end
