(* ===== verification/Blob_File_Iterator.thy ===== *)
theory Blob_File_Iterator
  imports Blob_File_Reader
begin

text \<open>
  \<open>src/blob_file_iterator.{h,cc}\<close>: the cursor over the records of one blob file that garbage
  collection uses, and the merge of several of them by key. Reads go to the file as in
  \<open>Blob_File_Reader\<close>; prefetching has no effect on what they return.
\<close>

section \<open>Model of the iterator\<close>

definition kMinReadaheadSize :: u64 where "kMinReadaheadSize = 4096"
definition kDefaultPageSize :: u64 where "kDefaultPageSize = 4096"
definition kBlockTrailerSize :: u64 where "kBlockTrailerSize = 5"

record BlobFileIterator =
  it_file :: RandomFile
  it_file_number :: u64
  it_file_size :: u64
  it_file_entries :: u64
  it_options :: TitanCFOptions
  it_init :: bool
  it_end_of_blob_record :: u64
  it_status :: status
  it_valid :: bool
  it_dict :: "bytes option"
  it_iterate_offset :: u64
  it_iterate_index :: u64
  it_cur_record :: BlobRecord
  it_cur_offset :: u64
  it_cur_size :: u64
  it_cur_index :: u64
  it_header_size :: u64
  it_readahead_begin :: u64
  it_readahead_end :: u64
  it_readahead_size :: u64
  it_bitmap :: "BitMap option"

text \<open>The members the constructor leaves uninitialised are the arguments \<open>junk\<close>.\<close>

definition BlobFileIterator_new ::
    "u64 \<Rightarrow> RandomFile \<Rightarrow> u64 \<Rightarrow> u64 \<Rightarrow> TitanCFOptions \<Rightarrow> u64 \<Rightarrow> BlobFileIterator" where
  "BlobFileIterator_new junk f fnum fsize opts entries =
     \<lparr> it_file = f, it_file_number = fnum, it_file_size = fsize, it_file_entries = entries, it_options = opts,
       it_init = False, it_end_of_blob_record = 0, it_status = OK, it_valid = False, it_dict = None,
       it_iterate_offset = 0, it_iterate_index = 0, it_cur_record = \<lparr> rec_key = [], rec_value = [] \<rparr>,
       it_cur_offset = junk, it_cur_size = junk, it_cur_index = junk, it_header_size = junk,
       it_readahead_begin = 0, it_readahead_end = 0, it_readahead_size = kMinReadaheadSize, it_bitmap = None \<rparr>"

text \<open>
  The footer as decoding leaves it: the handle is set before the checks that can fail, and cleared
  if it cannot be decoded.
\<close>

definition footer_left :: "bytes \<Rightarrow> BlobFileFooter" where
  "footer_left src =
     \<lparr> meta_index_handle = (case BlockHandle_DecodeFrom src of Inl _ \<Rightarrow> NullBlockHandle | Inr (h, _) \<Rightarrow> h) \<rparr>"

text \<open>The status of decoding the footer is kept but not looked at.\<close>

definition it_Init :: "ReaderLib \<Rightarrow> BlobFileIterator \<Rightarrow> bool \<times> BlobFileIterator" where
  "it_Init lib it =
     (case rf_Read (it_file it) 0 12 of
        Inl s \<Rightarrow> (False, it\<lparr> it_status := s \<rparr>)
      | Inr src \<Rightarrow>
          (case DecodeInto BlobFileHeader_DecodeFrom src True of
             Inl s \<Rightarrow> (False, it\<lparr> it_status := s \<rparr>)
           | Inr header \<Rightarrow>
               let it = it\<lparr> it_header_size := BlobFileHeader_size header \<rparr> in
               (case rf_Read (it_file it) (it_file_size it - kBlobFooterSize) kBlobFooterSize of
                  Inl s \<Rightarrow> (False, it\<lparr> it_status := s \<rparr>)
                | Inr src \<Rightarrow>
                    let footer = footer_left src;
                        s = (case BlobFileFooter_DecodeFrom src of Inl s \<Rightarrow> s | Inr _ \<Rightarrow> OK);
                        e = it_file_size it - kBlobFooterSize;
                        e = (if BlockHandle_IsNull (meta_index_handle footer) then e
                             else e - (blk_size (meta_index_handle footer) + kBlockTrailerSize));
                        it = it\<lparr> it_status := s, it_end_of_blob_record := e \<rparr>;
                        dict = (if hdr_flags header AND kHasUncompressionDictionary \<noteq> 0
                                then map_sum id Some (InitUncompressionDict lib footer (it_file it)) else Inr None)
                    in (case dict of
                          Inl s \<Rightarrow> (False, it\<lparr> it_status := s \<rparr>)
                        | Inr d \<Rightarrow>
                            let it = (case d of None \<Rightarrow> it
                                      | Some d \<Rightarrow> it\<lparr> it_status := OK, it_dict := Some d,
                                                     it_end_of_blob_record := e - (of_nat (length d) + kBlockTrailerSize) \<rparr>)
                            in if it_end_of_blob_record it \<le> 8 then (False, it\<lparr> it_status := Undefined ''assert'' \<rparr>)
                               else (True, it\<lparr> it_init := True \<rparr>)))))"

definition it_uncompress :: "ReaderLib \<Rightarrow> BlobFileIterator \<Rightarrow> byte \<Rightarrow> bytes \<Rightarrow> bytes option" where
  "it_uncompress lib it = rl_uncompress lib (case it_dict it of None \<Rightarrow> [] | Some d \<Rightarrow> d)"

definition it_GetBlobRecord :: "ReaderLib \<Rightarrow> BlobFileIterator \<Rightarrow> BlobFileIterator" where
  "it_GetBlobRecord lib it =
     (case rf_Read (it_file it) (it_iterate_offset it) kRecordHeaderSize of
        Inl s \<Rightarrow> it\<lparr> it_status := s \<rparr>
      | Inr header_buffer \<Rightarrow>
          (case DecodeHeader header_buffer of
             Inl s \<Rightarrow> it\<lparr> it_status := s \<rparr>
           | Inr (d, _) \<Rightarrow>
               let record_size = ucast (dec_record_size d) in
               (case rf_Read (it_file it) (it_iterate_offset it + kRecordHeaderSize) record_size of
                  Inl s \<Rightarrow> it\<lparr> it_status := s \<rparr>
                | Inr record_slice \<Rightarrow>
                    (case DecodeRecord (it_uncompress lib it) d record_slice of
                       Inl s \<Rightarrow> it\<lparr> it_status := s \<rparr>
                     | Inr (r, _) \<Rightarrow>
                         it\<lparr> it_status := OK, it_cur_record := r, it_cur_offset := it_iterate_offset it,
                             it_cur_size := kRecordHeaderSize + record_size, it_cur_index := it_iterate_index it,
                             it_iterate_index := it_iterate_index it + 1,
                             it_iterate_offset := it_iterate_offset it + (kRecordHeaderSize + record_size),
                             it_valid := True \<rparr>))))"

text \<open>The loop that doubles the read-ahead; it never ends from a read-ahead of zero.\<close>

partial_function (option) grow_readahead :: "u64 \<Rightarrow> u64 \<Rightarrow> u64 \<Rightarrow> u64 option" where
  "grow_readahead e limit n =
     (if e + n \<le> limit \<and> n < kMaxReadaheadSize then grow_readahead e limit (push_bit 1 n) else Some n)"

definition it_realign :: "BlobFileIterator \<Rightarrow> BlobFileIterator" where
  "it_realign it =
     (if it_iterate_offset it < it_readahead_begin it \<or> it_readahead_end it < it_iterate_offset it then
        let b = it_iterate_offset it - (it_iterate_offset it AND (kDefaultPageSize - 1))
        in it\<lparr> it_readahead_begin := b, it_readahead_end := b, it_readahead_size := kMinReadaheadSize \<rparr>
      else it)"

declare grow_readahead.simps [code]

text \<open>\<open>None\<close>: the loop does not end.\<close>

definition it_prefetch :: "BlobFileIterator \<Rightarrow> BlobFileIterator option" where
  "it_prefetch it =
     (let min_blob = it_iterate_offset it + kRecordHeaderSize + min_blob_size (it_options it)
      in if it_readahead_end it \<le> min_blob then
           (case grow_readahead (it_readahead_end it) min_blob (it_readahead_size it) of
              None \<Rightarrow> None
            | Some n \<Rightarrow> Some (it\<lparr> it_readahead_end := it_readahead_end it + n,
                                 it_readahead_size := min kMaxReadaheadSize (push_bit 1 n) \<rparr>))
         else Some it)"

definition it_PrefetchAndGet :: "ReaderLib \<Rightarrow> BlobFileIterator \<Rightarrow> BlobFileIterator option" where
  "it_PrefetchAndGet lib it =
     (if it_end_of_blob_record it \<le> it_iterate_offset it \<or> it_file_entries it \<le> it_iterate_index it
      then Some (it\<lparr> it_valid := False \<rparr>)
      else case it_prefetch (it_realign it) of
             None \<Rightarrow> None
           | Some it \<Rightarrow>
               let it = it_GetBlobRecord lib it
               in Some (if it_readahead_end it < it_iterate_offset it
                        then it\<lparr> it_readahead_end := it_iterate_offset it \<rparr> else it))"

definition it_SeekToFirst :: "ReaderLib \<Rightarrow> BlobFileIterator \<Rightarrow> BlobFileIterator option" where
  "it_SeekToFirst lib it =
     (let (ok, it) = (if it_init it then (True, it) else it_Init lib it)
      in if \<not> ok then Some it
         else it_PrefetchAndGet lib (it\<lparr> it_status := OK, it_iterate_offset := it_header_size it \<rparr>))"

definition it_Valid :: "BlobFileIterator \<Rightarrow> bool" where
  "it_Valid it \<longleftrightarrow> it_valid it \<and> it_status it = OK"

definition it_Next :: "ReaderLib \<Rightarrow> BlobFileIterator \<Rightarrow> BlobFileIterator option" where
  "it_Next lib it =
     (if it_init it then it_PrefetchAndGet lib it else Some (it\<lparr> it_status := Undefined ''assert'' \<rparr>))"

text \<open>
  The loop of \<open>IterateForPrev\<close>: skip records until the offset is reached; the last total length is
  kept for stepping back.
\<close>

partial_function (option) skip_records :: "u64 \<Rightarrow> u64 \<Rightarrow> BlobFileIterator \<Rightarrow> (u64 \<times> BlobFileIterator) option" where
  "skip_records off total_length it =
     (if it_iterate_offset it < off then
        (case rf_Read (it_file it) (it_iterate_offset it) kRecordHeaderSize of
           Inl s \<Rightarrow> Some (total_length, it\<lparr> it_status := s \<rparr>)
         | Inr header_buffer \<Rightarrow>
             (case DecodeHeader header_buffer of
                Inl s \<Rightarrow> Some (total_length, it\<lparr> it_status := s \<rparr>)
              | Inr (d, _) \<Rightarrow>
                  let total_length = kRecordHeaderSize + ucast (dec_record_size d)
                  in skip_records off total_length
                       (it\<lparr> it_status := OK, it_iterate_index := it_iterate_index it + 1,
                            it_iterate_offset := it_iterate_offset it + total_length \<rparr>)))
      else Some (total_length, it))"

declare skip_records.simps [code]

definition it_IterateForPrev :: "ReaderLib \<Rightarrow> u64 \<Rightarrow> BlobFileIterator \<Rightarrow> BlobFileIterator option" where
  "it_IterateForPrev lib off it =
     (let (ok, it) = (if it_init it then (True, it) else it_Init lib it)
      in if \<not> ok then Some it
         else if it_end_of_blob_record it \<le> off then
           Some (it\<lparr> it_iterate_offset := off, it_status := InvalidArgument ''Out of bound'' \<rparr>)
         else
           case skip_records off 0 (it\<lparr> it_status := OK, it_iterate_offset := it_header_size it, it_iterate_index := 0 \<rparr>) of
             None \<Rightarrow> None
           | Some (total_length, it) \<Rightarrow>
               if it_status it \<noteq> OK then Some it
               else
                 let it = (if off < it_iterate_offset it
                           then it\<lparr> it_iterate_offset := it_iterate_offset it - total_length,
                                    it_iterate_index := it_iterate_index it - 1 \<rparr>
                           else it)
                 in Some (it\<lparr> it_valid := False \<rparr>))"

definition it_GetBlobIndex :: "BlobFileIterator \<Rightarrow> BlobIndex" where
  "it_GetBlobIndex it =
     \<lparr> bi_file_number = it_file_number it,
       bi_blob_handle = \<lparr> bh_offset = it_cur_offset it, bh_size = it_cur_size it, bh_index = it_cur_index it \<rparr>,
       bi_old_file_number = 0, bi_old_blob_handle = BlobHandle_default \<rparr>"

text \<open>\<open>None\<close> stands for the failed assertion and the missing bitmap.\<close>

definition it_ValidateByBitMap :: "BlobFileIterator \<Rightarrow> bool option" where
  "it_ValidateByBitMap it =
     (case it_bitmap it of
        None \<Rightarrow> None
      | Some b \<Rightarrow> (case GetBit b (it_cur_index it) of Inl _ \<Rightarrow> None | Inr result \<Rightarrow> Some (result = 0)))"

definition it_SetBitMap :: "BitMap \<Rightarrow> BlobFileIterator \<Rightarrow> BlobFileIterator" where
  "it_SetBitMap b it = it\<lparr> it_bitmap := Some b \<rparr>"

section \<open>The loops end\<close>

lemma push_bit_1_u64: "unat (n :: u64) < 2 ^ 63 \<Longrightarrow> unat (push_bit 1 n) = 2 * unat n"
  by (simp add: push_bit_eq_mult unat_mult_lem [THEN iffD1])

lemma grow_readahead_returns:
  assumes "0 < unat n" "unat n \<le> 2 ^ 18"
  shows "\<exists>m. grow_readahead e limit n = Some m \<and> n \<le> m \<and> unat m \<le> 2 ^ 19"
  using assms
proof (induction "2 ^ 18 - unat n" arbitrary: n rule: less_induct)
  case less
  show ?case
  proof (cases "e + n \<le> limit \<and> n < kMaxReadaheadSize")
    case True
    then have lt: "unat n < 2 ^ 18" by (simp add: word_less_nat_alt kMaxReadaheadSize_def)
    then have u: "unat (push_bit 1 n) = 2 * unat n" by (intro push_bit_1_u64) simp
    have step: "grow_readahead e limit n = grow_readahead e limit (push_bit 1 n)"
      using True by (subst grow_readahead.simps) simp
    have le: "n \<le> push_bit 1 n" using u by (simp add: word_le_nat_alt)
    show ?thesis
    proof (cases "unat (push_bit 1 n) \<le> 2 ^ 18")
      case True
      have "2 ^ 18 - unat (push_bit 1 n) < 2 ^ 18 - unat n" using u lt less.prems(1) by simp
      from less.hyps [OF this _ True] show ?thesis using u less.prems(1) le step by fastforce
    next
      case False
      then have "\<not> push_bit 1 n < kMaxReadaheadSize" by (simp add: word_less_nat_alt kMaxReadaheadSize_def)
      then have "grow_readahead e limit (push_bit 1 n) = Some (push_bit 1 n)" by (subst grow_readahead.simps) simp
      then show ?thesis using step le u lt by simp
    qed
  next
    case False
    then have "grow_readahead e limit n = Some n" by (subst grow_readahead.simps) auto
    then show ?thesis using less.prems by simp
  qed
qed

text \<open>What every operation keeps: a read-ahead between 1 byte and 256 KiB, and the file.\<close>

definition readahead_ok :: "BlobFileIterator \<Rightarrow> bool" where
  "readahead_ok it \<longleftrightarrow> 0 < it_readahead_size it \<and> it_readahead_size it \<le> kMaxReadaheadSize"

text \<open>Two states that differ in the read-ahead only.\<close>

definition same_but_readahead :: "BlobFileIterator \<Rightarrow> BlobFileIterator \<Rightarrow> bool" where
  "same_but_readahead it it' \<longleftrightarrow>
     (\<exists>b e n. it' = it\<lparr> it_readahead_begin := b, it_readahead_end := e, it_readahead_size := n \<rparr>)"

lemma same_but_readaheadI:
  "same_but_readahead it (it\<lparr> it_readahead_begin := b, it_readahead_end := e, it_readahead_size := n \<rparr>)"
  "same_but_readahead it it" "same_but_readahead it (it\<lparr> it_readahead_end := e, it_readahead_size := n \<rparr>)"
proof -
  have "it = it\<lparr> it_readahead_begin := it_readahead_begin it, it_readahead_end := it_readahead_end it, it_readahead_size := it_readahead_size it \<rparr>"
    and "it\<lparr> it_readahead_end := e, it_readahead_size := n \<rparr> =
      it\<lparr> it_readahead_begin := it_readahead_begin it, it_readahead_end := e, it_readahead_size := n \<rparr>"
    by simp_all
  then show "same_but_readahead it it" "same_but_readahead it (it\<lparr> it_readahead_end := e, it_readahead_size := n \<rparr>)"
    unfolding same_but_readahead_def by blast+
qed (auto simp: same_but_readahead_def)

lemma same_but_readahead_trans:
  "same_but_readahead a b \<Longrightarrow> same_but_readahead b c \<Longrightarrow> same_but_readahead a c"
  unfolding same_but_readahead_def by (elim exE) (simp, blast)

lemma it_realign_ok: "readahead_ok it \<Longrightarrow> readahead_ok (it_realign it) \<and> same_but_readahead it (it_realign it)"
  by (auto simp: it_realign_def Let_def readahead_ok_def kMinReadaheadSize_def kMaxReadaheadSize_def intro: same_but_readaheadI)

lemma it_prefetch_returns:
  assumes "readahead_ok it"
  shows "\<exists>it'. it_prefetch it = Some it' \<and> readahead_ok it' \<and> same_but_readahead it it'"
proof -
  define lim where "lim = it_iterate_offset it + kRecordHeaderSize + min_blob_size (it_options it)"
  have pos: "0 < unat (it_readahead_size it)" "unat (it_readahead_size it) \<le> 2 ^ 18"
    using assms by (simp_all add: readahead_ok_def word_le_nat_alt word_less_nat_alt kMaxReadaheadSize_def)
  from grow_readahead_returns [OF this, of "it_readahead_end it" lim]
  obtain m where m: "grow_readahead (it_readahead_end it) lim (it_readahead_size it) = Some m"
    "it_readahead_size it \<le> m" "unat m \<le> 2 ^ 19" by blast
  have "unat (push_bit 1 m) = 2 * unat m" using m(3) by (intro push_bit_1_u64) simp
  moreover have "0 < unat m" using m(2) pos(1) by (simp add: word_le_nat_alt)
  ultimately have "0 < push_bit 1 m" by (simp add: word_less_nat_alt)
  then have n: "0 < min kMaxReadaheadSize (push_bit 1 m)" by (simp add: kMaxReadaheadSize_def)
  have "it_prefetch it = (if it_readahead_end it \<le> lim
      then Some (it\<lparr> it_readahead_end := it_readahead_end it + m, it_readahead_size := min kMaxReadaheadSize (push_bit 1 m) \<rparr>)
      else Some it)"
    unfolding it_prefetch_def Let_def lim_def [symmetric] by (simp add: m(1))
  then show ?thesis using assms n by (auto simp: readahead_ok_def intro: same_but_readaheadI)
qed

text \<open>The state an operation leaves, where the properties of looping need it.\<close>

definition it_keeps :: "BlobFileIterator \<Rightarrow> BlobFileIterator \<Rightarrow> bool" where
  "it_keeps it it' \<longleftrightarrow> readahead_ok it' \<and> it_file it' = it_file it"

lemma it_GetBlobRecord_keeps: "readahead_ok it \<Longrightarrow> it_keeps it (it_GetBlobRecord lib it)"
  by (simp add: it_GetBlobRecord_def it_keeps_def readahead_ok_def Let_def split: sum.splits prod.splits)

lemma it_Init_keeps: "readahead_ok it \<Longrightarrow> it_keeps it (snd (it_Init lib it))"
  by (simp add: it_Init_def it_keeps_def readahead_ok_def Let_def split: sum.splits option.splits)

lemma it_PrefetchAndGet_returns:
  assumes "readahead_ok it"
  shows "\<exists>it'. it_PrefetchAndGet lib it = Some it' \<and> it_keeps it it'"
proof (cases "it_end_of_blob_record it \<le> it_iterate_offset it \<or> it_file_entries it \<le> it_iterate_index it")
  case True
  then show ?thesis using assms by (simp add: it_PrefetchAndGet_def it_keeps_def readahead_ok_def)
next
  case False
  obtain it1 where it1: "it_prefetch (it_realign it) = Some it1" "readahead_ok it1" "same_but_readahead it it1"
    using it_prefetch_returns [of "it_realign it"] it_realign_ok [OF assms] by (blast intro: same_but_readahead_trans)
  have "it_keeps it1 (it_GetBlobRecord lib it1)" by (rule it_GetBlobRecord_keeps [OF it1(2)])
  moreover have "it_file it1 = it_file it" using it1(3) by (auto simp: same_but_readahead_def)
  ultimately show ?thesis using False it1(1) by (simp add: it_PrefetchAndGet_def it_keeps_def readahead_ok_def Let_def)
qed

lemma DecodeHeader_empty: "DecodeHeader [] = Inl (Corruption ''BlobHeader'')"
  by (simp add: DecodeHeader_def GetFixed32_def)

lemma skip_records_returns:
  assumes "length (rf_contents (it_file it)) < 2 ^ 63"
  shows "\<exists>t it'. skip_records off tot it = Some (t, it') \<and>
    it_file it' = it_file it \<and> it_readahead_size it' = it_readahead_size it"
  using assms
proof (induction "2 ^ 64 - unat (it_iterate_offset it)" arbitrary: it tot rule: less_induct)
  case less
  consider "\<not> it_iterate_offset it < off"
    | s where "rf_Read (it_file it) (it_iterate_offset it) kRecordHeaderSize = Inl s"
    | b s where "rf_Read (it_file it) (it_iterate_offset it) kRecordHeaderSize = Inr b" "DecodeHeader b = Inl s"
    | b d r where "it_iterate_offset it < off" "rf_Read (it_file it) (it_iterate_offset it) kRecordHeaderSize = Inr b" "DecodeHeader b = Inr (d, r)"
    by (cases "rf_Read (it_file it) (it_iterate_offset it) kRecordHeaderSize") (auto, metis sumE surj_pair)
  then show ?case
  proof cases
    case (4 b d r)
    let ?t = "kRecordHeaderSize + ucast (dec_record_size d)"
    let ?it = "it\<lparr> it_status := OK, it_iterate_index := it_iterate_index it + 1, it_iterate_offset := it_iterate_offset it + ?t \<rparr>"
    have "b \<noteq> []" using 4(3) by (auto simp: DecodeHeader_empty)
    then have "unat (it_iterate_offset it) < length (rf_contents (it_file it))"
      using 4(2) by (auto simp: rf_Read_def split: if_splits)
    then have small: "unat (it_iterate_offset it) < 2 ^ 63" using less.prems by simp
    have "unat (ucast (dec_record_size d) :: u64) < 2 ^ 32" using unsigned_less [of "dec_record_size d"] by (simp add: unsigned_ucast_eq take_bit_eq_mod)
    then have t: "unat ?t = 9 + unat (ucast (dec_record_size d) :: u64)"
      by (simp add: kRecordHeaderSize_def unat_add_lem [THEN iffD1])
    then have "unat (it_iterate_offset it + ?t) = unat (it_iterate_offset it) + unat ?t"
      using small \<open>unat (ucast _) < 2 ^ 32\<close> by (intro unat_add_lem [THEN iffD1]) simp
    then have "2 ^ 64 - unat (it_iterate_offset ?it) < 2 ^ 64 - unat (it_iterate_offset it)" using t small by simp
    from less.hyps [OF this, of ?t] less.prems
    show ?thesis using 4 by (subst skip_records.simps) (simp add: Let_def)
  qed (subst skip_records.simps, simp)+
qed

lemma it_SeekToFirst_returns:
  assumes "readahead_ok it"
  shows "\<exists>it'. it_SeekToFirst lib it = Some it' \<and> it_keeps it it'"
proof -
  obtain ok it1 where i: "(if it_init it then (True, it) else it_Init lib it) = (ok, it1)" by fastforce
  then have k: "it_keeps it it1" using it_Init_keeps [OF assms, of lib] assms by (auto simp: it_keeps_def split: if_splits)
  show ?thesis
  proof (cases ok)
    case True
    let ?it = "it1\<lparr> it_status := OK, it_iterate_offset := it_header_size it1 \<rparr>"
    have "readahead_ok ?it" using k by (simp add: it_keeps_def readahead_ok_def)
    from it_PrefetchAndGet_returns [OF this, of lib] show ?thesis
      unfolding it_SeekToFirst_def i using True k by (auto simp: it_keeps_def)
  next
    case False
    then show ?thesis unfolding it_SeekToFirst_def i using k by simp
  qed
qed

lemma it_Next_returns: "readahead_ok it \<Longrightarrow> \<exists>it'. it_Next lib it = Some it' \<and> it_keeps it it'"
  using it_PrefetchAndGet_returns [of it lib] by (simp add: it_Next_def it_keeps_def readahead_ok_def)

lemma it_IterateForPrev_returns:
  assumes "readahead_ok it" "length (rf_contents (it_file it)) < 2 ^ 63"
  shows "\<exists>it'. it_IterateForPrev lib off it = Some it' \<and> it_keeps it it'"
proof -
  obtain ok it1 where i: "(if it_init it then (True, it) else it_Init lib it) = (ok, it1)" by fastforce
  then have k: "it_keeps it it1" using it_Init_keeps [OF assms(1), of lib] assms(1) by (auto simp: it_keeps_def split: if_splits)
  let ?it = "it1\<lparr> it_status := OK, it_iterate_offset := it_header_size it1, it_iterate_index := 0 \<rparr>"
  have "length (rf_contents (it_file ?it)) < 2 ^ 63" using k assms(2) by (simp add: it_keeps_def)
  from skip_records_returns [OF this, of off 0]
  obtain t it2 where "skip_records off 0 ?it = Some (t, it2)" "it_file it2 = it_file it" "it_readahead_size it2 = it_readahead_size it1"
    using k by (auto simp: it_keeps_def)
  then show ?thesis unfolding it_IterateForPrev_def i using k by (auto simp: it_keeps_def readahead_ok_def Let_def)
qed

text \<open>The states that calls in any order reach from a new iterator.\<close>

inductive it_reach :: "ReaderLib \<Rightarrow> BlobFileIterator \<Rightarrow> BlobFileIterator \<Rightarrow> bool" for lib it0 where
  it_start: "it_reach lib it0 it0"
| it_seek: "\<lbrakk>it_reach lib it0 it; it_SeekToFirst lib it = Some it'\<rbrakk> \<Longrightarrow> it_reach lib it0 it'"
| it_next: "\<lbrakk>it_reach lib it0 it; it_Next lib it = Some it'\<rbrakk> \<Longrightarrow> it_reach lib it0 it'"
| it_prev: "\<lbrakk>it_reach lib it0 it; it_IterateForPrev lib off it = Some it'\<rbrakk> \<Longrightarrow> it_reach lib it0 it'"
| it_setbitmap: "it_reach lib it0 it \<Longrightarrow> it_reach lib it0 (it_SetBitMap b it)"

lemma it_reach_keeps:
  assumes "it_reach lib it0 it" "readahead_ok it0" "length (rf_contents (it_file it0)) < 2 ^ 63"
  shows "it_keeps it0 it"
  using assms
proof (induction rule: it_reach.induct)
  case (it_seek it it')
  then show ?case using it_SeekToFirst_returns [of it lib] by (auto simp: it_keeps_def)
next
  case (it_next it it')
  then show ?case using it_Next_returns [of it lib] by (auto simp: it_keeps_def)
next
  case (it_prev it off it')
  then show ?case using it_IterateForPrev_returns [of it lib off] by (auto simp: it_keeps_def)
qed (auto simp: it_keeps_def readahead_ok_def it_SetBitMap_def)

lemma BlobFileIterator_new_readahead: "readahead_ok (BlobFileIterator_new junk f fnum fsize opts entries)"
  by (simp add: readahead_ok_def BlobFileIterator_new_def kMinReadaheadSize_def kMaxReadaheadSize_def)

text \<open>
  C30: the iterator always returns. Whatever the file holds and however its reads fail, every call on
  an iterator that any calls before have left behind comes back, with a read-ahead between 1 byte and
  256 KiB: neither the loop that doubles the read-ahead nor the one that skips records runs forever.
\<close>

theorem iterator_returns:
  assumes "it_reach lib (BlobFileIterator_new junk f fnum fsize opts entries) it" "length (rf_contents f) < 2 ^ 63"
  shows "(\<exists>it'. it_SeekToFirst lib it = Some it') \<and> (\<exists>it'. it_Next lib it = Some it') \<and>
    (\<exists>it'. it_IterateForPrev lib off it = Some it') \<and>
    0 < it_readahead_size it \<and> it_readahead_size it \<le> kMaxReadaheadSize"
proof -
  have "length (rf_contents (it_file (BlobFileIterator_new junk f fnum fsize opts entries))) < 2 ^ 63"
    using assms(2) by (simp add: BlobFileIterator_new_def)
  from it_reach_keeps [OF assms(1) BlobFileIterator_new_readahead this]
  have k: "readahead_ok it" "it_file it = f" by (simp_all add: it_keeps_def BlobFileIterator_new_def)
  then show ?thesis
    using it_SeekToFirst_returns [OF k(1), of lib] it_Next_returns [OF k(1), of lib] it_IterateForPrev_returns [OF k(1), of lib off] assms(2)
    by (auto simp: readahead_ok_def)
qed

text \<open>A file of garbage: 100 bytes of value 1.\<close>

definition demo_garbage :: BlobFileIterator where
  "demo_garbage = BlobFileIterator_new 0 \<lparr> rf_contents = replicate 100 1, rf_io = \<lambda>_ _. OK \<rparr> 3 100 demo_options (-1)"

theorem iterator_returns_witness:
  "\<exists>it'. it_IterateForPrev demo_rlib 50 demo_garbage = Some it'"
  using iterator_returns [OF it_reach.it_start, of "\<lparr> rf_contents = replicate 100 1, rf_io = \<lambda>_ _. OK \<rparr>" demo_rlib 0 3 100 demo_options "-1" 50]
  by (auto simp: demo_garbage_def)

section \<open>The records of a file in order\<close>

text \<open>A stored record that decodes to \<open>r\<close>.\<close>

definition decodes :: "(byte \<Rightarrow> bytes \<Rightarrow> bytes option) \<Rightarrow> bytes \<Rightarrow> BlobRecord \<Rightarrow> bool" where
  "decodes U w r \<longleftrightarrow>
     9 \<le> length w \<and> (\<exists>d. DecodeHeader (take 9 w) = Inr (d, []) \<and> unat (dec_record_size d) = length (drop 9 w) \<and>
                        DecodeRecord U d (drop 9 w) = Inr (r, []))"

text \<open>
  An initialised iterator over a file that holds the stored records \<open>ws\<close> of \<open>rs\<close> behind its header
  and whose end, by offset or by the number of entries, is behind the last of them.
\<close>

definition rec_offset :: "BlobFileIterator \<Rightarrow> bytes list \<Rightarrow> nat \<Rightarrow> nat" where
  "rec_offset it ws i = unat (it_header_size it) + length (concat (take i ws))"

definition it_layout :: "ReaderLib \<Rightarrow> bytes list \<Rightarrow> BlobRecord list \<Rightarrow> BlobFileIterator \<Rightarrow> bool" where
  "it_layout lib ws rs it \<longleftrightarrow>
     it_init it \<and> readahead_ok it \<and> reads_ok (it_file it) \<and> length (rf_contents (it_file it)) < 2 ^ 64 \<and>
     (\<exists>pre rest. rf_contents (it_file it) = pre @ concat ws @ rest \<and> length pre = unat (it_header_size it)) \<and>
     list_all2 (decodes (it_uncompress lib it)) ws rs \<and>
     (\<forall>i<length ws. rec_offset it ws i < unat (it_end_of_blob_record it) \<and> i < unat (it_file_entries it)) \<and>
     (unat (it_end_of_blob_record it) \<le> rec_offset it ws (length ws) \<or> unat (it_file_entries it) \<le> length ws)"

definition it_stands :: "bytes list \<Rightarrow> nat \<Rightarrow> BlobFileIterator \<Rightarrow> bool" where
  "it_stands ws i it \<longleftrightarrow> it_iterate_offset it = of_nat (rec_offset it ws i) \<and> it_iterate_index it = of_nat i"

definition item_of :: "u64 \<Rightarrow> BlobHandle \<Rightarrow> BlobIndex" where
  "item_of fnum h = \<lparr> bi_file_number = fnum, bi_blob_handle = h, bi_old_file_number = 0, bi_old_blob_handle = BlobHandle_default \<rparr>"

definition it_items :: "BlobFileIterator \<Rightarrow> bytes list \<Rightarrow> BlobRecord list \<Rightarrow> (BlobIndex \<times> BlobRecord) list" where
  "it_items it ws rs = zip (map (item_of (it_file_number it)) (handles (unat (it_header_size it)) 0 ws)) rs"

lemma length_handles_items [simp]: "list_all2 P ws rs \<Longrightarrow> length (it_items it ws rs) = length rs"
  by (auto simp: it_items_def list_all2_lengthD)

lemma it_layout_same:
  assumes "it_layout lib ws rs it" "readahead_ok it'" "same_but_readahead it it'"
  shows "it_layout lib ws rs it'"
proof -
  obtain b e n where "it' = it\<lparr> it_readahead_begin := b, it_readahead_end := e, it_readahead_size := n \<rparr>"
    using assms(3) unfolding same_but_readahead_def by blast
  then show ?thesis using assms(1,2) by (simp add: it_layout_def it_uncompress_def rec_offset_def)
qed

lemma rec_offset_le: "i \<le> j \<Longrightarrow> rec_offset it ws i \<le> rec_offset it ws j"
  unfolding rec_offset_def by (metis add_left_mono append_take_drop_id concat_append length_append le_add1 min_absorb1 take_take)

lemma rec_offset_Suc: "i < length ws \<Longrightarrow> rec_offset it ws (Suc i) = rec_offset it ws i + length (ws ! i)"
  by (simp add: rec_offset_def take_Suc_conv_app_nth)

lemma it_layout_split:
  assumes "it_layout lib ws rs it" "i < length ws"
  obtains pre rest where "rf_contents (it_file it) = pre @ (ws ! i) @ rest" "length pre = rec_offset it ws i"
    "rec_offset it ws i + length (ws ! i) < 2 ^ 64"
proof -
  obtain pre rest where c: "rf_contents (it_file it) = pre @ concat ws @ rest" "length pre = unat (it_header_size it)"
    and len: "length (rf_contents (it_file it)) < 2 ^ 64" using assms(1) unfolding it_layout_def by blast
  have "rf_contents (it_file it) = (pre @ concat (take i ws)) @ ws ! i @ concat (drop (Suc i) ws) @ rest"
    using c(1) concat_nth [OF assms(2)] by simp
  moreover have "length (pre @ concat (take i ws)) = rec_offset it ws i" by (simp add: rec_offset_def c(2))
  ultimately show ?thesis using that len by fastforce
qed

text \<open>What the iterator reads at record \<open>i\<close>: its header, then its body.\<close>

lemma it_reads_at:
  assumes "it_layout lib ws rs it" "it_stands ws i it" "i < length ws"
  obtains d where "rf_Read (it_file it) (it_iterate_offset it) kRecordHeaderSize = Inr (take 9 (ws ! i))"
    "DecodeHeader (take 9 (ws ! i)) = Inr (d, [])"
    "rf_Read (it_file it) (it_iterate_offset it + kRecordHeaderSize) (ucast (dec_record_size d)) = Inr (drop 9 (ws ! i))"
    "DecodeRecord (it_uncompress lib it) d (drop 9 (ws ! i)) = Inr (rs ! i, [])"
    "kRecordHeaderSize + ucast (dec_record_size d) = (of_nat (length (ws ! i)) :: u64)"
    "unat (it_iterate_offset it) = rec_offset it ws i"
    "it_iterate_offset it + of_nat (length (ws ! i)) = of_nat (rec_offset it ws (Suc i))"
proof -
  obtain pre rest where c: "rf_contents (it_file it) = pre @ ws ! i @ rest" "length pre = rec_offset it ws i"
    and small: "rec_offset it ws i + length (ws ! i) < 2 ^ 64" using it_layout_split [OF assms(1,3)] by blast
  have la: "list_all2 (decodes (it_uncompress lib it)) ws rs" and ok: "reads_ok (it_file it)" using assms(1) by (simp_all add: it_layout_def)
  obtain d where w: "9 \<le> length (ws ! i)" "DecodeHeader (take 9 (ws ! i)) = Inr (d, [])"
    "unat (dec_record_size d) = length (drop 9 (ws ! i))" "DecodeRecord (it_uncompress lib it) d (drop 9 (ws ! i)) = Inr (rs ! i, [])"
    using list_all2_nthD [OF la assms(3)] unfolding decodes_def by blast
  let ?o = "it_iterate_offset it"
  have o: "?o = of_nat (rec_offset it ws i)" using assms(2) by (simp add: it_stands_def)
  have uo: "unat ?o = length pre" using o c(2) small by simp
  have "?o + kRecordHeaderSize = of_nat (rec_offset it ws i + 9)" by (simp add: o kRecordHeaderSize_def)
  then have uo9: "unat (?o + kRecordHeaderSize) = length pre + 9" using c(2) small w(1) by (simp only: unat_of_nat_u64)
  have c1: "rf_contents (it_file it) = pre @ take 9 (ws ! i) @ (drop 9 (ws ! i) @ rest)"
    and c2: "rf_contents (it_file it) = (pre @ take 9 (ws ! i)) @ drop 9 (ws ! i) @ rest"
    using c(1) by simp_all
  have "rf_Read (it_file it) ?o kRecordHeaderSize = Inr (take 9 (ws ! i))"
    using rf_Read_part [OF ok c1] uo w(1) by (simp add: kRecordHeaderSize_def)
  moreover have "rf_Read (it_file it) (?o + kRecordHeaderSize) (ucast (dec_record_size d)) = Inr (drop 9 (ws ! i))"
    using rf_Read_part [OF ok c2] uo9 w(1,3) by simp
  moreover have "unat (kRecordHeaderSize + ucast (dec_record_size d)) = length (ws ! i)"
    using w(1,3) unat_u32_less [of "dec_record_size d"] by (simp add: kRecordHeaderSize_def unat_add_lem [THEN iffD1])
  from this [symmetric] have "kRecordHeaderSize + ucast (dec_record_size d) = (of_nat (length (ws ! i)) :: u64)" by simp
  moreover have "?o + of_nat (length (ws ! i)) = of_nat (rec_offset it ws (Suc i))"
    by (simp add: rec_offset_Suc [OF assms(3)] o)
  ultimately show ?thesis using that w(2,4) uo c(2) by simp
qed

lemma it_GetBlobRecord_at:
  assumes "it_layout lib ws rs it" "it_stands ws i it" "i < length ws"
  shows "\<exists>it'. it_GetBlobRecord lib it = it' \<and> it_layout lib ws rs it' \<and> it_stands ws (Suc i) it' \<and> it_Valid it' \<and>
    (it_GetBlobIndex it', it_cur_record it') = it_items it ws rs ! i \<and> it_file_number it' = it_file_number it \<and>
    it_header_size it' = it_header_size it"
proof -
  let ?o = "it_iterate_offset it"
  obtain d where d: "rf_Read (it_file it) ?o kRecordHeaderSize = Inr (take 9 (ws ! i))" "DecodeHeader (take 9 (ws ! i)) = Inr (d, [])"
    "rf_Read (it_file it) (?o + kRecordHeaderSize) (ucast (dec_record_size d)) = Inr (drop 9 (ws ! i))"
    "DecodeRecord (it_uncompress lib it) d (drop 9 (ws ! i)) = Inr (rs ! i, [])"
    "kRecordHeaderSize + ucast (dec_record_size d) = (of_nat (length (ws ! i)) :: u64)"
    "?o + of_nat (length (ws ! i)) = of_nat (rec_offset it ws (Suc i))"
    using it_reads_at [OF assms] by metis
  have o: "?o = of_nat (rec_offset it ws i)" "it_iterate_index it = of_nat i" using assms(2) by (simp_all add: it_stands_def)
  have len: "length rs = length ws" using assms(1) by (auto simp: it_layout_def dest: list_all2_lengthD)
  have get: "it_GetBlobRecord lib it =
      it\<lparr> it_status := OK, it_cur_record := rs ! i, it_cur_offset := ?o, it_cur_size := of_nat (length (ws ! i)),
          it_cur_index := of_nat i, it_iterate_index := of_nat i + 1, it_iterate_offset := of_nat (rec_offset it ws (Suc i)), it_valid := True \<rparr>"
    using d o(2) by (simp add: it_GetBlobRecord_def Let_def)
  have "it_stands ws (Suc i) (it_GetBlobRecord lib it)" unfolding get by (simp add: it_stands_def rec_offset_def add.commute)
  moreover have "it_layout lib ws rs (it_GetBlobRecord lib it)"
    unfolding get using assms(1) by (simp add: it_layout_def readahead_ok_def it_uncompress_def rec_offset_def)
  moreover have "(it_GetBlobIndex (it_GetBlobRecord lib it), it_cur_record (it_GetBlobRecord lib it)) = it_items it ws rs ! i"
    unfolding get using len assms(3) by (simp add: it_items_def item_of_def it_GetBlobIndex_def handles_nth o(1) rec_offset_def)
  ultimately show ?thesis unfolding get by (simp add: it_Valid_def)
qed

lemma it_PrefetchAndGet_at:
  assumes "it_layout lib ws rs it" "it_stands ws i it" "i < length ws"
  shows "\<exists>it'. it_PrefetchAndGet lib it = Some it' \<and> it_layout lib ws rs it' \<and> it_stands ws (Suc i) it' \<and> it_Valid it' \<and>
    (it_GetBlobIndex it', it_cur_record it') = it_items it ws rs ! i \<and> it_items it' ws rs = it_items it ws rs"
proof -
  have ra: "readahead_ok it" using assms(1) by (simp add: it_layout_def)
  obtain it1 where it1: "it_prefetch (it_realign it) = Some it1" "readahead_ok it1" "same_but_readahead it it1"
    using it_prefetch_returns [of "it_realign it"] it_realign_ok [OF ra] by (blast intro: same_but_readahead_trans)
  have l1: "it_layout lib ws rs it1" by (rule it_layout_same [OF assms(1) it1(2,3)])
  have s1: "it_stands ws i it1" "it_items it1 ws rs = it_items it ws rs"
    using assms(2) it1(3) by (auto simp: it_stands_def same_but_readahead_def it_items_def rec_offset_def)
  obtain it2 where it2: "it_GetBlobRecord lib it1 = it2" "it_layout lib ws rs it2" "it_stands ws (Suc i) it2" "it_Valid it2"
    "(it_GetBlobIndex it2, it_cur_record it2) = it_items it1 ws rs ! i" "it_file_number it2 = it_file_number it1"
    "it_header_size it2 = it_header_size it1"
    using it_GetBlobRecord_at [OF l1 s1(1) assms(3)] by blast
  have lt: "rec_offset it ws i < unat (it_end_of_blob_record it)" "i < unat (it_file_entries it)"
    using assms(1,3) unfolding it_layout_def by blast+
  have o: "it_iterate_offset it = of_nat (rec_offset it ws i)" "it_iterate_index it = of_nat i" using assms(2) by (simp_all add: it_stands_def)
  have "unat (it_iterate_offset it) = rec_offset it ws i" "unat (it_iterate_index it) = i"
    using lt unat_u64_less [of "it_end_of_blob_record it"] unat_u64_less [of "it_file_entries it"] by (simp_all add: o)
  then have "\<not> (it_end_of_blob_record it \<le> it_iterate_offset it \<or> it_file_entries it \<le> it_iterate_index it)"
    using lt by (simp add: word_le_nat_alt)
  then have "it_PrefetchAndGet lib it =
      Some (if it_readahead_end it2 < it_iterate_offset it2 then it2\<lparr> it_readahead_end := it_iterate_offset it2 \<rparr> else it2)"
    by (simp add: it_PrefetchAndGet_def it1(1) it2(1) Let_def)
  moreover have "it_layout lib ws rs (it2\<lparr> it_readahead_end := e \<rparr>)" for e
    using it2(2) by (simp add: it_layout_def readahead_ok_def it_uncompress_def rec_offset_def)
  ultimately show ?thesis
    using it2(2-7) s1(2)
    by (auto simp: it_stands_def it_Valid_def it_GetBlobIndex_def it_items_def rec_offset_def)
qed

lemma it_PrefetchAndGet_end:
  assumes "it_layout lib ws rs it" "it_stands ws (length ws) it"
  shows "it_PrefetchAndGet lib it = Some (it\<lparr> it_valid := False \<rparr>)"
proof -
  obtain pre rest where c: "rf_contents (it_file it) = pre @ concat ws @ rest" "length pre = unat (it_header_size it)"
    "length (rf_contents (it_file it)) < 2 ^ 64"
    using assms(1) unfolding it_layout_def by blast
  have o: "it_iterate_offset it = of_nat (rec_offset it ws (length ws))" "it_iterate_index it = of_nat (length ws)"
    using assms(2) by (simp_all add: it_stands_def)
  have "unat (it_iterate_offset it) = rec_offset it ws (length ws)" using c unfolding o rec_offset_def by (intro unat_of_nat_u64) simp
  moreover have "length ws \<le> length (concat ws)"
  proof -
    have "list_all2 (decodes (it_uncompress lib it)) ws rs" using assms(1) by (simp add: it_layout_def)
    then show ?thesis by (induction rule: list_all2_induct) (auto simp: decodes_def)
  qed
  then have "unat (it_iterate_index it) = length ws" using c by (simp add: o)
  moreover have "unat (it_end_of_blob_record it) \<le> rec_offset it ws (length ws) \<or> unat (it_file_entries it) \<le> length ws"
    using assms(1) unfolding it_layout_def by blast
  ultimately show ?thesis by (simp add: it_PrefetchAndGet_def word_le_nat_alt)
qed

text \<open>
  The loop of a client: while the iterator is valid, take the record and its index and go on.
  The fuel bounds the number of rounds; \<open>None\<close> if it is used up.
\<close>

fun it_scan :: "nat \<Rightarrow> ReaderLib \<Rightarrow> BlobFileIterator \<Rightarrow> ((BlobIndex \<times> BlobRecord) list \<times> BlobFileIterator) option" where
  "it_scan 0 lib it = None"
| "it_scan (Suc k) lib it =
     (if it_Valid it then
        (case it_Next lib it of
           None \<Rightarrow> None
         | Some it' \<Rightarrow> map_option (apfst ((#) (it_GetBlobIndex it, it_cur_record it))) (it_scan k lib it'))
      else Some ([], it))"

lemma it_scan_from:
  assumes "it_layout lib ws rs it" "it_stands ws (Suc i) it" "i < length ws" "it_Valid it"
    and "(it_GetBlobIndex it, it_cur_record it) = it_items it ws rs ! i" "length ws - i < k"
  shows "\<exists>it'. it_scan k lib it = Some (drop i (it_items it ws rs), it') \<and> \<not> it_Valid it' \<and> it_status it' = OK"
  using assms
proof (induction "length ws - i" arbitrary: i it k rule: less_induct)
  case less
  obtain k' where k: "k = Suc k'" using less.prems(6) by (cases k) auto
  have la: "list_all2 (decodes (it_uncompress lib it)) ws rs" and init: "it_init it" using less.prems(1) by (simp_all add: it_layout_def)
  then have len: "length (it_items it ws rs) = length ws" by (simp add: list_all2_lengthD)
  have d: "drop i (it_items it ws rs) = it_items it ws rs ! i # drop (Suc i) (it_items it ws rs)"
    using less.prems(3) len by (simp add: Cons_nth_drop_Suc)
  show ?case
  proof (cases "Suc i < length ws")
    case True
    obtain it' where it': "it_PrefetchAndGet lib it = Some it'" "it_layout lib ws rs it'" "it_stands ws (Suc (Suc i)) it'" "it_Valid it'"
      "(it_GetBlobIndex it', it_cur_record it') = it_items it ws rs ! Suc i" "it_items it' ws rs = it_items it ws rs"
      using it_PrefetchAndGet_at [OF less.prems(1,2) True] by blast
    have "length ws - Suc i < length ws - i" "length ws - Suc i < k'" using True less.prems(6) k by simp_all
    from less.hyps [OF this(1) it'(2,3) True it'(4) _ this(2)] it'(5,6)
    obtain it2 where "it_scan k' lib it' = Some (drop (Suc i) (it_items it ws rs), it2)" "\<not> it_Valid it2" "it_status it2 = OK" by auto
    then show ?thesis using k less.prems(4,5) it'(1) init d by (simp add: it_Next_def)
  next
    case False
    then have "Suc i = length ws" using less.prems(3) by simp
    then have "it_PrefetchAndGet lib it = Some (it\<lparr> it_valid := False \<rparr>)" using it_PrefetchAndGet_end less.prems(1,2) by metis
    moreover have "drop (Suc i) (it_items it ws rs) = []" using False len by simp
    moreover obtain k'' where "k' = Suc k''" using less.prems(3,6) k by (cases k') auto
    ultimately show ?thesis using k less.prems(4,5) init d by (simp add: it_Next_def it_Valid_def)
  qed
qed

lemma it_scan_all:
  assumes "it_layout lib ws rs it" "it_stands ws 0 it" "it_status it = OK" "length ws < k"
  shows "\<exists>it1 it2. it_PrefetchAndGet lib it = Some it1 \<and> it_scan k lib it1 = Some (it_items it ws rs, it2) \<and> it_status it2 = OK"
proof (cases "ws = []")
  case True
  then have "rs = []" using assms(1) by (simp add: it_layout_def)
  then show ?thesis
    using it_PrefetchAndGet_end [OF assms(1)] assms(2-4) True by (cases k) (auto simp: it_Valid_def it_items_def)
next
  case False
  then obtain it1 where "it_PrefetchAndGet lib it = Some it1" "it_layout lib ws rs it1" "it_stands ws (Suc 0) it1" "it_Valid it1"
    "(it_GetBlobIndex it1, it_cur_record it1) = it_items it ws rs ! 0" "it_items it1 ws rs = it_items it ws rs"
    using it_PrefetchAndGet_at [OF assms(1,2)] by blast
  then show ?thesis using it_scan_from [of lib ws rs it1 0 k] False assms(4) by auto
qed

section \<open>Iterating over what a builder wrote\<close>

lemma footer_left_encoded: "footer_left (BlobFileFooter_EncodeTo ft) = ft"
proof -
  have "length (BlockHandle_EncodeTo (meta_index_handle ft)) \<le> 20" by (rule length_BlockHandle)
  then obtain x where "BlobFileFooter_EncodeTo ft = BlockHandle_EncodeTo (meta_index_handle ft) @ x"
    by (auto simp: BlobFileFooter_EncodeTo_def Let_def)
  then show ?thesis by (simp add: footer_left_def block_handle.decode_encode)
qed

lemma it_Init_built:
  assumes "reads_ok f" "libs_agree bl rl" "builder_output bl opts ver dict rs (rf_contents f)" "rs \<noteq> []"
    and "it = BlobFileIterator_new junk f fnum (of_nat (length (rf_contents f))) opts' entries"
  defines "pre \<equiv> BlobFileHeader_EncodeTo (builder_header opts ver) @ concat (builder_records bl opts dict rs)"
  shows "it_Init rl it = (True, it\<lparr> it_header_size := BlobFileHeader_size (builder_header opts ver), it_status := OK,
    it_end_of_blob_record := of_nat (length pre), it_dict := dict, it_init := True \<rparr>)"
proof -
  let ?hdr = "builder_header opts ver" and ?size = "of_nat (length (rf_contents f)) :: u64"
  obtain mid ft where c: "rf_contents f = pre @ mid @ BlobFileFooter_EncodeTo ft"
    and r: "rf_Read f (?size - kBlobFooterSize) kBlobFooterSize = Inr (BlobFileFooter_EncodeTo ft)"
    and d: "case dict of None \<Rightarrow> mid = [] \<and> meta_index_handle ft = NullBlockHandle
     | Some d \<Rightarrow> InitUncompressionDict rl ft f = Inr d \<and> blk_size (meta_index_handle ft) \<noteq> 0 \<and>
                 length mid = length d + unat (blk_size (meta_index_handle ft)) + 10"
    using footer_built [OF assms(1-3)] unfolding pre_def by blast
  obtain buf where h: "rf_Read f 0 12 = Inr buf" "DecodeInto BlobFileHeader_DecodeFrom buf True = Inr ?hdr"
    using ReadHeader_built [OF assms(1,3)] by (auto simp: ReadHeader_def split: sum.splits)
  have "length pre < 2 ^ 64" using builder_output_length [OF assms(3)] by (simp add: pre_def)
  moreover have "8 < length pre"
  proof -
    obtain r rs' where "rs = r # rs'" using assms(4) by (cases rs) auto
    then show ?thesis
      using framed_nonempty by (auto simp: pre_def builder_records_def BlobFileHeader_EncodeTo_def PutFixed32_def)
  qed
  ultimately have big: "\<not> (of_nat (length pre) :: u64) \<le> 8" by (simp add: word_le_nat_alt)
  have len: "length (rf_contents f) = length pre + length mid + 32" using c by simp
  have dec: "BlobFileFooter_DecodeFrom (BlobFileFooter_EncodeTo ft) = Inr (ft, [])"
    using blob_footer.decode_encode [of ft "[]"] by simp
  show ?thesis
  proof (cases dict)
    case None
    then have "?size - kBlobFooterSize = of_nat (length pre)" "BlockHandle_IsNull (meta_index_handle ft)"
      using d len by (simp_all add: kBlobFooterSize_def BlockHandle_IsNull_def NullBlockHandle_def)
    then show ?thesis
      using h r None builder_flags [OF assms(3)] big
      by (simp add: it_Init_def Let_def footer_left_encoded dec assms(5) BlobFileIterator_new_def)
  next
    case (Some d)
    let ?b = "blk_size (meta_index_handle ft)"
    have "length (rf_contents f) = length pre + length d + unat ?b + 42" using len d Some by simp
    then have "?size - kBlobFooterSize - (?b + kBlockTrailerSize) - (of_nat (length d) + kBlockTrailerSize) = of_nat (length pre)"
      by (simp add: kBlobFooterSize_def kBlockTrailerSize_def)
    moreover have "\<not> BlockHandle_IsNull (meta_index_handle ft)" "InitUncompressionDict rl ft f = Inr d"
      using d Some by (simp_all add: BlockHandle_IsNull_def)
    ultimately show ?thesis
      using h r Some builder_flags [OF assms(3)] big
      by (simp add: it_Init_def Let_def footer_left_encoded dec assms(5) BlobFileIterator_new_def)
  qed
qed

lemma framed_decodes:
  assumes "libs_agree bl rl" "BlobRecord_wf r" "length (framed bl dict t (BlobRecord_EncodeTo r)) < 2 ^ 32"
  shows "decodes (rl_uncompress rl (case dict of None \<Rightarrow> [] | Some d \<Rightarrow> d)) (framed bl dict t (BlobRecord_EncodeTo r)) r"
proof -
  let ?w = "framed bl dict t (BlobRecord_EncodeTo r)"
  obtain d body where b: "?w = take 9 ?w @ body" "unat (dec_record_size d) = length body" "DecodeHeader (take 9 ?w) = Inr (d, [])"
    "DecodeRecord (rl_uncompress rl (case dict of None \<Rightarrow> [] | Some d \<Rightarrow> d)) d body = Inr (r, [])"
    using DecodeRecord_built [OF assms, of "[]" "[]"] by (metis append_Nil2)
  have "9 \<le> length ?w" by (simp add: framed_def Let_def)
  moreover from this have "drop 9 ?w = body" using b(1) by (metis append_take_drop_id same_append_eq)
  ultimately show ?thesis using b(2-4) unfolding decodes_def by blast
qed

lemma it_layout_built:
  assumes "reads_ok f" "libs_agree bl rl" "builder_output bl opts ver dict rs (rf_contents f)" "rs \<noteq> []" "list_all BlobRecord_wf rs"
    and "list_all (\<lambda>w. length w < 2 ^ 32) (builder_records bl opts dict rs)" "length rs \<le> unat entries"
    and "it = BlobFileIterator_new junk f fnum (of_nat (length (rf_contents f))) opts' entries"
  shows "\<exists>it'. it_Init rl it = (True, it') \<and> it_layout rl (builder_records bl opts dict rs) rs it' \<and>
    it_iterate_index it' = 0 \<and> it_file_number it' = fnum \<and>
    unat (it_end_of_blob_record it') = rec_offset it' (builder_records bl opts dict rs) (length rs) \<and>
    unat (it_header_size it') = length (BlobFileHeader_EncodeTo (builder_header opts ver))"
proof -
  let ?hdr = "BlobFileHeader_EncodeTo (builder_header opts ver)" and ?ws = "builder_records bl opts dict rs"
  define it' where "it' = it\<lparr> it_header_size := BlobFileHeader_size (builder_header opts ver), it_status := OK,
    it_end_of_blob_record := of_nat (length (?hdr @ concat ?ws)), it_dict := dict, it_init := True \<rparr>"
  have init: "it_Init rl it = (True, it')" unfolding it'_def by (rule it_Init_built [OF assms(1-4,8)])
  have wf: "BlobFileHeader_wf (builder_header opts ver)" using assms(3) by (auto simp: builder_output_def intro: builder_header_wf)
  have hs: "unat (it_header_size it') = length ?hdr"
    using wf by (simp add: it'_def length_BlobFileHeader)
  have len: "length ?hdr + length (concat ?ws) < 2 ^ 64" by (rule builder_output_length [OF assms(3)])
  have e: "unat (it_end_of_blob_record it') = length ?hdr + length (concat ?ws)" using len by (simp add: it'_def del: of_nat_add)
  have ne: "\<forall>w\<in>set ?ws. w \<noteq> []" by (auto simp: builder_records_def framed_nonempty)
  have lt: "rec_offset it' ?ws i < unat (it_end_of_blob_record it')" if "i < length ?ws" for i
    using concat_nth [OF that] ne that by (simp add: rec_offset_def hs e)
  have "list_all2 (decodes (it_uncompress rl it')) ?ws rs"
    unfolding list_all2_conv_all_nth
  proof (intro conjI allI impI)
    fix i assume i: "i < length ?ws"
    then have "BlobRecord_wf (rs ! i)" "?ws ! i = framed bl dict (blob_file_compression opts) (BlobRecord_EncodeTo (rs ! i))"
      using assms(5) by (simp_all add: builder_records_def list_all_length)
    moreover have "length (?ws ! i) < 2 ^ 32" using assms(6) i unfolding list_all_length by blast
    ultimately show "decodes (it_uncompress rl it') (?ws ! i) (rs ! i)"
      using framed_decodes [OF assms(2)] by (simp add: it_uncompress_def it'_def)
  qed (simp add: builder_records_def)
  moreover have "\<exists>pre rest. rf_contents f = pre @ concat ?ws @ rest \<and> length pre = unat (it_header_size it')"
    using assms(3) hs by (auto simp: builder_output_def builder_file_def Let_def)
  moreover have "length (rf_contents f) < 2 ^ 64" using assms(3) unfolding builder_output_def by blast
  moreover have "length ?ws = length rs" by (simp add: builder_records_def)
  moreover have "it_file it' = f" "it_init it'" "readahead_ok it'" "it_file_entries it' = entries" "it_iterate_index it' = 0" "it_file_number it' = fnum"
    using BlobFileIterator_new_readahead [of junk f fnum "of_nat (length (rf_contents f))" opts' entries]
    by (simp_all add: it'_def assms(8) BlobFileIterator_new_def readahead_ok_def)
  ultimately have "it_layout rl ?ws rs it'"
    unfolding it_layout_def using lt assms(1,7) hs e by (simp add: rec_offset_def)
  moreover have "unat (it_end_of_blob_record it') = rec_offset it' ?ws (length rs)"
    using e hs by (simp add: rec_offset_def builder_records_def)
  ultimately show ?thesis
    using init hs \<open>it_iterate_index it' = 0\<close> \<open>it_file_number it' = fnum\<close> by (intro exI [of _ it']) simp
qed

text \<open>A new iterator over a file a builder can have written, initialised.\<close>

lemma output_iterator:
  assumes "reads_ok f" "libs_agree bl rl" "builder_output bl opts ver dict rs (rf_contents f)" "rs \<noteq> []" "list_all BlobRecord_wf rs"
    and "list_all (\<lambda>h. bh_size h < 2 ^ 32) (builder_handles bl opts ver dict rs)" "length rs \<le> unat entries"
  obtains ws it where "it_Init rl (BlobFileIterator_new junk f fnum (of_nat (length (rf_contents f))) opts' entries) = (True, it)"
    "it_layout rl ws rs it" "it_iterate_index it = 0" "length ws = length rs" "unat (it_end_of_blob_record it) = rec_offset it ws (length rs)"
    "it_items it ws rs = zip (map (item_of fnum) (builder_handles bl opts ver dict rs)) rs"
    "builder_handles bl opts ver dict rs = handles (unat (it_header_size it)) 0 ws"
proof -
  let ?ws = "builder_records bl opts dict rs"
  have small: "list_all (\<lambda>w. length w < 2 ^ 32) ?ws" by (rule builder_records_small [OF assms(3,6)])
  obtain it where it: "it_Init rl (BlobFileIterator_new junk f fnum (of_nat (length (rf_contents f))) opts' entries) = (True, it)"
    "it_layout rl ?ws rs it" "it_iterate_index it = 0" "it_file_number it = fnum"
    "unat (it_end_of_blob_record it) = rec_offset it ?ws (length rs)"
    "unat (it_header_size it) = length (BlobFileHeader_EncodeTo (builder_header opts ver))"
    using it_layout_built [OF assms(1-5) small assms(7) refl, of junk fnum opts'] by (elim exE conjE) (rule that)
  show ?thesis
    by (rule that [OF it(1-3) _ it(5)]) (simp_all add: it(4,6) it_items_def builder_handles_def builder_records_def)
qed

lemma output_scan:
  assumes "reads_ok f" "libs_agree bl rl" "builder_output bl opts ver dict rs (rf_contents f)" "rs \<noteq> []" "list_all BlobRecord_wf rs"
    and "list_all (\<lambda>h. bh_size h < 2 ^ 32) (builder_handles bl opts ver dict rs)" "length rs \<le> unat entries"
  shows "\<exists>it it'. it_SeekToFirst rl (BlobFileIterator_new junk f fnum (of_nat (length (rf_contents f))) opts' entries) = Some it \<and>
    it_scan (Suc (length rs)) rl it = Some (zip (map (item_of fnum) (builder_handles bl opts ver dict rs)) rs, it') \<and> it_status it' = OK"
proof -
  let ?it = "BlobFileIterator_new junk f fnum (of_nat (length (rf_contents f))) opts' entries"
  obtain ws it where it: "it_Init rl ?it = (True, it)" "it_layout rl ws rs it" "it_iterate_index it = 0" "length ws = length rs"
    "it_items it ws rs = zip (map (item_of fnum) (builder_handles bl opts ver dict rs)) rs"
    using output_iterator [OF assms] .
  define it1 where "it1 = it\<lparr> it_status := OK, it_iterate_offset := it_header_size it \<rparr>"
  have "it_layout rl ws rs it1" "it_stands ws 0 it1" "it_status it1 = OK" "it_items it1 ws rs = it_items it ws rs"
    using it(2,3) by (simp_all add: it1_def it_layout_def readahead_ok_def it_uncompress_def rec_offset_def it_stands_def it_items_def)
  moreover from it_scan_all [OF this(1-3), of "Suc (length rs)"]
  obtain it2 it3 where "it_PrefetchAndGet rl it1 = Some it2" "it_scan (Suc (length rs)) rl it2 = Some (it_items it1 ws rs, it3)" "it_status it3 = OK"
    using it(4) by auto
  moreover have "\<not> it_init ?it" by (simp add: BlobFileIterator_new_def)
  ultimately show ?thesis using it(1,5) by (simp add: it_SeekToFirst_def it1_def)
qed

lemma built_scan:
  assumes "bb_reach bl opts ver b rs cs out" "io_ok bl" "builder_supported bl opts ver" "bb_Finish bl b = (b', o1)"
    and "libs_agree bl rl" "reads_ok f" "rf_contents f = wf_contents (bb_file b')"
    and "list_all BlobRecord_wf rs" "list_all (\<lambda>h. bh_size h < 2 ^ 32) (out_handles (out @ o1))" "length (wf_contents (bb_file b')) < 2 ^ 64"
    and "rs \<noteq> []" "length rs \<le> unat entries"
  shows "\<exists>it it'. it_SeekToFirst rl (BlobFileIterator_new junk f fnum (GetFileSize (bb_file b')) opts' entries) = Some it \<and>
    it_scan (Suc (length rs)) rl it = Some (zip (map (item_of fnum) (out_handles (out @ o1))) rs, it') \<and> it_status it' = OK"
proof -
  obtain dict where d: "builder_output bl opts ver dict rs (wf_contents (bb_file b'))" "out_handles (out @ o1) = builder_handles bl opts ver dict rs"
    using built_file_output [OF assms(1-4,10)] .
  have c: "builder_output bl opts ver dict rs (rf_contents f)" "GetFileSize (bb_file b') = of_nat (length (rf_contents f))"
    using d(1) assms(7) by (simp_all add: GetFileSize_def)
  have h: "list_all (\<lambda>h. bh_size h < 2 ^ 32) (builder_handles bl opts ver dict rs)" using assms(9) d(2) by simp
  show ?thesis unfolding d(2) c(2) by (rule output_scan [OF assms(6,5) c(1) assms(11,8) h assms(12)])
qed

text \<open>
  C31: a file is iterated in full. For every file a builder finishes without write errors and with at
  least one record, seeking a new iterator to the first record and going on while it is valid
  yields exactly the records added, in order, each with the handle the builder handed out for it,
  and stops after the last one with an OK status; the number of entries may be given or not.
\<close>

theorem iterator_enumerates:
  assumes "bb_reach bl opts ver b rs cs out" "io_ok bl" "builder_supported bl opts ver" "bb_Finish bl b = (b', o1)"
    and "libs_agree bl rl" "reads_ok f" "rf_contents f = wf_contents (bb_file b')"
    and "list_all BlobRecord_wf rs" "list_all (\<lambda>h. bh_size h < 2 ^ 32) (out_handles (out @ o1))" "length (wf_contents (bb_file b')) < 2 ^ 64"
    and "rs \<noteq> []" "length rs \<le> unat entries"
  shows "\<exists>it it'. it_SeekToFirst rl (BlobFileIterator_new junk f fnum (GetFileSize (bb_file b')) opts' entries) = Some it \<and>
    it_scan (Suc (length rs)) rl it = Some (zip (map (item_of fnum) (out_handles (out @ o1))) rs, it') \<and> it_status it' = OK"
  using assms by (rule built_scan)

theorem iterator_enumerates_witness:
  "\<exists>it it'. it_SeekToFirst demo_rlib (BlobFileIterator_new 0 demo_file 9 (GetFileSize (bb_file (fst demo_finished))) demo_options 1) = Some it \<and>
     it_scan (Suc (Suc 0)) demo_rlib it = Some (zip (map (item_of 9) (out_handles (snd demo_built @ snd demo_finished))) [demo_record [1]], it') \<and>
     it_status it' = OK"
proof -
  have "length (wf_contents (bb_file (fst demo_finished))) < 2 ^ 64" "[demo_record [1]] \<noteq> []" "length [demo_record [1]] \<le> unat (1 :: u64)"
    by (simp_all add: demo_finished_facts(10))
  from iterator_enumerates [OF demo_finished_facts(1-9) this, of 0 9 demo_options] show ?thesis by (simp del: it_scan.simps)
qed

section \<open>Stepping back\<close>

lemma skip_records_at:
  assumes "it_layout lib ws rs it" "it_stands ws j it" "j \<le> i" "i < length ws" "it_status it = OK"
    and "rec_offset it ws i \<le> unat off" "unat off < rec_offset it ws (Suc i)"
  shows "\<exists>t it'. skip_records off tot it = Some (t, it') \<and> it_layout lib ws rs it' \<and> it_status it' = OK \<and>
    it_header_size it' = it_header_size it \<and> it_file_number it' = it_file_number it \<and>
    (if unat off = rec_offset it ws i then it_stands ws i it' else it_stands ws (Suc i) it' \<and> t = of_nat (length (ws ! i)))"
  using assms
proof (induction "Suc i - j" arbitrary: j it tot rule: less_induct)
  case less
  have j: "j < length ws" using less.prems(3,4) by simp
  obtain d where d: "rf_Read (it_file it) (it_iterate_offset it) kRecordHeaderSize = Inr (take 9 (ws ! j))"
    "DecodeHeader (take 9 (ws ! j)) = Inr (d, [])" "kRecordHeaderSize + ucast (dec_record_size d) = (of_nat (length (ws ! j)) :: u64)"
    "unat (it_iterate_offset it) = rec_offset it ws j" "it_iterate_offset it + of_nat (length (ws ! j)) = of_nat (rec_offset it ws (Suc j))"
    using it_reads_at [OF less.prems(1,2) j] by metis
  have ji: "rec_offset it ws j \<le> rec_offset it ws i" by (rule rec_offset_le [OF less.prems(3)])
  define it1 where "it1 = it\<lparr> it_status := OK, it_iterate_index := it_iterate_index it + 1, it_iterate_offset := of_nat (rec_offset it ws (Suc j)) \<rparr>"
  have it1: "it_layout lib ws rs it1" "it_stands ws (Suc j) it1" "it_status it1 = OK" "rec_offset it1 = rec_offset it"
    "it_header_size it1 = it_header_size it" "it_file_number it1 = it_file_number it"
    using less.prems(1,2)
    by (simp_all add: it1_def it_layout_def readahead_ok_def it_uncompress_def rec_offset_def it_stands_def add.commute fun_eq_iff)
  have step: "skip_records off tot it = skip_records off (of_nat (length (ws ! j))) it1" if "rec_offset it ws j < unat off"
    using that d by (subst skip_records.simps) (simp add: word_less_nat_alt it1_def Let_def)
  consider "j = i" "unat off = rec_offset it ws i" | "j = i" "rec_offset it ws i < unat off" | "j < i"
    using less.prems(3,6) by linarith
  then show ?case
  proof cases
    case 1
    then have "skip_records off tot it = Some (tot, it)" using d(4) by (subst skip_records.simps) (simp add: word_less_nat_alt)
    then show ?thesis using 1 less.prems(1,2,5) by simp
  next
    case 2
    have "unat (it_iterate_offset it1) = rec_offset it ws (Suc i)"
    proof -
      have "rec_offset it ws (Suc i) < 2 ^ 64"
        using it_layout_split [OF less.prems(1,4)] rec_offset_Suc [OF less.prems(4), of it] by metis
      moreover have "it_iterate_offset it1 = of_nat (rec_offset it ws (Suc i))" using 2(1) by (simp add: it1_def)
      ultimately show ?thesis by (simp only: unat_of_nat_u64)
    qed
    then have "skip_records off (of_nat (length (ws ! j))) it1 = Some (of_nat (length (ws ! j)), it1)"
      using less.prems(7) by (subst skip_records.simps) (simp add: word_less_nat_alt)
    then show ?thesis using step 2 it1 by simp
  next
    case 3
    have "rec_offset it ws j < rec_offset it ws (Suc j)"
      using rec_offset_Suc [OF j] less.prems(1) j by (auto simp: it_layout_def decodes_def dest: list_all2_nthD)
    then have "rec_offset it ws j < unat off" using rec_offset_le [of "Suc j" i it ws] 3 less.prems(6) by simp
    moreover have m: "Suc i - Suc j < Suc i - j" "Suc j \<le> i" using 3 by simp_all
    ultimately show ?thesis
      using less.hyps [OF m(1) it1(1,2) m(2) less.prems(4) it1(3), of "of_nat (length (ws ! j))"] step it1(4-6) less.prems(6,7) by simp
  qed
qed

lemma it_IterateForPrev_at:
  assumes "it_layout lib ws rs it" "i < length ws" "rec_offset it ws i \<le> unat off" "unat off < rec_offset it ws (Suc i)"
    and "unat off < unat (it_end_of_blob_record it)"
  shows "\<exists>it'. it_IterateForPrev lib off it = Some it' \<and> it_layout lib ws rs it' \<and> it_stands ws i it' \<and> \<not> it_Valid it' \<and>
    it_init it' \<and> it_status it' = OK \<and> it_items it' ws rs = it_items it ws rs"
proof -
  let ?it = "it\<lparr> it_status := OK, it_iterate_offset := it_header_size it, it_iterate_index := 0 \<rparr>"
  have init: "it_init it" using assms(1) by (simp add: it_layout_def)
  have l: "it_layout lib ws rs ?it" "it_stands ws 0 ?it" "it_status ?it = OK" "rec_offset ?it = rec_offset it"
    using assms(1) by (simp_all add: it_layout_def readahead_ok_def it_uncompress_def rec_offset_def it_stands_def fun_eq_iff)
  obtain t it1 where s: "skip_records off 0 ?it = Some (t, it1)" "it_layout lib ws rs it1" "it_status it1 = OK"
    "it_header_size it1 = it_header_size it" "it_file_number it1 = it_file_number it"
    "if unat off = rec_offset it ws i then it_stands ws i it1 else it_stands ws (Suc i) it1 \<and> t = of_nat (length (ws ! i))"
    using skip_records_at [OF l(1,2) le0 assms(2) l(3), of off 0] assms(3,4) l(4) by auto
  have ro: "rec_offset it1 = rec_offset it" using s(4) by (simp add: rec_offset_def fun_eq_iff)
  have big: "rec_offset it ws (Suc i) < 2 ^ 64"
    using it_layout_split [OF assms(1,2)] rec_offset_Suc [OF assms(2), of it] by metis
  let ?it1 = "if off < it_iterate_offset it1 then it1\<lparr> it_iterate_offset := it_iterate_offset it1 - t, it_iterate_index := it_iterate_index it1 - 1 \<rparr> else it1"
  have "it_stands ws i ?it1"
  proof (cases "unat off = rec_offset it ws i")
    case True
    then have "it_iterate_offset it1 = of_nat (unat off)" using s(6) ro by (simp add: it_stands_def)
    then have "it_iterate_offset it1 = off" by simp
    then show ?thesis using s(6) True by simp
  next
    case False
    then have st: "it_iterate_offset it1 = of_nat (rec_offset it ws (Suc i))" "it_iterate_index it1 = of_nat (Suc i)" "t = of_nat (length (ws ! i))"
      using s(6) ro by (simp_all add: it_stands_def)
    then have "off < it_iterate_offset it1" using assms(4) big by (simp only: word_less_nat_alt unat_of_nat_u64)
    moreover have "it_iterate_offset it1 - t = of_nat (rec_offset it ws i)" by (simp add: st rec_offset_Suc [OF assms(2)])
    ultimately show ?thesis using st(2) s(4) by (simp add: it_stands_def rec_offset_def)
  qed
  moreover have "it_layout lib ws rs ?it1" "it_items ?it1 ws rs = it_items it ws rs" "it_status ?it1 = OK"
    using s(2-5) by (simp_all add: it_layout_def readahead_ok_def it_uncompress_def rec_offset_def it_items_def)
  moreover have "\<not> it_end_of_blob_record it \<le> off" using assms(5) by (simp add: word_le_nat_alt)
  ultimately show ?thesis using s(1,3) init
    by (simp add: it_IterateForPrev_def it_layout_def readahead_ok_def it_uncompress_def rec_offset_def it_items_def it_stands_def it_Valid_def Let_def)
qed

text \<open>
  C32: stepping back finds the record an offset lies in. On an iterator over a file a builder finished,
  seeking to any offset from the begin of record \<open>i\<close> to before its end leaves the iterator on no
  record, with an OK status, and the next step yields record \<open>i\<close> with the handle handed out for it.
\<close>

theorem iterate_for_prev:
  assumes "bb_reach bl opts ver b rs cs out" "io_ok bl" "builder_supported bl opts ver" "bb_Finish bl b = (b', o1)"
    and "libs_agree bl rl" "reads_ok f" "rf_contents f = wf_contents (bb_file b')"
    and "list_all BlobRecord_wf rs" "list_all (\<lambda>h. bh_size h < 2 ^ 32) (out_handles (out @ o1))" "length (wf_contents (bb_file b')) < 2 ^ 64"
    and "i < length rs" "length rs \<le> unat entries" "h = out_handles (out @ o1) ! i"
    and "bh_offset h \<le> off" "unat off < unat (bh_offset h) + unat (bh_size h)"
  shows "\<exists>it it'. it_IterateForPrev rl off (BlobFileIterator_new junk f fnum (GetFileSize (bb_file b')) opts' entries) = Some it \<and>
    \<not> it_Valid it \<and> it_status it = OK \<and> it_Next rl it = Some it' \<and> it_Valid it' \<and>
    it_GetBlobIndex it' = item_of fnum h \<and> it_cur_record it' = rs ! i"
proof -
  let ?it = "BlobFileIterator_new junk f fnum (GetFileSize (bb_file b')) opts' entries"
  obtain dict where d: "builder_output bl opts ver dict rs (wf_contents (bb_file b'))" "out_handles (out @ o1) = builder_handles bl opts ver dict rs"
    using built_file_output [OF assms(1-4,10)] .
  have c: "builder_output bl opts ver dict rs (rf_contents f)" "GetFileSize (bb_file b') = of_nat (length (rf_contents f))"
    using d(1) assms(7) by (simp_all add: GetFileSize_def)
  have ne: "rs \<noteq> []" "list_all (\<lambda>h. bh_size h < 2 ^ 32) (builder_handles bl opts ver dict rs)" using assms(9,11) d(2) by auto
  obtain ws it where it: "it_Init rl ?it = (True, it)" "it_layout rl ws rs it" "length ws = length rs"
    "unat (it_end_of_blob_record it) = rec_offset it ws (length rs)"
    "it_items it ws rs = zip (map (item_of fnum) (out_handles (out @ o1))) rs"
    "out_handles (out @ o1) = handles (unat (it_header_size it)) 0 ws"
    unfolding c(2) d(2) using output_iterator [OF assms(6,5) c(1) ne(1) assms(8) ne(2) assms(12)] .
  have i: "i < length ws" using assms(11) it(3) by simp
  have h: "h = \<lparr> bh_offset = of_nat (rec_offset it ws i), bh_size = of_nat (length (ws ! i)), bh_index = of_nat i \<rparr>"
    using handles_nth [OF i] by (simp add: assms(13) it(6) rec_offset_def)
  have "rec_offset it ws i + length (ws ! i) < 2 ^ 64" using it_layout_split [OF it(2) i] by metis
  then have "unat (bh_offset h) = rec_offset it ws i" "unat (bh_size h) = length (ws ! i)" by (simp_all add: h)
  then have off: "rec_offset it ws i \<le> unat off" "unat off < rec_offset it ws (Suc i)"
    using assms(14,15) by (simp_all add: rec_offset_Suc [OF i] word_le_nat_alt)
  moreover have "rec_offset it ws (Suc i) \<le> unat (it_end_of_blob_record it)"
    unfolding it(4) using i it(3) by (intro rec_offset_le) simp
  ultimately obtain it1 where it1: "it_IterateForPrev rl off it = Some it1" "it_layout rl ws rs it1" "it_stands ws i it1" "\<not> it_Valid it1"
    "it_init it1" "it_status it1 = OK" "it_items it1 ws rs = it_items it ws rs"
    using it_IterateForPrev_at [OF it(2) i off] by auto
  obtain it2 where it2: "it_PrefetchAndGet rl it1 = Some it2" "it_Valid it2" "(it_GetBlobIndex it2, it_cur_record it2) = it_items it1 ws rs ! i"
    using it_PrefetchAndGet_at [OF it1(2,3) i] by blast
  have "it_IterateForPrev rl off ?it = it_IterateForPrev rl off it"
    using it(1,2) by (simp add: it_IterateForPrev_def it_layout_def BlobFileIterator_new_def)
  moreover have "it_items it1 ws rs ! i = (item_of fnum h, rs ! i)"
    using assms(11) it(3) it1(7) by (simp add: it(5) it(6) [symmetric] assms(13)) (simp add: it(6))
  ultimately show ?thesis using it1 it2 by (auto simp: it_Next_def)
qed

theorem iterate_for_prev_witness:
  "\<exists>it it'. it_IterateForPrev demo_rlib 15 (BlobFileIterator_new 0 demo_file 9 (GetFileSize (bb_file (fst demo_finished))) demo_options 1) = Some it \<and>
     it_Next demo_rlib it = Some it' \<and> it_cur_record it' = demo_record [1]"
proof -
  have s: "length (wf_contents (bb_file (fst demo_finished))) < 2 ^ 64" "0 < length [demo_record [1]]" "length [demo_record [1]] \<le> unat (1 :: u64)"
    by (simp_all add: demo_finished_facts(10))
  have "bh_offset (out_handles (snd demo_built @ snd demo_finished) ! 0) \<le> 15"
    "unat (15 :: u64) < unat (bh_offset (out_handles (snd demo_built @ snd demo_finished) ! 0)) +
      unat (bh_size (out_handles (snd demo_built @ snd demo_finished) ! 0))"
    by simp_all
  from iterate_for_prev [OF demo_finished_facts(1-9) s refl this, of 0 9 demo_options] show ?thesis by auto
qed

end
