(* ===== verification/Blob_File_Merge_Iterator.thy ===== *)
theory Blob_File_Merge_Iterator
  imports Blob_File_Iterator "HOL-Library.Multiset"
begin

text \<open>
  \<open>BlobFileMergeIterator\<close> of \<open>src/blob_file_iterator.{h,cc}\<close>: several blob file iterators merged by
  key. A pointer to an iterator is its position in \<open>blob_file_iterators_\<close>; the heap holds such
  positions, its top first.
\<close>

section \<open>The priority queue\<close>

text \<open>
  \<open>std::priority_queue\<close> promises that the top is an element no other has priority over. The model
  keeps its elements sorted; \<open>gt x y\<close> is the comparison object, which holds if \<open>y\<close> has priority.
\<close>

fun pq_push :: "('a \<Rightarrow> 'a \<Rightarrow> bool) \<Rightarrow> 'a \<Rightarrow> 'a list \<Rightarrow> 'a list" where
  "pq_push gt x [] = [x]"
| "pq_push gt x (y # q) = (if gt x y then y # pq_push gt x q else x # y # q)"

definition pq_ok :: "('a \<Rightarrow> 'a \<Rightarrow> bool) \<Rightarrow> 'a list \<Rightarrow> bool" where
  "pq_ok gt q \<longleftrightarrow> sorted_wrt (\<lambda>x y. \<not> gt x y) q"

text \<open>A strict weak ordering, as the standard library asks for.\<close>

definition weak_order :: "('a \<Rightarrow> 'a \<Rightarrow> bool) \<Rightarrow> bool" where
  "weak_order gt \<longleftrightarrow> (\<forall>x y. gt x y \<longrightarrow> \<not> gt y x) \<and> (\<forall>x y z. \<not> gt x y \<and> \<not> gt y z \<longrightarrow> \<not> gt x z)"

locale priority_queue =
  fixes push :: "('a \<Rightarrow> 'a \<Rightarrow> bool) \<Rightarrow> 'a \<Rightarrow> 'a list \<Rightarrow> 'a list"
    and ok :: "('a \<Rightarrow> 'a \<Rightarrow> bool) \<Rightarrow> 'a list \<Rightarrow> bool"
  assumes push_mset: "mset (push gt x q) = add_mset x (mset q)"
    and ok_empty: "ok gt []"
    and ok_push: "\<lbrakk>weak_order gt; ok gt q\<rbrakk> \<Longrightarrow> ok gt (push gt x q)"
    and ok_pop: "ok gt (x # q) \<Longrightarrow> ok gt q \<and> (\<forall>y\<in>set q. \<not> gt x y)"
    and ok_cong: "\<lbrakk>ok gt q; \<forall>x\<in>set q. \<forall>y\<in>set q. gt x y = gt' x y\<rbrakk> \<Longrightarrow> ok gt' q"
begin

lemma push_set: "set (push gt x q) = insert x (set q)"
  by (metis push_mset set_mset_add_mset_insert set_mset_mset)

lemma push_distinct: "distinct (push gt x q) \<longleftrightarrow> x \<notin> set q \<and> distinct q"
  by (metis distinct.simps(2) mset.simps(2) mset_eq_imp_distinct_iff push_mset)

text \<open>Some of the members pushed one after the other: the top is the best of them.\<close>

lemma pushes:
  assumes "weak_order gt" "ok gt q"
  shows "ok gt (fold (push gt) xs q) \<and> mset (fold (push gt) xs q) = mset xs + mset q"
  using assms(2) by (induction xs arbitrary: q) (simp_all add: ok_push [OF assms(1)] push_mset)

lemma top_best: "ok gt (x # q) \<Longrightarrow> y \<in> set q \<Longrightarrow> \<not> gt x y"
  using ok_pop by blast

end

lemma pq_push_mset: "mset (pq_push gt x q) = add_mset x (mset q)"
  by (induction q) simp_all

lemma pq_push_ok:
  assumes "weak_order gt" "pq_ok gt q"
  shows "pq_ok gt (pq_push gt x q)"
  using assms(2)
proof (induction q)
  case (Cons y q)
  have "set (pq_push gt x q) = insert x (set q)" by (metis pq_push_mset set_mset_add_mset_insert set_mset_mset)
  moreover have "\<not> gt y x" if "gt x y" using assms(1) that unfolding weak_order_def by blast
  moreover have "\<not> gt x z" if "\<not> gt x y" "\<not> gt y z" for z using assms(1) that unfolding weak_order_def by blast
  ultimately show ?case using Cons by (simp add: pq_ok_def)
qed (simp add: pq_ok_def)

interpretation pq: priority_queue pq_push pq_ok
proof unfold_locales
  fix gt gt' :: "'a \<Rightarrow> 'a \<Rightarrow> bool" and q :: "'a list"
  assume "pq_ok gt q" "\<forall>x\<in>set q. \<forall>y\<in>set q. gt x y = gt' x y"
  then show "pq_ok gt' q" by (induction q) (simp_all add: pq_ok_def)
qed (simp_all add: pq_push_mset pq_push_ok, simp_all add: pq_ok_def)

section \<open>Model of the merge iterator\<close>

record BlobFileMergeIterator =
  mi_status :: status
  mi_iterators :: "BlobFileIterator list"
  mi_heap :: "nat list"
  mi_current :: "nat option"
  mi_comparator :: comparator

definition BlobFileMergeIterator_new :: "BlobFileIterator list \<Rightarrow> comparator \<Rightarrow> BlobFileMergeIterator" where
  "BlobFileMergeIterator_new its cmp =
     \<lparr> mi_status = OK, mi_iterators = its, mi_heap = [], mi_current = None, mi_comparator = cmp \<rparr>"

abbreviation it_key :: "BlobFileIterator \<Rightarrow> bytes" where
  "it_key it \<equiv> rec_key (it_cur_record it)"

definition iter_gt :: "BlobFileMergeIterator \<Rightarrow> nat \<Rightarrow> nat \<Rightarrow> bool" where
  "iter_gt m i j \<longleftrightarrow> 0 < mi_comparator m (it_key (mi_iterators m ! i)) (it_key (mi_iterators m ! j))"

definition mi_get_status :: "BlobFileMergeIterator \<Rightarrow> status" where
  "mi_get_status m =
     (case mi_current m of
        None \<Rightarrow> mi_status m
      | Some i \<Rightarrow> if it_status (mi_iterators m ! i) \<noteq> OK then it_status (mi_iterators m ! i) else mi_status m)"

definition mi_Valid :: "BlobFileMergeIterator \<Rightarrow> bool" where
  "mi_Valid m =
     (case mi_current m of
        None \<Rightarrow> False
      | Some i \<Rightarrow> mi_get_status m = OK \<and> it_Valid (mi_iterators m ! i) \<and> it_status (mi_iterators m ! i) = OK)"

text \<open>One round of the loop of \<open>SeekToFirst\<close>, and the loop; \<open>None\<close> if an iterator does not return.\<close>

definition mi_seek_one :: "ReaderLib \<Rightarrow> nat \<Rightarrow> BlobFileMergeIterator \<Rightarrow> BlobFileMergeIterator option" where
  "mi_seek_one lib i m =
     (case it_SeekToFirst lib (mi_iterators m ! i) of
        None \<Rightarrow> None
      | Some it \<Rightarrow>
          let m = m\<lparr> mi_iterators := (mi_iterators m)[i := it] \<rparr>
          in Some (if it_status it = OK \<and> it_Valid it then m\<lparr> mi_heap := pq_push (iter_gt m) i (mi_heap m) \<rparr> else m))"

fun mi_seek_loop :: "ReaderLib \<Rightarrow> nat list \<Rightarrow> BlobFileMergeIterator \<Rightarrow> BlobFileMergeIterator option" where
  "mi_seek_loop lib [] m = Some m"
| "mi_seek_loop lib (i # is) m = (case mi_seek_one lib i m of None \<Rightarrow> None | Some m' \<Rightarrow> mi_seek_loop lib is m')"

definition mi_SeekToFirst :: "ReaderLib \<Rightarrow> BlobFileMergeIterator \<Rightarrow> BlobFileMergeIterator option" where
  "mi_SeekToFirst lib m =
     (case mi_seek_loop lib [0..<length (mi_iterators m)] m of
        None \<Rightarrow> None
      | Some m \<Rightarrow>
          Some (case mi_heap m of
                  t # rest \<Rightarrow> m\<lparr> mi_current := Some t, mi_heap := rest \<rparr>
                | [] \<Rightarrow> m\<lparr> mi_status := Aborted ''No iterator is valid'' \<rparr>))"

definition mi_Next :: "ReaderLib \<Rightarrow> BlobFileMergeIterator \<Rightarrow> BlobFileMergeIterator option" where
  "mi_Next lib m =
     (if \<not> mi_Valid m then Some (m\<lparr> mi_status := Undefined ''assert'' \<rparr>)
      else
        let i = the (mi_current m) in
        case it_Next lib (mi_iterators m ! i) of
          None \<Rightarrow> None
        | Some it \<Rightarrow>
            let m = m\<lparr> mi_iterators := (mi_iterators m)[i := it] \<rparr>;
                m = (if it_status it = OK \<and> it_Valid it then m\<lparr> mi_heap := pq_push (iter_gt m) i (mi_heap m) \<rparr> else m)
            in Some (case mi_heap m of
                       t # rest \<Rightarrow> m\<lparr> mi_current := Some t, mi_heap := rest \<rparr>
                     | [] \<Rightarrow> m\<lparr> mi_current := None \<rparr>))"

text \<open>\<open>None\<close>: the assertion fails, or there is no current iterator to ask.\<close>

definition mi_key :: "BlobFileMergeIterator \<Rightarrow> bytes option" where
  "mi_key m = map_option (\<lambda>i. it_key (mi_iterators m ! i)) (mi_current m)"

definition mi_value :: "BlobFileMergeIterator \<Rightarrow> bytes option" where
  "mi_value m = map_option (\<lambda>i. rec_value (it_cur_record (mi_iterators m ! i))) (mi_current m)"

definition mi_GetBlobIndex :: "BlobFileMergeIterator \<Rightarrow> BlobIndex option" where
  "mi_GetBlobIndex m = map_option (\<lambda>i. it_GetBlobIndex (mi_iterators m ! i)) (mi_current m)"

definition mi_ValidateByBitMap :: "BlobFileMergeIterator \<Rightarrow> bool option" where
  "mi_ValidateByBitMap m = Option.bind (mi_current m) (\<lambda>i. it_ValidateByBitMap (mi_iterators m ! i))"

section \<open>Merging\<close>

text \<open>What a client sees of an iterator: the items it goes through until it is no longer valid.\<close>

definition yields :: "ReaderLib \<Rightarrow> BlobFileIterator \<Rightarrow> (BlobIndex \<times> BlobRecord) list \<Rightarrow> bool" where
  "yields lib it xs \<longleftrightarrow> (\<exists>k it'. it_scan k lib it = Some (xs, it'))"

lemma yields_Nil [simp]: "yields lib it [] \<longleftrightarrow> \<not> it_Valid it"
proof
  assume "yields lib it []"
  then obtain k it' where "it_scan k lib it = Some ([], it')" by (auto simp: yields_def)
  then show "\<not> it_Valid it" by (cases k) (auto split: if_splits option.splits)
next
  assume "\<not> it_Valid it"
  then have "it_scan (Suc 0) lib it = Some ([], it)" by simp
  then show "yields lib it []" unfolding yields_def by blast
qed

lemma yields_Cons:
  assumes "yields lib it (x # xs)"
  obtains it' where "it_Valid it" "x = (it_GetBlobIndex it, it_cur_record it)" "it_Next lib it = Some it'" "yields lib it' xs"
proof -
  obtain k it'' where "it_scan k lib it = Some (x # xs, it'')" using assms by (auto simp: yields_def)
  then show ?thesis using that by (cases k) (auto simp: yields_def split: if_splits option.splits)
qed

abbreviation item_key :: "BlobIndex \<times> BlobRecord \<Rightarrow> bytes" where
  "item_key x \<equiv> rec_key (snd x)"

text \<open>Merging lists of items: an item whose key is least among the heads is taken first.\<close>

inductive merges ::
    "comparator \<Rightarrow> (BlobIndex \<times> BlobRecord) list list \<Rightarrow> (BlobIndex \<times> BlobRecord) list \<Rightarrow> bool" for cmp where
  merges_end: "\<forall>xs\<in>set xss. xs = [] \<Longrightarrow> merges cmp xss []"
| merges_take: "\<lbrakk>i < length xss; xss ! i = x # xs; \<forall>y ys. y # ys \<in> set xss \<longrightarrow> cmp (item_key x) (item_key y) \<le> 0;
    merges cmp (xss[i := xs]) out\<rbrakk> \<Longrightarrow> merges cmp xss (x # out)"

lemma mset_concat_take: "\<lbrakk>i < length xss; xss ! i = x # xs\<rbrakk> \<Longrightarrow> mset (concat xss) = add_mset x (mset (concat (xss[i := xs])))"
  by (induction xss arbitrary: i) (auto simp: nth_Cons split: nat.splits)

lemma merges_mset: "merges cmp xss out \<Longrightarrow> mset out = mset (concat xss)"
  by (induction rule: merges.induct) (auto simp: mset_concat_take)

abbreviation items_sorted :: "comparator \<Rightarrow> (BlobIndex \<times> BlobRecord) list \<Rightarrow> bool" where
  "items_sorted cmp \<equiv> sorted_wrt (\<lambda>x y. cmp (item_key x) (item_key y) \<le> 0)"

lemma merges_sorted:
  assumes "merges cmp xss out" "comparator cmp" "\<forall>xs\<in>set xss. items_sorted cmp xs"
  shows "items_sorted cmp out"
  using assms
proof (induction rule: merges.induct)
  case (merges_take i xss x xs out)
  have srt: "items_sorted cmp (x # xs)" using merges_take.hyps(1,2) merges_take.prems(2) by (metis nth_mem)
  have "\<forall>zs\<in>set (xss[i := xs]). items_sorted cmp zs"
    using merges_take.prems(2) srt set_update_subset_insert [of xss i xs] by auto
  then have "items_sorted cmp out" using merges_take.IH merges_take.prems(1) by blast
  moreover have "cmp (item_key x) (item_key z) \<le> 0" if "z \<in> set out" for z
  proof -
    have "z \<in># mset (concat (xss[i := xs]))" using that merges_mset [OF merges_take.hyps(4)] by (metis set_mset_mset)
    then obtain zs where zs: "zs \<in> set (xss[i := xs])" "z \<in> set zs" by auto
    show ?thesis
    proof (cases "zs = xs")
      case True
      then show ?thesis using srt zs(2) by simp
    next
      case False
      then have "zs \<in> set xss" using zs(1) set_update_subset_insert [of xss i xs] by blast
      moreover obtain y ys where y: "zs = y # ys" using zs(2) by (cases zs) auto
      ultimately have "cmp (item_key x) (item_key y) \<le> 0" "items_sorted cmp (y # ys)"
        using merges_take.hyps(3) merges_take.prems(2) by blast+
      then show ?thesis using zs(2) y comparator.cmp_trans [OF assms(2), of "item_key x" "item_key y" "item_key z"] by auto
    qed
  qed
  ultimately show ?case by simp
qed simp

section \<open>The heap holds the iterators that have items left\<close>

lemma iter_gt_weak: "comparator (mi_comparator m) \<Longrightarrow> weak_order (iter_gt m)"
  unfolding weak_order_def iter_gt_def
  by (meson comparator.cmp_swap comparator.cmp_trans linorder_not_less order.asym)

text \<open>The state between two calls; the positions in \<open>ps\<close> have not been visited yet.\<close>

definition mi_queued :: "ReaderLib \<Rightarrow> nat set \<Rightarrow> (BlobIndex \<times> BlobRecord) list list \<Rightarrow> BlobFileMergeIterator \<Rightarrow> bool" where
  "mi_queued lib ps xss m \<longleftrightarrow>
     comparator (mi_comparator m) \<and> length (mi_iterators m) = length xss \<and> mi_status m = OK \<and>
     distinct (mi_heap m) \<and> pq_ok (iter_gt m) (mi_heap m) \<and>
     set (mi_heap m) = {i. i < length xss \<and> i \<notin> ps \<and> xss ! i \<noteq> []} \<and>
     (\<forall>i<length xss. i \<notin> ps \<longrightarrow> yields lib (mi_iterators m ! i) (xss ! i))"

lemma mi_queued_push:
  assumes "mi_queued lib ps xss m" "i \<in> ps" "i < length xss" "yields lib it xs"
  defines "m1 \<equiv> m\<lparr> mi_iterators := (mi_iterators m)[i := it] \<rparr>"
  shows "mi_queued lib (ps - {i}) (xss[i := xs])
    (if it_status it = OK \<and> it_Valid it then m1\<lparr> mi_heap := pq_push (iter_gt m1) i (mi_heap m1) \<rparr> else m1)"
proof -
  have q: "comparator (mi_comparator m)" "length (mi_iterators m) = length xss" "mi_status m = OK"
    "distinct (mi_heap m)" "pq_ok (iter_gt m) (mi_heap m)" "set (mi_heap m) = {i. i < length xss \<and> i \<notin> ps \<and> xss ! i \<noteq> []}"
    "\<forall>i<length xss. i \<notin> ps \<longrightarrow> yields lib (mi_iterators m ! i) (xss ! i)"
    using assms(1) by (simp_all add: mi_queued_def)
  have v: "it_status it = OK \<and> it_Valid it \<longleftrightarrow> xs \<noteq> []"
    using assms(4) by (cases xs) (auto simp: it_Valid_def elim: yields_Cons)
  have ni: "i \<notin> set (mi_heap m)" using q(6) assms(2) by simp
  have gt: "iter_gt m1 a b = iter_gt m a b" if "a \<in> set (mi_heap m)" "b \<in> set (mi_heap m)" for a b
  proof -
    have "a \<noteq> i" "b \<noteq> i" using that ni by auto
    then show ?thesis by (simp add: iter_gt_def m1_def)
  qed
  have ok1: "pq_ok (iter_gt m1) (mi_heap m)" by (rule pq.ok_cong [OF q(5)]) (simp add: gt)
  have wk: "weak_order (iter_gt m1)" using q(1) by (intro iter_gt_weak) (simp add: m1_def)
  have ok2: "pq_ok (iter_gt (m1\<lparr> mi_heap := h \<rparr>)) = pq_ok (iter_gt m1)" for h
    by (rule arg_cong [of _ _ pq_ok]) (simp add: iter_gt_def fun_eq_iff)
  have y: "\<forall>j<length xss. j \<notin> ps - {i} \<longrightarrow> yields lib (mi_iterators m1 ! j) (xss[i := xs] ! j)"
    using q(2,7) assms(3,4) by (auto simp: m1_def nth_list_update)
  have h: "{j. j < length xss \<and> j \<notin> ps - {i} \<and> xss[i := xs] ! j \<noteq> []} = (if xs = [] then set (mi_heap m) else insert i (set (mi_heap m)))"
    unfolding q(6) using assms(2,3) by (auto simp: nth_list_update)
  have m1: "mi_comparator m1 = mi_comparator m" "length (mi_iterators m1) = length xss" "mi_status m1 = OK" "mi_heap m1 = mi_heap m"
    using q(2,3) by (simp_all add: m1_def)
  show ?thesis
  proof (cases "xs = []")
    case True
    then have nv: "\<not> (it_status it = OK \<and> it_Valid it)" using v by blast
    show ?thesis unfolding if_not_P [OF nv] using True m1 q(1,4) ok1 y h by (simp add: mi_queued_def)
  next
    case False
    have "pq_ok (iter_gt m1) (pq_push (iter_gt m1) i (mi_heap m))" by (rule pq.ok_push [OF wk ok1])
    moreover have nv: "it_status it = OK \<and> it_Valid it" using v False by blast
    ultimately show ?thesis unfolding if_P [OF nv] using False m1 q(1,4) ni ok2 y h by (simp add: mi_queued_def pq.push_set pq.push_distinct)
  qed
qed

text \<open>An iterator that goes through \<open>xs\<close> from its first record on.\<close>

definition seeks :: "ReaderLib \<Rightarrow> BlobFileIterator \<Rightarrow> (BlobIndex \<times> BlobRecord) list \<Rightarrow> bool" where
  "seeks lib it xs \<longleftrightarrow> (\<exists>it'. it_SeekToFirst lib it = Some it' \<and> yields lib it' xs)"

lemma mi_seek_loop_queued:
  assumes "mi_queued lib (set is) xss m" "distinct is" "set is \<subseteq> {..<length xss}"
    and "\<forall>i\<in>set is. seeks lib (mi_iterators m ! i) (xss ! i)"
  shows "\<exists>m'. mi_seek_loop lib is m = Some m' \<and> mi_queued lib {} xss m' \<and> mi_current m' = mi_current m \<and> mi_comparator m' = mi_comparator m"
  using assms
proof (induction "is" arbitrary: m)
  case (Cons i "is")
  have i: "i < length xss" "i \<in> set (i # is)" "i \<notin> set is" using Cons.prems(2,3) by auto
  obtain it where it: "it_SeekToFirst lib (mi_iterators m ! i) = Some it" "yields lib it (xss ! i)"
    using Cons.prems(4) by (auto simp: seeks_def)
  define m1 where "m1 = m\<lparr> mi_iterators := (mi_iterators m)[i := it] \<rparr>"
  define m2 where "m2 = (if it_status it = OK \<and> it_Valid it then m1\<lparr> mi_heap := pq_push (iter_gt m1) i (mi_heap m1) \<rparr> else m1)"
  have step: "mi_seek_one lib i m = Some m2" by (simp add: mi_seek_one_def it(1) m1_def m2_def Let_def)
  have "mi_queued lib (set (i # is) - {i}) (xss[i := xss ! i]) m2"
    unfolding m2_def m1_def by (rule mi_queued_push [OF Cons.prems(1) i(2,1) it(2)])
  then have q: "mi_queued lib (set is) xss m2" using i(3) by simp
  have "mi_iterators m2 ! j = mi_iterators m ! j" if "j \<in> set is" for j
  proof -
    have "i \<noteq> j" using that i(3) by auto
    then show ?thesis by (simp add: m2_def m1_def)
  qed
  then have "\<forall>j\<in>set is. seeks lib (mi_iterators m2 ! j) (xss ! j)" using Cons.prems(4) by simp
  moreover have "mi_current m2 = mi_current m" "mi_comparator m2 = mi_comparator m" by (simp_all add: m2_def m1_def)
  ultimately show ?case using Cons.IH [OF q] Cons.prems(2,3) step by auto
qed simp

text \<open>The state while the merge iterator is used: the current iterator is the best of those left.\<close>

definition mi_at :: "ReaderLib \<Rightarrow> (BlobIndex \<times> BlobRecord) list list \<Rightarrow> BlobFileMergeIterator \<Rightarrow> bool" where
  "mi_at lib xss m \<longleftrightarrow>
     (case mi_current m of
        None \<Rightarrow> mi_queued lib {} xss m \<and> mi_heap m = []
      | Some i \<Rightarrow> i < length xss \<and> xss ! i \<noteq> [] \<and> yields lib (mi_iterators m ! i) (xss ! i) \<and> mi_queued lib {i} xss m \<and>
                  (\<forall>j\<in>set (mi_heap m). \<not> iter_gt m i j))"

lemma mi_at_pop:
  assumes "mi_queued lib {} xss m" "mi_heap m = i # rest"
  shows "mi_at lib xss (m\<lparr> mi_current := Some i, mi_heap := rest \<rparr>)"
proof -
  let ?m = "m\<lparr> mi_current := Some i, mi_heap := rest \<rparr>"
  have gt: "iter_gt ?m = iter_gt m" by (simp add: iter_gt_def fun_eq_iff)
  have q: "pq_ok (iter_gt m) (i # rest)" "distinct (i # rest)" "insert i (set rest) = {i. i < length xss \<and> xss ! i \<noteq> []}"
    using assms by (simp_all add: mi_queued_def)
  have i: "i < length xss" "xss ! i \<noteq> []" using q(3) by auto
  moreover have "set rest = {j. j < length xss \<and> j \<notin> {i} \<and> xss ! j \<noteq> []}" using q(2,3) by auto
  moreover have "yields lib (mi_iterators m ! i) (xss ! i)" using assms(1) i(1) by (simp add: mi_queued_def)
  ultimately show ?thesis
    using assms(1) q(2) pq.ok_pop [OF q(1)] by (simp add: mi_at_def mi_queued_def gt)
qed

lemma mi_at_Valid:
  assumes "mi_at lib xss m"
  shows "mi_Valid m \<longleftrightarrow> mi_current m \<noteq> None"
proof (cases "mi_current m")
  case (Some i)
  then have "yields lib (mi_iterators m ! i) (xss ! i)" "xss ! i \<noteq> []" "mi_status m = OK" using assms by (simp_all add: mi_at_def mi_queued_def)
  then have "it_Valid (mi_iterators m ! i)" by (cases "xss ! i") (auto elim: yields_Cons)
  then show ?thesis using Some \<open>mi_status m = OK\<close> by (simp add: mi_Valid_def mi_get_status_def it_Valid_def)
qed (simp add: mi_Valid_def)

lemma mi_at_least:
  assumes "mi_at lib xss m" "mi_current m = Some i" "xss ! i = x # xs" "y # ys \<in> set xss"
  shows "mi_comparator m (item_key x) (item_key y) \<le> 0"
proof -
  have q: "comparator (mi_comparator m)" "set (mi_heap m) = {j. j < length xss \<and> j \<noteq> i \<and> xss ! j \<noteq> []}"
    "yields lib (mi_iterators m ! i) (x # xs)" "\<forall>j<length xss. j \<noteq> i \<longrightarrow> yields lib (mi_iterators m ! j) (xss ! j)"
    "\<forall>j\<in>set (mi_heap m). \<not> iter_gt m i j"
    using assms(1,2,3) by (auto simp: mi_at_def mi_queued_def)
  obtain j where j: "j < length xss" "xss ! j = y # ys" using assms(4) by (metis in_set_conv_nth)
  show ?thesis
  proof (cases "j = i")
    case True
    then have "y = x" using j(2) assms(3) by simp
    then show ?thesis using comparator.cmp_refl [OF q(1)] by simp
  next
    case False
    then have "yields lib (mi_iterators m ! j) (y # ys)" "\<not> iter_gt m i j" using q(2,4,5) j by auto
    moreover have "item_key x = it_key (mi_iterators m ! i)" using q(3) by (auto elim: yields_Cons)
    moreover have "item_key y = it_key (mi_iterators m ! j)" using calculation(1) by (auto elim: yields_Cons)
    ultimately show ?thesis by (simp add: iter_gt_def)
  qed
qed

lemma mi_Next_at:
  assumes "mi_at lib xss m" "mi_current m = Some i" "xss ! i = x # xs"
  shows "\<exists>m'. mi_Next lib m = Some m' \<and> mi_at lib (xss[i := xs]) m' \<and> mi_comparator m' = mi_comparator m"
proof -
  have q: "mi_queued lib {i} xss m" "i < length xss" "yields lib (mi_iterators m ! i) (x # xs)"
    using assms by (simp_all add: mi_at_def)
  obtain it where it: "it_Next lib (mi_iterators m ! i) = Some it" "yields lib it xs" using q(3) by (auto elim: yields_Cons)
  define m1 where "m1 = m\<lparr> mi_iterators := (mi_iterators m)[i := it] \<rparr>"
  define m2 where "m2 = (if it_status it = OK \<and> it_Valid it then m1\<lparr> mi_heap := pq_push (iter_gt m1) i (mi_heap m1) \<rparr> else m1)"
  have q2: "mi_queued lib {} (xss[i := xs]) m2"
    using mi_queued_push [OF q(1) singletonI q(2) it(2)] unfolding m2_def m1_def by (simp only: Diff_cancel)
  have "mi_Next lib m = Some (case mi_heap m2 of t # rest \<Rightarrow> m2\<lparr> mi_current := Some t, mi_heap := rest \<rparr> | [] \<Rightarrow> m2\<lparr> mi_current := None \<rparr>)"
    using mi_at_Valid [OF assms(1)]
    by (simp only: mi_Next_def Let_def m2_def m1_def assms(2) option.sel option.case it(1) option.distinct not_False_eq_True not_True_eq_False if_False simp_thms)
  moreover have "mi_comparator m2 = mi_comparator m" by (simp add: m2_def m1_def)
  moreover have "mi_at lib (xss[i := xs]) (m2\<lparr> mi_current := None \<rparr>)" if "mi_heap m2 = []"
  proof -
    have "iter_gt (m2\<lparr> mi_current := None \<rparr>) = iter_gt m2" by (simp add: iter_gt_def fun_eq_iff)
    then have "mi_queued lib {} (xss[i := xs]) (m2\<lparr> mi_current := None \<rparr>) = mi_queued lib {} (xss[i := xs]) m2" by (simp add: mi_queued_def)
    then show ?thesis using q2 that by (simp add: mi_at_def)
  qed
  moreover have "mi_at lib (xss[i := xs]) (m2\<lparr> mi_current := Some t, mi_heap := rest \<rparr>)" if "mi_heap m2 = t # rest" for t rest
    by (rule mi_at_pop [OF q2 that])
  ultimately show ?thesis by (cases "mi_heap m2") simp_all
qed

text \<open>The loop of a client of the merge iterator, as \<open>it_scan\<close> is for one iterator.\<close>

fun mi_scan :: "nat \<Rightarrow> ReaderLib \<Rightarrow> BlobFileMergeIterator \<Rightarrow> ((BlobIndex \<times> BlobRecord) list \<times> BlobFileMergeIterator) option" where
  "mi_scan 0 lib m = None"
| "mi_scan (Suc k) lib m =
     (if mi_Valid m then
        (case mi_Next lib m of
           None \<Rightarrow> None
         | Some m' \<Rightarrow> map_option (apfst ((#) (the (mi_GetBlobIndex m), it_cur_record (mi_iterators m ! the (mi_current m))))) (mi_scan k lib m'))
      else Some ([], m))"

lemma mi_scan_merges:
  assumes "mi_at lib xss m" "length (concat xss) < k"
  shows "\<exists>out m'. mi_scan k lib m = Some (out, m') \<and> merges (mi_comparator m) xss out \<and> mi_get_status m' = OK"
  using assms
proof (induction k arbitrary: xss m)
  case (Suc k)
  show ?case
  proof (cases "mi_current m")
    case None
    then have q: "mi_queued lib {} xss m" "mi_heap m = []" using Suc.prems(1) by (simp_all add: mi_at_def)
    then have "\<forall>xs\<in>set xss. xs = []" by (auto simp: mi_queued_def in_set_conv_nth)
    moreover have "mi_get_status m = OK" using q(1) None by (simp add: mi_queued_def mi_get_status_def)
    ultimately show ?thesis using None by (simp add: mi_Valid_def merges.merges_end)
  next
    case (Some i)
    then have i: "i < length xss" "xss ! i \<noteq> []" "yields lib (mi_iterators m ! i) (xss ! i)" using Suc.prems(1) by (simp_all add: mi_at_def)
    then obtain x xs where x: "xss ! i = x # xs" by (cases "xss ! i") auto
    obtain m' where m': "mi_Next lib m = Some m'" "mi_at lib (xss[i := xs]) m'" "mi_comparator m' = mi_comparator m"
      using mi_Next_at [OF Suc.prems(1) Some x] by blast
    have "length (concat xss) = Suc (length (concat (xss[i := xs])))"
      using arg_cong [OF mset_concat_take [OF i(1) x], of size] by simp
    then have "length (concat (xss[i := xs])) < k" using Suc.prems(2) by simp
    then obtain out m'' where o: "mi_scan k lib m' = Some (out, m'')" "merges (mi_comparator m) (xss[i := xs]) out" "mi_get_status m'' = OK"
      using Suc.IH [OF m'(2)] m'(3) by auto
    have "merges (mi_comparator m) xss (x # out)"
      using mi_at_least [OF Suc.prems(1) Some x] by (intro merges.merges_take [OF i(1) x _ o(2)]) blast
    moreover have "x = (it_GetBlobIndex (mi_iterators m ! i), it_cur_record (mi_iterators m ! i))"
      using i(3) x by (auto elim: yields_Cons)
    ultimately show ?thesis
      using o(1,3) m'(1) mi_at_Valid [OF Suc.prems(1)] Some by (simp add: mi_GetBlobIndex_def)
  qed
qed simp

section \<open>Properties of merging\<close>

lemma merge_scan:
  assumes "comparator cmp" "list_all2 (seeks lib) its xss"
  shows "\<exists>m out m'. mi_SeekToFirst lib (BlobFileMergeIterator_new its cmp) = Some m \<and>
    mi_scan (Suc (length (concat xss))) lib m = Some (out, m') \<and> mset out = mset (concat xss) \<and>
    (list_all (items_sorted cmp) xss \<longrightarrow> items_sorted cmp out) \<and>
    mi_get_status m' = (if concat xss = [] then Aborted ''No iterator is valid'' else OK)"
proof -
  let ?m = "BlobFileMergeIterator_new its cmp" and ?n = "length its"
  have len: "length its = length xss" using assms(2) by (rule list_all2_lengthD)
  have "mi_queued lib (set [0..<?n]) xss ?m"
    using assms(1) len by (simp add: mi_queued_def BlobFileMergeIterator_new_def pq.ok_empty)
  moreover have "\<forall>i\<in>set [0..<?n]. seeks lib (mi_iterators ?m ! i) (xss ! i)"
    using assms(2) by (simp add: BlobFileMergeIterator_new_def list_all2_conv_all_nth)
  ultimately obtain m where m: "mi_seek_loop lib [0..<?n] ?m = Some m" "mi_queued lib {} xss m" "mi_current m = None" "mi_comparator m = cmp"
    using mi_seek_loop_queued [of lib "[0..<?n]" xss ?m] len by (auto simp: lessThan_atLeast0 BlobFileMergeIterator_new_def)
  have heap: "mi_heap m = [] \<longleftrightarrow> concat xss = []"
  proof -
    have "set (mi_heap m) = {i. i < length xss \<and> xss ! i \<noteq> []}" using m(2) by (simp add: mi_queued_def)
    then have "set (mi_heap m) = {} \<longleftrightarrow> (\<forall>i<length xss. xss ! i = [])" by (simp only: Collect_empty_eq) simp
    moreover have "concat xss = [] \<longleftrightarrow> (\<forall>i<length xss. xss ! i = [])" by (simp only: concat_eq_Nil_conv all_set_conv_all_nth)
    ultimately show ?thesis by (simp only: set_empty)
  qed
  show ?thesis
  proof (cases "mi_heap m")
    case Nil
    let ?m' = "m\<lparr> mi_status := Aborted ''No iterator is valid'' \<rparr>"
    have "mi_SeekToFirst lib ?m = Some ?m'" using m(1) Nil by (simp add: mi_SeekToFirst_def BlobFileMergeIterator_new_def)
    moreover have "mi_scan (Suc (length (concat xss))) lib ?m' = Some ([], ?m')" using m(3) by (simp add: mi_Valid_def)
    ultimately show ?thesis using Nil heap m(3) by (auto simp: mi_get_status_def)
  next
    case (Cons t rest)
    let ?m' = "m\<lparr> mi_current := Some t, mi_heap := rest \<rparr>"
    have s: "mi_SeekToFirst lib ?m = Some ?m'" using m(1) Cons by (simp add: mi_SeekToFirst_def BlobFileMergeIterator_new_def)
    obtain out m'' where o: "mi_scan (Suc (length (concat xss))) lib ?m' = Some (out, m'')" "merges cmp xss out" "mi_get_status m'' = OK"
      using mi_scan_merges [OF mi_at_pop [OF m(2) Cons], of "Suc (length (concat xss))"] m(4) by auto
    have "mset out = mset (concat xss)" by (rule merges_mset [OF o(2)])
    moreover have "list_all (items_sorted cmp) xss \<longrightarrow> items_sorted cmp out"
      using merges_sorted [OF o(2) assms(1)] by (simp add: list_all_iff)
    moreover have "concat xss \<noteq> []" using Cons heap by simp
    ultimately show ?thesis using s o(1,3) by (intro exI conjI) (assumption | simp)+
  qed
qed

text \<open>
  C33: merging. Take iterators each of which goes through some list of records until it is no longer
  valid. Seeking the merge iterator and going on while it is valid ends after as many steps as there
  are records, and goes through exactly those records, none lost and none twice; if each list is in
  key order, so is the result. If there is no record at all the status is Aborted, else OK.
\<close>

theorem merge_iterator_merges:
  assumes "comparator cmp" "list_all2 (seeks lib) its xss"
  shows "\<exists>m out m'. mi_SeekToFirst lib (BlobFileMergeIterator_new its cmp) = Some m \<and>
    mi_scan (Suc (length (concat xss))) lib m = Some (out, m') \<and> mset out = mset (concat xss) \<and>
    (list_all (items_sorted cmp) xss \<longrightarrow> items_sorted cmp out) \<and>
    mi_get_status m' = (if concat xss = [] then Aborted ''No iterator is valid'' else OK)"
  using assms by (rule merge_scan)

text \<open>
  C35: the error of an iterator is lost. Stepping the merge iterator while the iterator it stands on
  fails leaves a merge iterator that stands on another one or on none and whose status is OK: the
  records behind the failure are skipped as if the file ended there.
\<close>

theorem merge_drops_error:
  assumes "mi_at lib xss m" "mi_current m = Some i" "it_Next lib (mi_iterators m ! i) = Some it" "it_status it \<noteq> OK"
  shows "\<exists>m'. mi_Next lib m = Some m' \<and> mi_get_status m' = OK \<and> mi_current m' \<noteq> Some i"
proof -
  obtain x xs where x: "xss ! i = x # xs" using assms(1,2) by (cases "xss ! i") (simp_all add: mi_at_def)
  then have q: "yields lib (mi_iterators m ! i) (x # xs)" "i < length xss" using assms(1,2) by (simp_all add: mi_at_def)
  then have "xs = []" using assms(3,4) by (cases xs) (auto elim!: yields_Cons simp: it_Valid_def)
  then obtain m' where m': "mi_Next lib m = Some m'" "mi_at lib (xss[i := []]) m'" using mi_Next_at [OF assms(1,2) x] by blast
  have "mi_current m' \<noteq> Some i" using m'(2) q(2) by (auto simp: mi_at_def)
  moreover have "mi_get_status m' = OK"
  proof (cases "mi_current m'")
    case None
    then show ?thesis using m'(2) by (simp add: mi_at_def mi_queued_def mi_get_status_def)
  next
    case (Some j)
    then have "mi_Valid m'" using mi_at_Valid [OF m'(2)] by simp
    then show ?thesis using Some by (simp add: mi_Valid_def)
  qed
  ultimately show ?thesis using m'(1) by blast
qed

section \<open>Examples\<close>

definition demo_iterator :: "u64 \<Rightarrow> BlobFileIterator" where
  "demo_iterator n = BlobFileIterator_new 0 demo_file n (GetFileSize (bb_file (fst demo_finished))) demo_options 1"

definition demo_items :: "u64 \<Rightarrow> (BlobIndex \<times> BlobRecord) list" where
  "demo_items n = zip (map (item_of n) (out_handles (snd demo_built @ snd demo_finished))) [demo_record [1]]"

lemma demo_iterator_seeks: "seeks demo_rlib (demo_iterator n) (demo_items n)"
proof -
  have "length (wf_contents (bb_file (fst demo_finished))) < 2 ^ 64" "[demo_record [1]] \<noteq> []" "length [demo_record [1]] \<le> unat (1 :: u64)"
    by (simp_all add: demo_finished_facts(10))
  from built_scan [OF demo_finished_facts(1-9) this, of 0 n demo_options]
  show ?thesis unfolding seeks_def yields_def demo_items_def demo_iterator_def by blast
qed

theorem merge_iterator_merges_witness:
  "\<exists>m out m'. mi_SeekToFirst demo_rlib (BlobFileMergeIterator_new [demo_iterator 9, demo_iterator 10] bytewise_compare) = Some m \<and>
     mi_scan (Suc (length (demo_items 9 @ demo_items 10))) demo_rlib m = Some (out, m') \<and> mset out = mset (demo_items 9 @ demo_items 10)"
proof -
  have "list_all2 (seeks demo_rlib) [demo_iterator 9, demo_iterator 10] [demo_items 9, demo_items 10]" by (simp add: demo_iterator_seeks)
  from merge_iterator_merges [OF bytewise.comparator_axioms this] show ?thesis by (auto simp del: mi_scan.simps)
qed

text \<open>An iterator on its first record, over a file all of whose further reads fail.\<close>

definition demo_failing :: BlobFileIterator where
  "demo_failing = (BlobFileIterator_new 0 \<lparr> rf_contents = [], rf_io = \<lambda>_ _. IOError [] \<rparr> 9 100 demo_options 2)
     \<lparr> it_init := True, it_valid := True, it_end_of_blob_record := 60, it_header_size := 12, it_iterate_offset := 30, it_iterate_index := 1 \<rparr>"

definition demo_merge :: BlobFileMergeIterator where
  "demo_merge = \<lparr> mi_status = OK, mi_iterators = [demo_failing], mi_heap = [], mi_current = Some 0, mi_comparator = bytewise_compare \<rparr>"

theorem merge_drops_error_witness:
  "\<exists>it m'. it_Next demo_rlib demo_failing = Some it \<and> it_status it = IOError [] \<and>
     mi_Next demo_rlib demo_merge = Some m' \<and> mi_get_status m' = OK \<and> mi_current m' \<noteq> Some 0"
proof -
  have "readahead_ok demo_failing" "it_Valid demo_failing"
    by (simp_all add: demo_failing_def BlobFileIterator_new_def readahead_ok_def it_Valid_def kMinReadaheadSize_def kMaxReadaheadSize_def)
  then obtain it where it: "it_Next demo_rlib demo_failing = Some it" using it_Next_returns by blast
  have "map_option it_status (it_Next demo_rlib demo_failing) = Some (IOError [])" by code_simp
  then have st: "it_status it = IOError []" using it by simp
  then have "\<not> it_Valid it" by (simp add: it_Valid_def)
  then have "it_scan (Suc (Suc 0)) demo_rlib demo_failing = Some ([(it_GetBlobIndex demo_failing, it_cur_record demo_failing)], it)"
    using it \<open>it_Valid demo_failing\<close> by simp
  then have "yields demo_rlib demo_failing [(it_GetBlobIndex demo_failing, it_cur_record demo_failing)]" unfolding yields_def by blast
  then have at: "mi_at demo_rlib [[(it_GetBlobIndex demo_failing, it_cur_record demo_failing)]] demo_merge"
    using bytewise.comparator_axioms by (auto simp: mi_at_def mi_queued_def demo_merge_def pq.ok_empty)
  have "mi_current demo_merge = Some 0" "it_Next demo_rlib (mi_iterators demo_merge ! 0) = Some it" "it_status it \<noteq> OK"
    using it st by (simp_all add: demo_merge_def)
  from merge_drops_error [OF at this] show ?thesis using it st by auto
qed

end
