(* ===== verification/Gc_Kernel.thy ===== *)
theory Gc_Kernel
  imports Blob_Format
begin

text \<open>
  \<open>hardware/kernel/src\<close>: the garbage collection kernel that runs on the SmartSSD, with its own
  integer codings (\<open>coding.h\<close>), file format (\<open>file_format.h\<close>) and main loop (\<open>gc_kernel.cc\<close>), and
  the host's reader of its key output (\<open>src/hadware_gc_driver.cc\<close>).

  A device buffer is a memory: a function from addresses to bytes, total as on the device. A
  pointer is its offset in the buffer; offsets are natural numbers, since no buffer reaches
  \<open>2 ^ 64\<close> bytes, and what the source cuts to 32 bits is cut. The on-chip arrays for the key and
  the value have fixed sizes; where the source would write past their end the model returns
  \<open>None\<close>.
\<close>

section \<open>Memory\<close>

type_synonym mem = "nat \<Rightarrow> byte"

definition load :: "mem \<Rightarrow> nat \<Rightarrow> nat \<Rightarrow> bytes" where
  "load m a n = map (\<lambda>i. m (a + i)) [0..<n]"

definition store :: "mem \<Rightarrow> nat \<Rightarrow> bytes \<Rightarrow> mem" where
  "store m a bs = (\<lambda>x. if a \<le> x \<and> x < a + length bs then bs ! (x - a) else m x)"

section \<open>Model of coding.h\<close>

definition hw_DecodeFixed32 :: "mem \<Rightarrow> nat \<Rightarrow> u32" where
  "hw_DecodeFixed32 m input = fold (\<lambda>i result. result OR push_bit (8 * i) (ucast (m (input + i)))) [0..<4] 0"

definition hw_DecodeFixed64 :: "mem \<Rightarrow> nat \<Rightarrow> u64" where
  "hw_DecodeFixed64 m input = fold (\<lambda>i result. result OR push_bit (8 * i) (ucast (m (input + i)))) [0..<8] 0"

fun fixed_bytes :: "nat \<Rightarrow> 'w::len word \<Rightarrow> bytes" where
  "fixed_bytes 0 value = []"
| "fixed_bytes (Suc n) value = ucast ((value AND 255) OR 256) # fixed_bytes n (drop_bit 8 value)"

definition hw_EncodeFixed32 :: "nat \<Rightarrow> u32 \<Rightarrow> mem \<Rightarrow> mem" where
  "hw_EncodeFixed32 buf value m = store m buf (fixed_bytes 4 value)"

definition hw_EncodeFixed64 :: "nat \<Rightarrow> u64 \<Rightarrow> mem \<Rightarrow> mem" where
  "hw_EncodeFixed64 buf value m = store m buf (fixed_bytes 8 value)"

text \<open>
  The readers return the decoded value, or the caller's old value when no last byte is found, and
  the offset advanced by the bytes read.
\<close>

function hw_DecodeVarint64 :: "mem \<Rightarrow> nat \<Rightarrow> u64 \<Rightarrow> nat \<Rightarrow> nat \<Rightarrow> u64 \<Rightarrow> nat \<Rightarrow> u64 \<times> nat" where
  "hw_DecodeVarint64 m shift result p limit value offset =
     (if shift \<le> 63 \<and> p < limit then
        let byte = ucast (m p)
        in if byte AND 128 \<noteq> 0
           then hw_DecodeVarint64 m (shift + 7) (result OR push_bit shift (byte AND 127)) (p + 1) limit value (offset + 1)
           else (result OR push_bit shift byte, offset + 1)
      else (value, offset))"
  by pat_completeness auto
termination by (relation "measure (\<lambda>(_, shift, _). 64 - shift)") auto

function hw_DecodeVarint32 :: "mem \<Rightarrow> nat \<Rightarrow> u32 \<Rightarrow> nat \<Rightarrow> nat \<Rightarrow> u32 \<Rightarrow> nat \<Rightarrow> u32 \<times> nat" where
  "hw_DecodeVarint32 m shift result p limit value offset =
     (if shift \<le> 28 \<and> p < limit then
        let byte = ucast (m p)
        in if byte AND 128 \<noteq> 0
           then hw_DecodeVarint32 m (shift + 7) (result OR push_bit shift (byte AND 127)) (p + 1) limit value (offset + 1)
           else (result OR push_bit shift byte, offset + 1)
      else (value, offset))"
  by pat_completeness auto
termination by (relation "measure (\<lambda>(_, shift, _). 64 - shift)") auto

declare hw_DecodeVarint64.simps [simp del] hw_DecodeVarint32.simps [simp del]

function hw_EncodeVarint64 :: "u64 \<Rightarrow> bytes" where
  "hw_EncodeVarint64 v =
     (if 128 \<le> v then ucast ((v AND 127) OR 128) # hw_EncodeVarint64 (drop_bit 7 v) else [ucast v])"
  by pat_completeness auto
termination by (relation "measure unat") (auto simp: unat_drop_bit_less word_le_nat_alt)

declare hw_EncodeVarint64.simps [simp del]

definition hw_EncodeVarint32 :: "u32 \<Rightarrow> bytes" where
  "hw_EncodeVarint32 v =
     (if v < 2 ^ 7 then [ucast v]
      else if v < 2 ^ 14 then [ucast (v OR 128), ucast (drop_bit 7 v)]
      else if v < 2 ^ 21 then [ucast (v OR 128), ucast (drop_bit 7 v OR 128), ucast (drop_bit 14 v)]
      else if v < 2 ^ 28 then
        [ucast (v OR 128), ucast (drop_bit 7 v OR 128), ucast (drop_bit 14 v OR 128), ucast (drop_bit 21 v)]
      else
        [ucast (v OR 128), ucast (drop_bit 7 v OR 128), ucast (drop_bit 14 v OR 128),
         ucast (drop_bit 21 v OR 128), ucast (drop_bit 28 v)])"

text \<open>\<open>cap\<close> is the size of the array the bytes are copied to.\<close>

definition hw_DecodeVarint32AndValue :: "mem \<Rightarrow> nat \<Rightarrow> nat \<Rightarrow> nat \<Rightarrow> (bytes \<times> u32 \<times> nat) option" where
  "hw_DecodeVarint32AndValue m data cap offset =
     (let (len, offset) = hw_DecodeVarint32 m 0 0 data (data + 5) 0 offset
      in if cap < unat len then None
         else Some (load m (data + offset) (unat len), len, offset + unat len))"

definition hw_EncodeVarint32AndValue :: "nat \<Rightarrow> bytes \<Rightarrow> u32 \<Rightarrow> nat \<Rightarrow> mem \<Rightarrow> mem \<times> nat" where
  "hw_EncodeVarint32AndValue data key key_size offset m =
     (let bs = hw_EncodeVarint32 key_size;
          m = store m data bs;
          offset = offset + length bs;
          m = store m (data + offset) (take (unat key_size) key)
      in (m, offset + unat key_size))"

section \<open>Model of file\_format.h\<close>

definition MAX_KEY_LENGTH :: nat where "MAX_KEY_LENGTH = 64"
definition MAX_VALUE_LENGTH :: nat where "MAX_VALUE_LENGTH = 8192"

definition hw_DecodeHeader :: "mem \<Rightarrow> nat \<Rightarrow> bool \<times> nat" where
  "hw_DecodeHeader m cur_offset =
     (let version = hw_DecodeFixed32 m (cur_offset + 4);
          flags = hw_DecodeFixed32 m (cur_offset + 8)
      in if hw_DecodeFixed32 m cur_offset \<noteq> kHeaderMagicNumber then (False, cur_offset)
         else if version \<noteq> 1 \<and> version \<noteq> 2 then (False, cur_offset)
         else if version = 2 then
           if flags AND NOT 1 \<noteq> 0 then (False, cur_offset) else (True, cur_offset + 12)
         else (True, cur_offset + 8))"

definition hw_DecodeFooter :: "mem \<Rightarrow> nat \<Rightarrow> bool" where
  "hw_DecodeFooter m data_size \<longleftrightarrow> hw_DecodeFixed64 m (data_size - 32 + 20) = kFooterMagicNumber"

definition hw_EncodeHeader :: "mem \<Rightarrow> nat \<Rightarrow> mem \<times> nat" where
  "hw_EncodeHeader m cur_offset =
     (hw_EncodeFixed32 (cur_offset + 8) 0
        (hw_EncodeFixed32 (cur_offset + 4) 2 (hw_EncodeFixed32 cur_offset kHeaderMagicNumber m)),
      cur_offset + 12)"

definition align_padding :: "nat \<Rightarrow> nat" where
  "align_padding cur_offset = (let r = (cur_offset + 32) mod 4096 in if 0 < r then 4096 - r else r)"

definition hw_EncodeFooter :: "mem \<Rightarrow> nat \<Rightarrow> mem \<times> nat" where
  "hw_EncodeFooter m cur_offset =
     (let data = cur_offset + align_padding cur_offset;
          m = store m data (hw_EncodeVarint64 0);
          m = store m (data + length (hw_EncodeVarint64 0)) (hw_EncodeVarint64 0);
          m = hw_EncodeFixed64 (data + 20) kFooterMagicNumber m;
          crc = hw_Crc32c 0 (load m data 28);
          m = hw_EncodeFixed32 (data + 28) crc m
      in (m, data + 32))"

definition CheckValid :: "nat \<Rightarrow> mem \<Rightarrow> bool" where
  "CheckValid offset bitmap \<longleftrightarrow> bitmap (offset div 8) AND push_bit (7 - offset mod 8) 1 = 0"

text \<open>
  Reading one entry. The sizes are the caller's variables: skipping an entry whose length is
  malformed leaves them as they were. Skipped entries leave the key and value arrays zeroed,
  represented by \<open>[]\<close>.
\<close>

definition GetKV ::
    "mem \<Rightarrow> nat \<Rightarrow> bool \<Rightarrow> u32 \<Rightarrow> u32 \<Rightarrow> (bytes \<times> u32 \<times> bytes \<times> u32 \<times> nat) option" where
  "GetKV m cur_offset valid key_size value_size =
     (let data = cur_offset + 9
      in if valid then
           (case hw_DecodeVarint32AndValue m data MAX_KEY_LENGTH 0 of
              None \<Rightarrow> None
            | Some (key, key_size, key_offset) \<Rightarrow>
                (case hw_DecodeVarint32AndValue m (data + key_offset) MAX_VALUE_LENGTH 0 of
                   None \<Rightarrow> None
                 | Some (value, value_size, value_offset) \<Rightarrow>
                     Some (key, key_size, value, value_size, cur_offset + 9 + (key_offset + value_offset))))
         else
           let (key_size, key_offset) = hw_DecodeVarint32 m 0 0 data (data + 5) key_size 0;
               key_offset = key_offset + unat key_size;
               (value_size, value_offset) =
                 hw_DecodeVarint32 m 0 0 (data + key_offset) (data + key_offset + 5) value_size 0;
               value_offset = value_offset + unat value_size
           in Some ([], key_size, [], value_size, cur_offset + 9 + (key_offset + value_offset)))"

definition PutOutputData :: "mem \<Rightarrow> bytes \<Rightarrow> u32 \<Rightarrow> bytes \<Rightarrow> u32 \<Rightarrow> nat \<Rightarrow> mem \<times> nat" where
  "PutOutputData m key key_size value value_size cur_offset =
     (let data = cur_offset;
          (m, key_offset) = hw_EncodeVarint32AndValue (data + 9) key key_size 0 m;
          (m, value_offset) = hw_EncodeVarint32AndValue (data + 9 + key_offset) value value_size 0 m;
          m = hw_EncodeFixed32 (data + 4) (of_nat (key_offset + value_offset)) m;
          m = store m (data + 8) [0];
          crc = hw_Crc32c 0 (load m (data + 4) (5 + key_offset + value_offset));
          m = hw_EncodeFixed32 data crc m
      in (m, cur_offset + (9 + key_offset + value_offset)))"

definition PutOutputKey ::
    "mem \<Rightarrow> bytes \<Rightarrow> u32 \<Rightarrow> nat \<Rightarrow> nat \<Rightarrow> nat \<Rightarrow> nat \<Rightarrow> nat \<Rightarrow> mem \<times> nat" where
  "PutOutputKey m key key_size cur_offset new_data_offset original_file original_data_offset entry_size =
     (let data = cur_offset;
          bs = hw_EncodeVarint32 key_size;
          offset = length bs;
          k = unat key_size;
          m = store m data bs;
          m = store m (data + offset) (take k key);
          m = hw_EncodeFixed32 (data + offset + k) (of_nat new_data_offset) m;
          m = hw_EncodeFixed32 (data + offset + k + 4) (of_nat original_file) m;
          m = hw_EncodeFixed32 (data + offset + k + 8) (of_nat original_data_offset) m;
          m = hw_EncodeFixed32 (data + offset + k + 12) (of_nat entry_size) m
      in (m, cur_offset + (offset + k + 16)))"

section \<open>Model of gc\_kernel.cc\<close>

record KernelOut =
  output_data :: mem
  output_key :: mem
  cur_output_data_offset :: nat
  cur_output_key_offset :: nat
  rewrite_key_num :: nat

text \<open>The loop over the entries of the input file \<open>i\<close>, from entry \<open>j\<close> on, \<open>n\<close> of them left.\<close>

fun kernel_entries ::
    "mem \<Rightarrow> mem \<Rightarrow> nat \<Rightarrow> nat \<Rightarrow> nat \<Rightarrow> u32 \<Rightarrow> u32 \<Rightarrow> nat \<Rightarrow> KernelOut \<Rightarrow> KernelOut option" where
  "kernel_entries input_data input_bitmap i 0 j key_length value_length cur out = Some out"
| "kernel_entries input_data input_bitmap i (Suc n) j key_length value_length cur out =
     (let valid = CheckValid j input_bitmap; origin_offset = cur
      in case GetKV input_data cur valid key_length value_length of
           None \<Rightarrow> None
         | Some (key, key_length, value, value_length, cur) \<Rightarrow>
             let out = (if valid then
                          let (ks, ko) = PutOutputKey (output_key out) key key_length (cur_output_key_offset out)
                                           (cur_output_data_offset out) i origin_offset (cur - origin_offset);
                              (ds, d) = PutOutputData (output_data out) key key_length value value_length
                                           (cur_output_data_offset out)
                          in out\<lparr> output_key := ks, cur_output_key_offset := ko, output_data := ds,
                                  cur_output_data_offset := d, rewrite_key_num := rewrite_key_num out + 1 \<rparr>
                        else out)
             in kernel_entries input_data input_bitmap i n (j + 1) key_length value_length cur out)"

text \<open>
  The loop over the input files, given as the list of their lengths in the data buffer, their
  lengths in the bitmap buffer and their entry counts. The result of \<open>DecodeHeader\<close> is not looked at.
\<close>

fun kernel_files :: "mem \<Rightarrow> mem \<Rightarrow> nat \<Rightarrow> (nat \<times> nat \<times> nat) list \<Rightarrow> KernelOut \<Rightarrow> KernelOut option" where
  "kernel_files input_data input_bitmap i [] out = Some out"
| "kernel_files input_data input_bitmap i ((data_length, bitmap_length, entry_num) # fs) out =
     (let (_, cur) = hw_DecodeHeader input_data 0
      in case kernel_entries input_data input_bitmap i entry_num 0 0 0 cur out of
           None \<Rightarrow> None
         | Some out \<Rightarrow>
             kernel_files (\<lambda>a. input_data (data_length + a)) (\<lambda>a. input_bitmap (bitmap_length + a)) (i + 1) fs out)"

text \<open>The result: the two output buffers and \<open>output_meta\<close>.\<close>

definition gcKernel ::
    "mem \<Rightarrow> mem \<Rightarrow> mem \<Rightarrow> mem \<Rightarrow> (nat \<times> nat \<times> nat) list \<Rightarrow> (mem \<times> mem \<times> nat list) option" where
  "gcKernel input_datas input_bitmaps output_data0 output_key0 inputs =
     (let (m, d) = hw_EncodeHeader output_data0 0
      in case kernel_files input_datas input_bitmaps 0 inputs
                \<lparr> output_data = m, output_key = output_key0, cur_output_data_offset = d,
                  cur_output_key_offset = 0, rewrite_key_num = 0 \<rparr> of
           None \<Rightarrow> None
         | Some out \<Rightarrow>
             let (m, d) = hw_EncodeFooter (output_data out) (cur_output_data_offset out)
             in Some (m, output_key out, [rewrite_key_num out, d, cur_output_key_offset out]))"

section \<open>Model of the host's key reader\<close>

text \<open>
  \<open>GetOutputKey\<close> reads one entry of the key buffer; \<open>None\<close> is the null pointer
  \<open>GetVarint32Ptr\<close> returns for a malformed length, which the source subtracts from.
\<close>

definition GetOutputKey :: "mem \<Rightarrow> nat \<Rightarrow> ((bytes \<times> u32 list) \<times> nat) option" where
  "GetOutputKey data cur_offset =
     (case GetVarint32Ptr (load data cur_offset 5) of
        None \<Rightarrow> None
      | Some (key_size, rest) \<Rightarrow>
          let offset = 5 - length rest; k = unat key_size; a = cur_offset + offset
          in Some ((load data a k,
                    [DecodeFixed32 (load data (a + k) 4), DecodeFixed32 (load data (a + k + 4) 4),
                     DecodeFixed32 (load data (a + k + 8) 4), DecodeFixed32 (load data (a + k + 12) 4)]),
                   cur_offset + (offset + k + 16)))"

fun rewrite_keys :: "mem \<Rightarrow> nat \<Rightarrow> nat \<Rightarrow> (bytes \<times> u32 list) list option" where
  "rewrite_keys data 0 cur = Some []"
| "rewrite_keys data (Suc n) cur =
     (case GetOutputKey data cur of
        None \<Rightarrow> None
      | Some (e, cur) \<Rightarrow> map_option (Cons e) (rewrite_keys data n cur))"


section \<open>Loads and stores\<close>

lemma length_load [simp]: "length (load m a n) = n"
  by (simp add: load_def)

lemma load_0 [simp]: "load m a 0 = []"
  by (simp add: load_def)

lemma load_add: "load m a (n + k) = load m a n @ load m (a + n) k"
  by (rule nth_equalityI) (auto simp: load_def nth_append)

lemma load_Suc: "load m a (Suc n) = m a # load m (Suc a) n"
  using load_add [of m a 1 n] by (simp add: load_def)

lemma load_store_same [simp]: "load (store m a bs) a (length bs) = bs"
  by (rule nth_equalityI) (simp_all add: load_def store_def)

lemma load_store_other:
  "a + n \<le> b \<or> b + length bs \<le> a \<Longrightarrow> load (store m b bs) a n = load m a n"
  by (rule nth_equalityI) (auto simp: load_def store_def)

text \<open>\<open>holds m a bs\<close>: the buffer has the bytes \<open>bs\<close> at the address \<open>a\<close>.\<close>

definition holds :: "mem \<Rightarrow> nat \<Rightarrow> bytes \<Rightarrow> bool" where
  "holds m a bs \<longleftrightarrow> load m a (length bs) = bs"

lemma holds_Nil [simp]: "holds m a []"
  by (simp add: holds_def)

lemma holds_append: "holds m a (xs @ ys) \<longleftrightarrow> holds m a xs \<and> holds m (a + length xs) ys"
  by (simp add: holds_def load_add)

lemma holds_Cons: "holds m a (x # xs) \<longleftrightarrow> m a = x \<and> holds m (Suc a) xs"
  by (simp add: holds_def load_Suc)

lemma holds_store [simp]: "holds (store m a bs) a bs"
  by (simp add: holds_def)

lemma holds_store_other:
  "\<lbrakk>a + length xs \<le> b \<or> b + length bs \<le> a\<rbrakk> \<Longrightarrow> holds (store m b bs) a xs \<longleftrightarrow> holds m a xs"
  by (simp add: holds_def load_store_other)

section \<open>The kernel's codings are those of the host\<close>

lemma fixed_bytes_length [simp]: "length (fixed_bytes n v) = n"
  by (induction n arbitrary: v) simp_all

lemma byte_or_256: "(ucast ((v AND 255) OR 256 :: 'w::len word) :: byte) = ucast (v AND 0xff)"
proof (rule bit_word_eqI)
  fix n assume "n < LENGTH(8)"
  moreover have "bit (256 :: 'w word) n \<longleftrightarrow> n = 8 \<and> 8 < LENGTH('w)"
    using bit_exp_iff [of 8 n, where 'a = "'w word"] by (auto simp: possible_bit_word)
  ultimately show "bit (ucast ((v AND 255) OR 256 :: 'w word) :: byte) n = bit (ucast (v AND 0xff) :: byte) n"
    by (auto simp: bit_simps)
qed

lemma fixed_bytes_32: "fixed_bytes 4 v = EncodeFixed32 v"
proof -
  have four: "(4 :: nat) = Suc (Suc (Suc (Suc 0)))" by simp
  show ?thesis unfolding four by (simp add: EncodeFixed32_def byte_or_256)
qed

lemma fixed_bytes_64: "fixed_bytes 8 v = EncodeFixed64 v"
proof -
  have eight: "(8 :: nat) = Suc (Suc (Suc (Suc (Suc (Suc (Suc (Suc 0)))))))" by simp
  have "fixed_bytes (Suc (Suc (Suc (Suc (Suc (Suc (Suc (Suc 0)))))))) v = EncodeFixed64 v"
    by (simp add: EncodeFixed64_def byte_or_256)
  then show ?thesis by (simp only: eight)
qed

lemma hw_DecodeFixed32_eq: "hw_DecodeFixed32 m a = DecodeFixed32 (load m a 4)"
  by (simp add: hw_DecodeFixed32_def DecodeFixed32_def load_def upt_rec ac_simps)

lemma mask_7_word: "(127 :: 'a::len word) = mask 7"
  by (simp add: mask_eq_exp_minus_1)

lemma hw_EncodeVarint64_eq: "hw_EncodeVarint64 v = EncodeVarint64 v"
proof (induction v rule: EncodeVarint64.induct)
  case (1 v)
  have "(ucast ((v AND 127) OR 128) :: byte) = ucast (v OR 128)"
    by (rule bit_word_eqI) (auto simp: bit_simps mask_7_word bit_128)
  then show ?case
    using 1 by (subst hw_EncodeVarint64.simps, subst EncodeVarint64.simps) simp
qed

lemma hw_EncodeVarint32_eq: "hw_EncodeVarint32 v = PutVarint32 v"
  by (simp add: hw_EncodeVarint32_def PutVarint32_def EncodeVarint32_def Let_def)

lemma and_128: "((w :: 'w::len word) AND 128 = 0) = (\<not> bit w 7)"
proof
  assume "w AND 128 = 0"
  then have "\<not> bit (w AND 128) 7" by simp
  then show "\<not> bit w 7" using bit_imp_le_length [of w 7] by (auto simp: bit_simps)
next
  assume "\<not> bit w 7"
  then show "w AND 128 = 0" by (intro bit_word_eqI) (auto simp: bit_simps)
qed

lemma ucast_byte_and:
  assumes "8 \<le> LENGTH('w)"
  shows "((ucast (b :: byte) :: 'w::len word) AND 128 = 0) = (b AND 128 = 0)"
    "((ucast b :: 'w word) AND 127) = ucast (b AND 127)"
proof -
  show "((ucast b :: 'w word) AND 128 = 0) = (b AND 128 = 0)"
    using assms by (simp add: and_128 bit_simps)
  show "((ucast b :: 'w word) AND 127) = ucast (b AND 127)"
    by (rule bit_word_eqI) (auto simp: bit_simps mask_7_word dest: bit_imp_le_length)
qed

lemma hw_DecodeVarint32_eq:
  "\<lbrakk>GetVarint32PtrFallback shift result bs = Some (v, rest); holds m p bs; p + (length bs - length rest) \<le> limit\<rbrakk> \<Longrightarrow>
   hw_DecodeVarint32 m shift result p limit value offset = (v, offset + (length bs - length rest))"
proof (induction shift result bs arbitrary: p offset rule: GetVarint32PtrFallback.induct)
  case (2 shift result b bs)
  have s: "shift \<le> 28" using 2(2) by (simp split: if_splits)
  have b: "m p = b" "holds m (Suc p) bs" using 2(3) by (simp_all add: holds_Cons)
  show ?case
  proof (cases "b AND 128 = 0")
    case True
    then have r: "v = result OR push_bit shift (ucast b)" "rest = bs" using 2(2) s by simp_all
    then have "p < limit" using 2(4) by simp
    then show ?thesis
      using True s b r ucast_byte_and(1) [of b, where 'w = 32]
      by (subst hw_DecodeVarint32.simps) simp
  next
    case False
    then have r: "GetVarint32PtrFallback (shift + 7) (result OR push_bit shift (ucast (b AND 127))) bs = Some (v, rest)"
      using 2(2) s by simp
    then have len: "length rest < length bs" by (rule GetVarint32PtrFallback_consumes)
    then have lim: "p < limit" "Suc p + (length bs - length rest) \<le> limit" using 2(4) by simp_all
    from lim(2) show ?thesis
      using False s b 2(1) [OF s False r b(2)] len ucast_byte_and [of b, where 'w = 32]
      by (subst hw_DecodeVarint32.simps) (simp add: Suc_diff_le lim(1))
  qed
qed simp

lemma hw_DecodeVarint32_Put:
  assumes "holds m p (PutVarint32 v)"
  shows "hw_DecodeVarint32 m 0 0 p (p + 5) value offset = (v, offset + length (PutVarint32 v))"
proof -
  have "GetVarint32PtrFallback 0 0 (PutVarint32 v @ []) = Some (0 OR push_bit 0 (ucast (ucast v :: u64)), [])"
    unfolding PutVarint32_def EncodeVarint32_eq_loop
    using unat_u32_less [of v] by (intro GetVarint32PtrFallback_EncodeVarint64) simp_all
  then have "GetVarint32PtrFallback 0 0 (PutVarint32 v) = Some (v, [])"
    by (simp add: ucast_ucast_u32)
  then show ?thesis
    using hw_DecodeVarint32_eq [OF _ assms, of 0 0 v "[]" "p + 5"] length_PutVarint(2) [of v] by simp
qed

lemma hw_DecodeVarint32AndValue_Put:
  assumes "holds m a (PutLengthPrefixedSlice k)" "length k \<le> cap" "length k < 2 ^ 32"
  shows "hw_DecodeVarint32AndValue m a cap 0 = Some (k, of_nat (length k), length (PutLengthPrefixedSlice k))"
proof -
  have h: "holds m a (PutVarint32 (of_nat (length k)))" "load m (a + length (PutVarint32 (of_nat (length k)))) (length k) = k"
    using assms(1) by (simp_all add: PutLengthPrefixedSlice_def holds_append) (simp add: holds_def)
  show ?thesis
    using h(2) assms(2,3)
    by (simp add: hw_DecodeVarint32AndValue_def hw_DecodeVarint32_Put [OF h(1)] PutLengthPrefixedSlice_def)
qed

lemma GetKV_valid:
  assumes "holds m (cur + 9) (BlobRecord_EncodeTo r)" "BlobRecord_wf r"
    "length (rec_key r) \<le> MAX_KEY_LENGTH" "length (rec_value r) \<le> MAX_VALUE_LENGTH"
  shows "GetKV m cur True ks vs =
    Some (rec_key r, of_nat (length (rec_key r)), rec_value r, of_nat (length (rec_value r)),
          cur + 9 + length (BlobRecord_EncodeTo r))"
proof -
  have "holds m (cur + 9) (PutLengthPrefixedSlice (rec_key r))"
    "holds m (cur + 9 + length (PutLengthPrefixedSlice (rec_key r))) (PutLengthPrefixedSlice (rec_value r))"
    "length (rec_key r) < 2 ^ 32" "length (rec_value r) < 2 ^ 32"
    using assms(1,2) by (simp_all add: BlobRecord_EncodeTo_def holds_append BlobRecord_wf_def)
  then show ?thesis
    using hw_DecodeVarint32AndValue_Put [OF _ assms(3)] hw_DecodeVarint32AndValue_Put [OF _ assms(4)]
    by (simp add: GetKV_def Let_def BlobRecord_EncodeTo_def)
qed

lemma GetKV_skip:
  assumes "holds m (cur + 9) (BlobRecord_EncodeTo r)" "BlobRecord_wf r"
  shows "GetKV m cur False ks vs =
    Some ([], of_nat (length (rec_key r)), [], of_nat (length (rec_value r)),
          cur + 9 + length (BlobRecord_EncodeTo r))"
proof -
  let ?k = "PutVarint32 (of_nat (length (rec_key r)))" and ?v = "PutVarint32 (of_nat (length (rec_value r)))"
  have h: "holds m (cur + 9) ?k" "holds m (cur + 9 + (length ?k + length (rec_key r))) ?v"
    using assms(1) by (simp_all add: BlobRecord_EncodeTo_def PutLengthPrefixedSlice_def holds_append add.assoc)
  have wf: "unat (of_nat (length (rec_key r)) :: u32) = length (rec_key r)"
    "unat (of_nat (length (rec_value r)) :: u32) = length (rec_value r)"
    using assms(2) by (simp_all add: BlobRecord_wf_def)
  show ?thesis
    using hw_DecodeVarint32_Put [OF h(1), of ks 0] hw_DecodeVarint32_Put [OF h(2), of vs 0]
    by (simp add: GetKV_def Let_def wf BlobRecord_EncodeTo_def PutLengthPrefixedSlice_def)
qed

section \<open>The kernel's output\<close>

text \<open>A record as the host writes it without compression, and an entry of the key output.\<close>

definition plain_record :: "BlobRecord \<Rightarrow> bytes" where
  "plain_record r = (let e = EncodeRecord (\<lambda>_ _. None) kNoCompression r in enc_header e @ enc_record e)"

definition key_entry :: "bytes \<Rightarrow> nat \<Rightarrow> nat \<Rightarrow> nat \<Rightarrow> nat \<Rightarrow> bytes" where
  "key_entry key new_off fno old_off esz =
     PutLengthPrefixedSlice key @ EncodeFixed32 (of_nat new_off) @ EncodeFixed32 (of_nat fno)
       @ EncodeFixed32 (of_nat old_off) @ EncodeFixed32 (of_nat esz)"

lemma hw_Crc32c_eq: "hw_Crc32c 0 bs = crc32c_Value bs"
  by (simp add: hw_Crc32c_serial crc32c_Value_def Extend_def ExtendImpl_serial)

lemma plain_record_eq:
  "plain_record r =
     (let body = BlobRecord_EncodeTo r; tail = EncodeFixed32 (of_nat (length body)) @ [0]
      in EncodeFixed32 (crc32c_Value (tail @ body)) @ tail @ body)"
  by (simp add: plain_record_def EncodeRecord_def EncodeSlice_def Compress_def Let_def kNoCompression_def
      crc32c_Value_def Extend_append)

lemma length_plain_record [simp]: "length (plain_record r) = 9 + length (BlobRecord_EncodeTo r)"
  by (simp add: plain_record_eq Let_def)

lemma hw_EncodeFixed32_eq: "hw_EncodeFixed32 buf value m = store m buf (EncodeFixed32 value)"
  by (simp add: hw_EncodeFixed32_def fixed_bytes_32)

lemma hw_EncodeVarint32AndValue_eq:
  assumes "length k < 2 ^ 32"
  shows "hw_EncodeVarint32AndValue a k (of_nat (length k)) 0 m =
    (store (store m a (PutVarint32 (of_nat (length k)))) (a + length (PutVarint32 (of_nat (length k)))) k,
     length (PutLengthPrefixedSlice k))"
  using assms by (simp add: hw_EncodeVarint32AndValue_def hw_EncodeVarint32_eq PutLengthPrefixedSlice_def Let_def)

lemma holds_load: "holds m a bs \<Longrightarrow> load m a (length bs) = bs"
  by (simp add: holds_def)

lemma PutOutputData_eq:
  fixes m :: mem and cur :: nat
  assumes "BlobRecord_wf r"
  defines "res \<equiv> PutOutputData m (rec_key r) (of_nat (length (rec_key r))) (rec_value r) (of_nat (length (rec_value r))) cur"
  shows "snd res = cur + length (plain_record r)" "holds (fst res) cur (plain_record r)"
    "a + n \<le> cur \<Longrightarrow> load (fst res) a n = load m a n"
proof -
  let ?k = "PutVarint32 (of_nat (length (rec_key r)))" and ?v = "PutVarint32 (of_nat (length (rec_value r)))"
  let ?K = "PutLengthPrefixedSlice (rec_key r)" and ?V = "PutLengthPrefixedSlice (rec_value r)"
  define body where "body = BlobRecord_EncodeTo r"
  have len: "length (rec_key r) < 2 ^ 32" "length (rec_value r) < 2 ^ 32" using assms(1) by (simp_all add: BlobRecord_wf_def)
  have K: "?K = ?k @ rec_key r" "?V = ?v @ rec_value r" by (simp_all add: PutLengthPrefixedSlice_def)
  have body: "body = ?K @ ?V" by (simp add: body_def BlobRecord_EncodeTo_def)
  define m1 where "m1 = store (store m (cur + 9) ?k) (cur + 9 + length ?k) (rec_key r)"
  define m2 where "m2 = store (store m1 (cur + 9 + length ?K) ?v) (cur + 9 + length ?K + length ?v) (rec_value r)"
  define tail where "tail = EncodeFixed32 (of_nat (length body)) @ [0 :: byte]"
  define m3 where "m3 = store (store m2 (cur + 4) (EncodeFixed32 (of_nat (length body)))) (cur + 8) [0]"
  define m4 where "m4 = store m3 cur (EncodeFixed32 (hw_Crc32c 0 (load m3 (cur + 4) (5 + length body))))"
  have res: "res = (m4, cur + (9 + length body))"
    by (simp add: res_def PutOutputData_def Let_def hw_EncodeVarint32AndValue_eq [OF len(1)] hw_EncodeVarint32AndValue_eq [OF len(2)]
        hw_EncodeFixed32_eq m1_def m2_def m3_def m4_def body add.assoc)
  have t: "length tail = 5" "length (EncodeFixed32 x) = 4" for x by (simp_all add: tail_def)
  have "holds m2 (cur + 9) body"
    by (simp add: m2_def m1_def body K holds_append holds_store_other add.assoc)
  then have m3: "holds m3 (cur + 9) body" "holds m3 (cur + 4) tail"
    by (simp_all add: m3_def tail_def holds_append holds_store_other add.commute [of cur])
  then have m34: "holds m3 (cur + 4) (tail @ body)" by (simp add: holds_append t add.commute [of cur])
  then have "load m3 (cur + 4) (5 + length body) = tail @ body"
    using holds_load [OF m34] by (simp add: t add.commute [of cur])
  then have m4: "m4 = store m3 cur (EncodeFixed32 (crc32c_Value (tail @ body)))"
    by (simp add: m4_def hw_Crc32c_eq)
  have "holds m4 (cur + 4) (tail @ body)" using m34 by (simp add: m4 holds_store_other t)
  then show "holds (fst res) cur (plain_record r)"
    unfolding res plain_record_eq Let_def body_def [symmetric] tail_def [symmetric]
    by (simp add: holds_append [of _ _ "EncodeFixed32 _"] t m4)
  show "snd res = cur + length (plain_record r)" by (simp add: res body_def)
  show "load (fst res) a n = load m a n" if "a + n \<le> cur"
    using that by (simp add: res m4_def m3_def m2_def m1_def load_store_other)
qed

lemma PutOutputKey_eq:
  fixes m :: mem and cur new_off fno old_off esz :: nat
  assumes "length key < 2 ^ 32"
  defines "res \<equiv> PutOutputKey m key (of_nat (length key)) cur new_off fno old_off esz"
  shows "snd res = cur + length (key_entry key new_off fno old_off esz)"
    "holds (fst res) cur (key_entry key new_off fno old_off esz)"
    "a + n \<le> cur \<Longrightarrow> load (fst res) a n = load m a n"
proof -
  let ?k = "PutVarint32 (of_nat (length key))"
  have t: "length (EncodeFixed32 x) = 4" for x by simp
  show "snd res = cur + length (key_entry key new_off fno old_off esz)"
    using assms(1) by (simp add: res_def PutOutputKey_def Let_def key_entry_def hw_EncodeVarint32_eq PutLengthPrefixedSlice_def)
  show "load (fst res) a n = load m a n" if "a + n \<le> cur"
    using that assms(1)
    by (simp add: res_def PutOutputKey_def Let_def hw_EncodeFixed32_eq hw_EncodeVarint32_eq load_store_other)
  show "holds (fst res) cur (key_entry key new_off fno old_off esz)"
    using assms(1)
    by (simp add: res_def PutOutputKey_def Let_def hw_EncodeFixed32_eq hw_EncodeVarint32_eq key_entry_def
        PutLengthPrefixedSlice_def holds_append holds_store_other add.assoc)
qed

section \<open>The main loop\<close>

text \<open>
  The entries that survive, with the number of their file and their offset in it; the records and
  the key entries written for them.
\<close>

fun survivors :: "nat \<Rightarrow> nat \<Rightarrow> nat \<Rightarrow> mem \<Rightarrow> BlobRecord list \<Rightarrow> (BlobRecord \<times> nat \<times> nat) list" where
  "survivors i off j bm [] = []"
| "survivors i off j bm (r # rs) =
     (if CheckValid j bm then [(r, i, off)] else []) @ survivors i (off + length (plain_record r)) (j + 1) bm rs"

definition data_output :: "(BlobRecord \<times> nat \<times> nat) list \<Rightarrow> bytes" where
  "data_output ss = concat (map (plain_record \<circ> fst) ss)"

fun key_output :: "nat \<Rightarrow> (BlobRecord \<times> nat \<times> nat) list \<Rightarrow> bytes" where
  "key_output d [] = []"
| "key_output d ((r, i, off) # ss) =
     key_entry (rec_key r) d i off (length (plain_record r)) @ key_output (d + length (plain_record r)) ss"

definition fits_kernel :: "BlobRecord \<Rightarrow> bool" where
  "fits_kernel r \<longleftrightarrow> length (rec_key r) \<le> MAX_KEY_LENGTH \<and> length (rec_value r) \<le> MAX_VALUE_LENGTH"

lemma fits_kernel_wf: "fits_kernel r \<Longrightarrow> BlobRecord_wf r"
  by (simp add: fits_kernel_def BlobRecord_wf_def MAX_KEY_LENGTH_def MAX_VALUE_LENGTH_def)

definition out_holds :: "KernelOut \<Rightarrow> bytes \<Rightarrow> bytes \<Rightarrow> nat \<Rightarrow> bool" where
  "out_holds out D K n \<longleftrightarrow>
     holds (output_data out) 0 D \<and> cur_output_data_offset out = length D \<and>
     holds (output_key out) 0 K \<and> cur_output_key_offset out = length K \<and> rewrite_key_num out = n"

lemma key_output_append:
  "key_output d (xs @ ys) = key_output d xs @ key_output (d + length (data_output xs)) ys"
  by (induction d xs rule: key_output.induct) (simp_all add: data_output_def add.assoc)

lemma data_output_append: "data_output (xs @ ys) = data_output xs @ data_output ys"
  by (simp add: data_output_def)

lemma holds_after: "\<lbrakk>holds m 0 D; \<And>a n. a + n \<le> length D \<Longrightarrow> load m' a n = load m a n; holds m' (length D) bs\<rbrakk> \<Longrightarrow>
   holds m' 0 (D @ bs)"
  by (simp add: holds_append) (simp add: holds_def)

lemma kernel_entries_eq:
  assumes "holds inp cur (concat (map plain_record rs))" "\<forall>r\<in>set rs. fits_kernel r" "out_holds out D K num"
  shows "\<exists>out'. kernel_entries inp bm i (length rs) j ks vs cur out = Some out' \<and>
    out_holds out' (D @ data_output (survivors i cur j bm rs))
      (K @ key_output (length D) (survivors i cur j bm rs)) (num + length (survivors i cur j bm rs))"
  using assms
proof (induction rs arbitrary: cur j ks vs out D K num)
  case Nil
  then show ?case by (simp add: data_output_def)
next
  case (Cons r rs)
  have fits: "fits_kernel r" and wf: "BlobRecord_wf r" using Cons.prems(2) by (auto simp: fits_kernel_wf)
  let ?n = "length (plain_record r)"
  have h: "holds inp cur (plain_record r)" "holds inp (cur + ?n) (concat (map plain_record rs))"
    using Cons.prems(1) by (simp_all add: holds_append)
  have body: "holds inp (cur + 9) (BlobRecord_EncodeTo r)"
  proof -
    have "plain_record r = take 9 (plain_record r) @ BlobRecord_EncodeTo r"
      by (simp add: plain_record_eq Let_def)
    then show ?thesis using h(1) holds_append [of inp cur "take 9 (plain_record r)" "BlobRecord_EncodeTo r"] by simp
  qed
  show ?case
  proof (cases "CheckValid j bm")
    case False
    have "kernel_entries inp bm i (length (r # rs)) j ks vs cur out =
      kernel_entries inp bm i (length rs) (j + 1) (of_nat (length (rec_key r))) (of_nat (length (rec_value r))) (cur + ?n) out"
      using False GetKV_skip [OF body wf, of ks vs] by (simp add: Let_def add.assoc)
    then show ?thesis
      using False Cons.IH [OF h(2) _ Cons.prems(3)] Cons.prems(2) by simp
  next
    case True
    define kr where "kr = PutOutputKey (output_key out) (rec_key r) (of_nat (length (rec_key r)))
       (cur_output_key_offset out) (cur_output_data_offset out) i cur ?n"
    define dr where "dr = PutOutputData (output_data out) (rec_key r) (of_nat (length (rec_key r))) (rec_value r)
       (of_nat (length (rec_value r))) (cur_output_data_offset out)"
    define out1 where "out1 = out\<lparr> output_key := fst kr, cur_output_key_offset := snd kr, output_data := fst dr,
       cur_output_data_offset := snd dr, rewrite_key_num := rewrite_key_num out + 1 \<rparr>"
    have o: "cur_output_data_offset out = length D" "cur_output_key_offset out = length K" "rewrite_key_num out = num"
      "holds (output_data out) 0 D" "holds (output_key out) 0 K"
      using Cons.prems(3) by (simp_all add: out_holds_def)
    have len: "length (rec_key r) < 2 ^ 32" using wf by (simp add: BlobRecord_wf_def)
    note k = PutOutputKey_eq [OF len, where m = "output_key out" and cur = "length K" and new_off = "length D" and fno = i and old_off = cur
        and esz = ?n, folded kr_def [unfolded o]]
    note d = PutOutputData_eq [OF wf, where m = "output_data out" and cur = "length D", folded dr_def [unfolded o]]
    have "out_holds out1 (D @ plain_record r) (K @ key_entry (rec_key r) (length D) i cur ?n) (num + 1)"
      unfolding out_holds_def out1_def using holds_after [OF o(4) d(3) d(2)] holds_after [OF o(5) k(3) k(2)] d(1) k(1) o(3)
      by simp
    moreover have "kernel_entries inp bm i (length (r # rs)) j ks vs cur out =
      kernel_entries inp bm i (length rs) (j + 1) (of_nat (length (rec_key r))) (of_nat (length (rec_value r))) (cur + ?n) out1"
      using True GetKV_valid [OF body wf, of ks vs] fits
      by (simp add: Let_def add.assoc fits_kernel_def out1_def kr_def dr_def case_prod_unfold)
    ultimately show ?thesis
      using True Cons.IH [OF h(2), of out1 "D @ plain_record r" "K @ key_entry (rec_key r) (length D) i cur ?n" "num + 1"
          "j + 1" "of_nat (length (rec_key r))" "of_nat (length (rec_value r))"] Cons.prems(2)
      by (simp add: data_output_def)
  qed
qed

lemma hw_DecodeHeader_eq:
  assumes "BlobFileHeader_wf h" "holds m 0 (BlobFileHeader_EncodeTo h)"
  shows "hw_DecodeHeader m 0 = (True, length (BlobFileHeader_EncodeTo h))"
proof -
  have fixed: "hw_DecodeFixed32 m a = v" if "holds m a (PutFixed32 v)" for a v
    using holds_load [OF that] DecodeFixed32_EncodeFixed32 [of v "[]"]
    by (simp add: hw_DecodeFixed32_eq PutFixed32_def)
  show ?thesis
    using assms fixed [of 0 kHeaderMagicNumber] fixed [of 4 "hdr_version h"] fixed [of 8 "hdr_flags h"]
    by (auto simp: BlobFileHeader_wf_def BlobFileHeader_EncodeTo_def holds_append hw_DecodeHeader_def Let_def
        PutFixed32_def kVersion1_def kVersion2_def kHasUncompressionDictionary_def)
qed

text \<open>
  The inputs: for each file its header, its records, and its lengths in the data and the bitmap
  buffer. The records are written as the host does without compression.
\<close>

type_synonym kernel_input = "BlobFileHeader \<times> BlobRecord list \<times> nat \<times> nat"

fun inputs_ok :: "mem \<Rightarrow> kernel_input list \<Rightarrow> bool" where
  "inputs_ok m [] = True"
| "inputs_ok m ((h, rs, data_length, bitmap_length) # fs) \<longleftrightarrow>
     BlobFileHeader_wf h \<and> holds m 0 (BlobFileHeader_EncodeTo h @ concat (map plain_record rs)) \<and>
     list_all fits_kernel rs \<and> inputs_ok (\<lambda>a. m (data_length + a)) fs"

fun all_survivors :: "nat \<Rightarrow> mem \<Rightarrow> kernel_input list \<Rightarrow> (BlobRecord \<times> nat \<times> nat) list" where
  "all_survivors i bm [] = []"
| "all_survivors i bm ((h, rs, data_length, bitmap_length) # fs) =
     survivors i (length (BlobFileHeader_EncodeTo h)) 0 bm rs
       @ all_survivors (i + 1) (\<lambda>a. bm (bitmap_length + a)) fs"

definition kernel_args :: "kernel_input list \<Rightarrow> (nat \<times> nat \<times> nat) list" where
  "kernel_args fs = map (\<lambda>(h, rs, data_length, bitmap_length). (data_length, bitmap_length, length rs)) fs"

lemma kernel_files_eq:
  assumes "inputs_ok inp fs" "out_holds out D K num"
  shows "\<exists>out'. kernel_files inp bm i (kernel_args fs) out = Some out' \<and>
    out_holds out' (D @ data_output (all_survivors i bm fs)) (K @ key_output (length D) (all_survivors i bm fs))
      (num + length (all_survivors i bm fs))"
  using assms
proof (induction fs arbitrary: inp bm i out D K num)
  case Nil
  then show ?case by (simp add: kernel_args_def data_output_def)
next
  case (Cons f fs)
  obtain h rs dl bl where f: "f = (h, rs, dl, bl)" by (cases f)
  let ?n = "length (BlobFileHeader_EncodeTo h)" and ?ss = "survivors i (length (BlobFileHeader_EncodeTo h)) 0 bm rs"
  have p: "BlobFileHeader_wf h" "holds inp 0 (BlobFileHeader_EncodeTo h)" "holds inp ?n (concat (map plain_record rs))"
    "\<forall>r\<in>set rs. fits_kernel r" "inputs_ok (\<lambda>a. inp (dl + a)) fs"
    using Cons.prems(1) by (simp_all add: f holds_append list_all_iff)
  obtain out1 where o: "kernel_entries inp bm i (length rs) 0 0 0 ?n out = Some out1"
    "out_holds out1 (D @ data_output ?ss) (K @ key_output (length D) ?ss) (num + length ?ss)"
    using kernel_entries_eq [OF p(3,4) Cons.prems(2)] by blast
  have "kernel_files inp bm i (kernel_args (f # fs)) out =
    kernel_files (\<lambda>a. inp (dl + a)) (\<lambda>a. bm (bl + a)) (i + 1) (kernel_args fs) out1"
    using o(1) by (simp add: f kernel_args_def hw_DecodeHeader_eq [OF p(1,2)])
  then show ?case
    using Cons.IH [OF p(5) o(2), of "\<lambda>a. bm (bl + a)" "i + 1"]
    by (simp add: f data_output_append key_output_append add.assoc)
qed

lemma align_padding: "4096 dvd d + align_padding d + 32" "align_padding d < 4096"
proof -
  show "align_padding d < 4096" by (simp add: align_padding_def Let_def)
  show "4096 dvd d + align_padding d + 32"
  proof -
    let ?r = "(d + 32) mod 4096"
    have "(d + 32) div 4096 * 4096 + ?r = d + 32" by (rule div_mult_mod_eq)
    moreover have "?r \<le> 4096" by (simp add: order_less_imp_le)
    ultimately have "d + (4096 - ?r) + 32 = (d + 32) div 4096 * 4096 + 4096" by linarith
    then have "4096 dvd d + (4096 - ?r) + 32" by (metis dvd_add dvd_refl dvd_triv_right)
    moreover have "?r = 0 \<Longrightarrow> 4096 dvd d + 0 + 32" by (simp only: add_0_right dvd_eq_mod_eq_0)
    ultimately show ?thesis by (cases "?r = 0") (simp_all only: align_padding_def Let_def if_True if_False neq0_conv less_irrefl)
  qed
qed

lemma EncodeVarint64_0: "EncodeVarint64 0 = [0]"
  by (subst EncodeVarint64.simps) simp

lemma hw_EncodeFooter_eq:
  fixes m :: mem and d :: nat
  defines "res \<equiv> hw_EncodeFooter m d"
  shows "snd res = d + align_padding d + 32" "a + n \<le> d \<Longrightarrow> load (fst res) a n = load m a n"
    "BlobFileFooter_DecodeFrom (load (fst res) (snd res - 32) 32) = Inr (\<lparr> meta_index_handle = NullBlockHandle \<rparr>, [])"
proof -
  define f where "f = d + align_padding d"
  define m1 where "m1 = store (store m f [0]) (f + 1) [0]"
  define m2 where "m2 = store m1 (f + 20) (EncodeFixed64 kFooterMagicNumber)"
  define m3 where "m3 = store m2 (f + 28) (EncodeFixed32 (crc32c_Value (load m2 f 28)))"
  have res: "res = (m3, f + 32)"
    by (simp add: res_def hw_EncodeFooter_def Let_def hw_EncodeVarint64_eq EncodeVarint64_0 hw_EncodeFixed64_def
        fixed_bytes_64 hw_EncodeFixed32_eq hw_Crc32c_eq f_def m1_def m2_def m3_def)
  show "snd res = d + align_padding d + 32" by (simp add: res f_def)
  show "load (fst res) a n = load m a n" if "a + n \<le> d"
    using that by (simp add: res m3_def m2_def m1_def load_store_other f_def)
  define x where "x = load m (f + 2) 18"
  have "load m1 f 2 = [0, 0]" by (simp add: m1_def load_def store_def upt_rec)
  moreover have "load m1 (f + 2) 18 = x" by (simp add: m1_def x_def load_store_other)
  ultimately have "load m1 f 20 = [0, 0] @ x" using load_add [of m1 f 2 18] by simp
  then have l2: "load m2 f 28 = [0, 0] @ x @ EncodeFixed64 kFooterMagicNumber"
    using load_add [of m2 f 20 8] load_store_same [of m1 "f + 20" "EncodeFixed64 kFooterMagicNumber"]
    by (simp add: m2_def load_store_other)
  let ?c = "crc32c_Value ([0, 0] @ x @ EncodeFixed64 kFooterMagicNumber)"
  have l3: "load m3 f 32 = [0, 0] @ x @ EncodeFixed64 kFooterMagicNumber @ EncodeFixed32 ?c"
    using load_add [of m3 f 28 4] load_store_same [of m2 "f + 28" "EncodeFixed32 ?c"] l2
    by (simp add: m3_def load_store_other)
  have x: "length x = 18" by (simp add: x_def)
  have h: "BlockHandle_DecodeFrom ([0, 0] @ y) = Inr (NullBlockHandle, y)" for y
    using block_handle.decode_encode [of NullBlockHandle y] EncodeVarint64_0
    by (simp add: BlockHandle_EncodeTo_def PutVarint64Varint64_def NullBlockHandle_def)
  have "BlobFileFooter_DecodeFrom ([0, 0] @ x @ PutFixed64 kFooterMagicNumber @ PutFixed32 ?c) =
    Inr (\<lparr> meta_index_handle = NullBlockHandle \<rparr>, [])"
  proof -
    have M: "length (PutFixed64 v) = 8" "length (PutFixed32 w) = 4" for v w by (simp_all add: PutFixed64_def PutFixed32_def)
    show ?thesis
      unfolding BlobFileFooter_DecodeFrom_def h using x M get_put_exact(1) [of ?c]
      by (simp add: Let_def flip: PutFixed64_def)
  qed
  then show "BlobFileFooter_DecodeFrom (load (fst res) (snd res - 32) 32) = Inr (\<lparr> meta_index_handle = NullBlockHandle \<rparr>, [])"
    by (simp add: res l3 PutFixed64_def PutFixed32_def)
qed

lemma hw_EncodeHeader_eq:
  "holds (fst (hw_EncodeHeader m 0)) 0 (BlobFileHeader_EncodeTo \<lparr> hdr_version = kVersion2, hdr_flags = 0 \<rparr>)"
  "snd (hw_EncodeHeader m 0) = 12"
  by (simp_all add: hw_EncodeHeader_def hw_EncodeFixed32_eq BlobFileHeader_EncodeTo_def kVersion2_def PutFixed32_def
      holds_append holds_store_other)

lemma length_header_v2: "length (BlobFileHeader_EncodeTo \<lparr> hdr_version = kVersion2, hdr_flags = f \<rparr>) = 12"
  by (simp add: BlobFileHeader_EncodeTo_def PutFixed32_def)

text \<open>What a run of the kernel leaves: a blob file with the surviving records, and their keys.\<close>

definition collected :: "(BlobRecord \<times> nat \<times> nat) list \<Rightarrow> mem \<times> mem \<times> nat list \<Rightarrow> bool" where
  "collected ss = (\<lambda>(m, ks, meta). \<exists>total.
     meta = [length ss, total, length (key_output 12 ss)] \<and>
     holds m 0 (BlobFileHeader_EncodeTo \<lparr> hdr_version = kVersion2, hdr_flags = 0 \<rparr> @ data_output ss) \<and>
     BlobFileFooter_DecodeFrom (load m (total - 32) 32) = Inr (\<lparr> meta_index_handle = NullBlockHandle \<rparr>, []) \<and>
     4096 dvd total \<and> 12 + length (data_output ss) + 32 \<le> total \<and> total < 12 + length (data_output ss) + 32 + 4096 \<and>
     holds ks 0 (key_output 12 ss))"

lemma gcKernel_eq:
  assumes "inputs_ok inp fs"
  shows "\<exists>res. gcKernel inp bm out_data out_key (kernel_args fs) = Some res \<and> collected (all_survivors 0 bm fs) res"
proof -
  let ?H = "BlobFileHeader_EncodeTo \<lparr> hdr_version = kVersion2, hdr_flags = 0 \<rparr>" and ?ss = "all_survivors 0 bm fs"
  let ?out = "\<lparr> output_data = fst (hw_EncodeHeader out_data 0), output_key = out_key, cur_output_data_offset = 12,
                cur_output_key_offset = 0, rewrite_key_num = 0 \<rparr>"
  have "out_holds ?out ?H [] 0"
    by (simp add: out_holds_def hw_EncodeHeader_eq length_header_v2)
  from kernel_files_eq [OF assms this, of bm 0]
  obtain out where out: "kernel_files inp bm 0 (kernel_args fs) ?out = Some out"
    "out_holds out (?H @ data_output ?ss) (key_output 12 ?ss) (length ?ss)"
    by (auto simp: length_header_v2)
  define d where "d = 12 + length (data_output ?ss)"
  have o: "cur_output_data_offset out = d" "cur_output_key_offset out = length (key_output 12 ?ss)"
    "rewrite_key_num out = length ?ss" "holds (output_data out) 0 (?H @ data_output ?ss)" "holds (output_key out) 0 (key_output 12 ?ss)"
    using out(2) by (simp_all add: out_holds_def length_header_v2 d_def)
  note f = hw_EncodeFooter_eq [where m = "output_data out" and d = d]
  let ?r = "hw_EncodeFooter (output_data out) d"
  have "gcKernel inp bm out_data out_key (kernel_args fs) =
    Some (fst ?r, output_key out, [length ?ss, snd ?r, length (key_output 12 ?ss)])"
    using out(1) by (simp add: gcKernel_def Let_def case_prod_unfold hw_EncodeHeader_eq o)
  moreover have "holds (fst ?r) 0 (?H @ data_output ?ss)"
    using o(4) f(2) [of 0 d] by (simp add: holds_def length_header_v2 d_def)
  ultimately show ?thesis
    using f(1,3) o(5) align_padding [of d] by (auto simp: collected_def d_def add.commute add.left_commute)
qed

section \<open>The host reads the keys back\<close>

fun host_keys :: "nat \<Rightarrow> (BlobRecord \<times> nat \<times> nat) list \<Rightarrow> (bytes \<times> u32 list) list" where
  "host_keys d [] = []"
| "host_keys d ((r, i, off) # ss) =
     (rec_key r, [of_nat d, of_nat i, of_nat off, of_nat (length (plain_record r))]) # host_keys (d + length (plain_record r)) ss"

lemma GetOutputKey_eq:
  assumes "holds m a (key_entry key d i off esz)" "length key < 2 ^ 32"
  shows "GetOutputKey m a = Some ((key, [of_nat d, of_nat i, of_nat off, of_nat esz]), a + length (key_entry key d i off esz))"
proof -
  let ?p = "PutVarint32 (of_nat (length key))"
  let ?n = "length ?p"
  have n: "?n \<le> 5" using length_PutVarint(2) by simp
  have h: "holds m a ?p" "holds m (a + ?n) key" "holds m (a + ?n + length key) (EncodeFixed32 (of_nat d))"
    "holds m (a + ?n + length key + 4) (EncodeFixed32 (of_nat i))" "holds m (a + ?n + length key + 8) (EncodeFixed32 (of_nat off))"
    "holds m (a + ?n + length key + 12) (EncodeFixed32 (of_nat esz))"
    using assms(1) by (simp_all add: key_entry_def PutLengthPrefixedSlice_def holds_append add.assoc)
  have "load m a 5 = ?p @ load m (a + ?n) (5 - ?n)"
    using load_add [of m a ?n "5 - ?n"] n holds_load [OF h(1)] by simp
  then have "GetVarint32Ptr (load m a 5) = Some (of_nat (length key), load m (a + ?n) (5 - ?n))"
    using GetVarint32_PutVarint32 [of "of_nat (length key)" "load m (a + ?n) (5 - ?n)"] by (simp add: GetVarint32_def)
  moreover have "DecodeFixed32 (load m b 4) = v" if "holds m b (EncodeFixed32 v)" for b v
    using holds_load [OF that] DecodeFixed32_EncodeFixed32 [of v "[]"] by simp
  note this [OF h(3)] this [OF h(4)] this [OF h(5)] this [OF h(6)]
  ultimately show ?thesis
    using n holds_load [OF h(2)] assms(2)
    by (simp add: GetOutputKey_def Let_def key_entry_def PutLengthPrefixedSlice_def)
qed

lemma rewrite_keys_eq:
  "\<lbrakk>holds m a (key_output d ss); \<forall>s\<in>set ss. length (rec_key (fst s)) < 2 ^ 32\<rbrakk> \<Longrightarrow>
   rewrite_keys m (length ss) a = Some (host_keys d ss)"
proof (induction d ss arbitrary: a rule: key_output.induct)
  case (2 d r i off ss)
  have h: "holds m a (key_entry (rec_key r) d i off (length (plain_record r)))"
    "holds m (a + length (key_entry (rec_key r) d i off (length (plain_record r)))) (key_output (d + length (plain_record r)) ss)"
    using 2(2) by (simp_all add: holds_append)
  show ?case
    using 2(1) [OF h(2)] 2(3) GetOutputKey_eq [OF h(1)] by simp
qed simp
end
