(* ===== verification/Gc_Driver.thy ===== *)
theory Gc_Driver
  imports Gc_Kernel "HOL-Library.Multiset"
begin

text \<open>
  \<open>src/hadware_gc_driver.{h,cc}\<close>: the host side of the offloaded garbage collection. The driver
  lays the input files and their bitmaps out in device buffers, runs the kernel, writes its output
  to the new blob file, reads the surviving keys back, and hands out the compute units.

  The OpenCL runtime is outside the sources: mapping a buffer gives its memory and a task runs the
  kernel to completion. A read of a regular file returns the bytes that are left, up to the size
  asked for. \<open>exit\<close> ends the process; the model returns \<open>None\<close>.
\<close>

section \<open>Model\<close>

definition OUTPUT_KEY_SIZE :: nat where "OUTPUT_KEY_SIZE = 4 * 5 + 24"
definition OUTPUT_META_SIZE :: nat where "OUTPUT_META_SIZE = 4"
definition p2p_buf_size :: nat where "p2p_buf_size = 128 * 1024 * 1024"

text \<open>Sizes of device buffers: the next multiple of a megabyte above.\<close>

definition round_mb :: "nat \<Rightarrow> nat" where
  "round_mb s = (s div 2 ^ 20 + 1) * 2 ^ 20"

text \<open>
  The loop that reads one file, with the position in the device buffer and the offset in the file;
  \<open>None\<close> when a read returns nothing and the process exits. The result is the memory and the
  number of bytes read.
\<close>

fun p2p_read :: "nat \<Rightarrow> bytes \<Rightarrow> nat \<Rightarrow> nat \<Rightarrow> mem \<Rightarrow> (mem \<times> nat) option" where
  "p2p_read 0 contents p read_offset m = Some (m, read_offset)"
| "p2p_read (Suc iters) contents p read_offset m =
     (let got = take p2p_buf_size (drop read_offset contents)
      in if got = [] then None
         else p2p_read iters contents (p + p2p_buf_size) (read_offset + length got) (store m p got))"

fun read_inputs :: "bytes list \<Rightarrow> nat \<Rightarrow> nat \<Rightarrow> mem \<Rightarrow> (mem \<times> nat) option" where
  "read_inputs [] input_offset p2p_read_size m = Some (m, p2p_read_size)"
| "read_inputs (f # fs) input_offset p2p_read_size m =
     (let sz = round_mb (length f)
      in case p2p_read (sz div p2p_buf_size + 1) f input_offset 0 m of
           None \<Rightarrow> None
         | Some (m, read_offset) \<Rightarrow> read_inputs fs (input_offset + sz) (p2p_read_size + read_offset) m)"

fun copy_bitmaps :: "bytes list \<Rightarrow> nat \<Rightarrow> mem \<Rightarrow> mem" where
  "copy_bitmaps [] input_offset m = m"
| "copy_bitmaps (b # bs) input_offset m = copy_bitmaps bs (input_offset + length b) (store m input_offset b)"

definition output_key_size :: "nat list \<Rightarrow> nat" where
  "output_key_size num_entries = round_mb (sum_list num_entries * OUTPUT_KEY_SIZE)"

definition output_file_size :: "bytes list \<Rightarrow> nat" where
  "output_file_size input_files = sum_list (map (round_mb \<circ> length) input_files)"

text \<open>
  \<open>run_gc_kernel\<close> on the contents of the input files, the bytes of their bitmaps and their entry
  counts. \<open>device_in\<close> and \<open>device_out\<close> are the device buffers as allocated, and \<open>written n\<close> is what the
  call of \<open>write\<close> for \<open>n\<close> bytes returns, 0 standing for an error too: the driver exits when it is not
  positive and otherwise does not look whether the write was short. The result is the contents of
  the output file, the rewritten keys and \<open>output_meta\<close>; \<open>None\<close> when the process exits or the kernel
  writes past the end of the file buffer or the key buffer.
\<close>

definition run_gc_kernel ::
    "mem \<Rightarrow> mem \<Rightarrow> (nat \<Rightarrow> nat) \<Rightarrow> bytes list \<Rightarrow> bytes list \<Rightarrow> nat list \<Rightarrow> (bytes \<times> (bytes \<times> u32 list) list \<times> nat list) option" where
  "run_gc_kernel device_in device_out written input_files bitmaps num_entries =
     (let file_sizes = map (round_mb \<circ> length) input_files
      in case read_inputs input_files 0 0 device_in of
           None \<Rightarrow> None
         | Some (input, p2p_read_size) \<Rightarrow>
             (case gcKernel input (copy_bitmaps bitmaps 0 (\<lambda>_. 0)) device_out (\<lambda>_. 0)
                     (zip file_sizes (zip (map length bitmaps) num_entries)) of
                None \<Rightarrow> None
              | Some (out, keys, meta) \<Rightarrow>
                  if output_file_size input_files < meta ! 1 \<or> output_key_size num_entries < meta ! 2 then None
                  else if meta ! 1 = 0 \<or> written (meta ! 1) = 0 then None
                  else map_option (\<lambda>ks. (take (written (meta ! 1)) (load out 0 (meta ! 1)), ks, meta @ [0]))
                         (rewrite_keys keys (meta ! 0) 0)))"

section \<open>Model of the compute units\<close>

definition gc_kernel_count :: nat where "gc_kernel_count = 9"

definition initial_cus :: "byte list" where
  "initial_cus = map of_nat [1..<gc_kernel_count]"

definition get_free_cu_index :: "byte list \<Rightarrow> (status + byte) \<times> byte list" where
  "get_free_cu_index free_index_queue =
     (case free_index_queue of
        [] \<Rightarrow> (Inl (Busy []), [])
      | i # q \<Rightarrow> (Inr i, q))"

definition set_free_cu_index :: "byte \<Rightarrow> byte list \<Rightarrow> status \<times> byte list" where
  "set_free_cu_index index free_index_queue = (OK, free_index_queue @ [index])"


section \<open>Reading the input files\<close>

text \<open>The sizes the read loop can deal with.\<close>

definition readable :: "nat \<Rightarrow> bool" where
  "readable s \<longleftrightarrow> round_mb s div p2p_buf_size * p2p_buf_size < s"

lemma store_append: "store (store m p xs) (p + length xs) ys = store m p (xs @ ys)"
  by (rule ext) (auto simp: store_def nth_append)

lemma p2p_read_eq:
  "p2p_read (Suc n) c p r m =
    (if r + n * p2p_buf_size < length c
     then Some (store m p (take (Suc n * p2p_buf_size) (drop r c)), min (length c) (r + Suc n * p2p_buf_size))
     else None)"
proof (induction n arbitrary: p r m)
  case 0
  have "0 < p2p_buf_size" by (simp add: p2p_buf_size_def)
  then show ?case by (auto simp: Let_def min_def)
next
  case (Suc n)
  let ?B = p2p_buf_size and ?got = "take p2p_buf_size (drop r c)"
  have B: "0 < ?B" by (simp add: p2p_buf_size_def)
  show ?case
  proof (cases "r + ?B \<le> length c")
    case True
    then have got: "length ?got = ?B" "?got \<noteq> []" using B by auto
    have "?got @ take (Suc n * ?B) (drop (r + ?B) c) = take (Suc (Suc n) * ?B) (drop r c)"
      using take_add [of ?B "Suc n * ?B" "drop r c"] by (simp add: add.commute)
    moreover have "p2p_read (Suc (Suc n)) c p r m = p2p_read (Suc n) c (p + ?B) (r + ?B) (store m p ?got)"
      using got by (subst p2p_read.simps(2)) (simp del: p2p_read.simps)
    ultimately show ?thesis
      using got(1) store_append [of m p ?got "take (Suc n * ?B) (drop (r + ?B) c)"]
      by (simp del: p2p_read.simps mult_Suc add: Suc.IH [of "p + ?B" "r + ?B"] add.assoc) simp
  next
    case False
    then have "p2p_read (Suc (Suc n)) c p r m = None"
      by (subst p2p_read.simps(2)) (auto simp: Suc.IH Let_def simp del: p2p_read.simps)
    then show ?thesis using False by simp
  qed
qed

lemma round_mb: "s < round_mb s" "2 ^ 20 dvd round_mb s"
proof -
  have "s < (s div 2 ^ 20 + 1) * 2 ^ 20" for s :: nat
    using div_mult_mod_eq [of s "2 ^ 20"] mod_less_divisor [of "2 ^ 20" s] by (simp add: algebra_simps)
  then show "s < round_mb s" by (simp add: round_mb_def)
  show "2 ^ 20 dvd round_mb s" by (simp add: round_mb_def)
qed

lemma p2p_read_file:
  "p2p_read (round_mb (length c) div p2p_buf_size + 1) c p 0 m =
    (if readable (length c) then Some (store m p c, length c) else None)"
proof -
  let ?n = "round_mb (length c) div p2p_buf_size"
  have "length c < Suc ?n * p2p_buf_size"
    using round_mb(1) [of "length c"] div_mult_mod_eq [of "round_mb (length c)" p2p_buf_size]
      mod_less_divisor [of p2p_buf_size "round_mb (length c)"] by (simp add: p2p_buf_size_def)
  then show ?thesis using p2p_read_eq [of ?n c p 0 m] by (simp add: readable_def)
qed

lemma rounded_below:
  fixes M :: nat
  assumes "0 < M"
  shows "(s div M + 1) * M div (128 * M) * (128 * M) < s \<longleftrightarrow> 0 < s mod (128 * M) \<and> s mod (128 * M) < 127 * M"
proof -
  define c t u where "c = s div (128 * M)" and "t = s mod (128 * M)" and "u = t div M"
  have s: "s = c * 128 * M + t" using div_mult_mod_eq [of s "128 * M"] by (simp add: c_def t_def mult.assoc)
  then have q: "s div M = c * 128 + u" using assms by (simp add: u_def add.commute)
  have u: "u < 128" "u < 127 \<longleftrightarrow> t < 127 * M"
    using assms mod_less_divisor [of "128 * M" s] by (simp_all add: u_def t_def div_less_iff_less_mult)
  have "(s div M + 1) * M div (128 * M) = (c * 128 + (u + 1)) div 128"
    using assms by (simp only: div_mult_mult2 q add.assoc)
  also have "\<dots> = c + (u + 1) div 128" by simp
  finally have r: "(s div M + 1) * M div (128 * M) = c + (u + 1) div 128" .
  have "t < 128 * M" using assms by (simp add: t_def)
  show ?thesis
  proof (cases "u < 127")
    case True
    then have "(u + 1) div 128 = 0" by simp
    moreover have "t < 127 * M" using True u by simp
    ultimately show ?thesis unfolding r t_def [symmetric] by (subst s) simp
  next
    case False
    then have "(u + 1) div 128 = 1" using u(1) by simp
    moreover have "\<not> t < 127 * M" using False u by simp
    ultimately show ?thesis
      unfolding r t_def [symmetric] using \<open>t < 128 * M\<close> by (subst s) (simp add: algebra_simps)
  qed
qed

lemma readable_iff: "readable s \<longleftrightarrow> 0 < s mod p2p_buf_size \<and> s mod p2p_buf_size < 127 * 2 ^ 20"
  using rounded_below [of "2 ^ 20" s] by (simp add: readable_def round_mb_def p2p_buf_size_def)

text \<open>Where the files end up in the buffer.\<close>

fun layout :: "mem \<Rightarrow> nat \<Rightarrow> bytes list \<Rightarrow> bool" where
  "layout m off [] = True"
| "layout m off (f # fs) \<longleftrightarrow> holds m off f \<and> layout m (off + round_mb (length f)) fs"

lemma read_inputs_eq:
  "\<forall>f\<in>set fs. readable (length f) \<Longrightarrow>
   \<exists>m'. read_inputs fs off n m = Some (m', n + sum_list (map length fs)) \<and> layout m' off fs \<and>
     (\<forall>a k. a + k \<le> off \<longrightarrow> load m' a k = load m a k)"
proof (induction fs arbitrary: off n m)
  case (Cons f fs)
  obtain m' where m': "read_inputs fs (off + round_mb (length f)) (n + length f) (store m off f) =
      Some (m', n + length f + sum_list (map length fs))"
    "layout m' (off + round_mb (length f)) fs"
    "\<forall>a k. a + k \<le> off + round_mb (length f) \<longrightarrow> load m' a k = load (store m off f) a k"
    using Cons.IH [of "off + round_mb (length f)" "n + length f" "store m off f"] Cons.prems by auto
  have "holds m' off f"
    using m'(3) round_mb(1) [of "length f"] by (simp add: holds_def)
  moreover have "load m' a k = load m a k" if "a + k \<le> off" for a k
    using m'(3) that by (simp add: load_store_other)
  ultimately show ?case
    using m' Cons.prems p2p_read_file [of f off m] by (simp add: Let_def add.assoc)
qed simp

section \<open>The bitmaps\<close>

lemma copy_bitmaps_below: "a + k \<le> off \<Longrightarrow> load (copy_bitmaps bs off m) a k = load m a k"
  by (induction bs arbitrary: off m) (simp_all add: load_store_other)

lemma copy_bitmaps_Cons:
  "holds (copy_bitmaps (b # bs) off m) off b"
  using copy_bitmaps_below [of off "length b" "off + length b" bs "store m off b"] by (simp add: holds_def)

lemma holds_nth:
  assumes "holds m a bs" "i < length bs"
  shows "m (a + i) = bs ! i"
proof -
  have "load m a (length bs) ! i = bs ! i" using assms(1) by (simp only: holds_def)
  then show ?thesis using assms(2) by (simp add: load_def)
qed

lemma survivors_cong:
  assumes "\<And>i. i < n \<Longrightarrow> bm (i div 8) = bm' (i div 8)" "j + length rs \<le> n"
  shows "survivors i off j bm rs = survivors i off j bm' rs"
  using assms(2) by (induction rs arbitrary: off j) (simp_all add: CheckValid_def assms(1))

text \<open>An entry is live if its bit is clear, as the host's bitmap reads it.\<close>

lemma CheckValid_GetBit:
  assumes "BitMap_inv b" "bits b = Some bs" "j \<le> unat (valid_bits b)"
  shows "CheckValid j (nth bs) \<longleftrightarrow> GetBit b (of_nat j) = Inr 0"
proof -
  have "j < 2 ^ 64" using assms(3) unat_u64_less [of "valid_bits b"] by simp
  then have j: "unat (of_nat j :: u64) = j" by simp
  have len: "length bs = unat (valid_bits b) div 8 + 1" using assms(1,2) by (auto elim!: BitMap_invE)
  have "\<not> valid_bits b < of_nat j" using assms(3) j by (simp add: word_less_nat_alt)
  moreover have "unat (drop_bit 3 (of_nat j :: u64)) = j div 8" by (simp add: unat_drop_bit_div j)
  moreover have "unat ((of_nat j :: u64) AND 7) = j mod 8" using unat_and_7 [of "of_nat j"] j by simp
  moreover have "j div 8 < length bs" using assms(3) len by (simp add: div_le_mono less_Suc_eq_le)
  ultimately show ?thesis
    using assms(2) by (auto simp: CheckValid_def GetBit_def Let_def)
qed

section \<open>A run of the driver\<close>

text \<open>
  An input of the driver: the header and the records of a blob file, whatever follows them in the
  file, and the bytes of its bitmap.
\<close>

record DriverInput =
  di_header :: BlobFileHeader
  di_records :: "BlobRecord list"
  di_rest :: bytes
  di_bitmap :: bytes

definition di_contents :: "DriverInput \<Rightarrow> bytes" where
  "di_contents d = BlobFileHeader_EncodeTo (di_header d) @ concat (map plain_record (di_records d)) @ di_rest d"

definition di_ok :: "DriverInput \<Rightarrow> bool" where
  "di_ok d \<longleftrightarrow> BlobFileHeader_wf (di_header d) \<and> list_all fits_kernel (di_records d) \<and>
     readable (length (di_contents d)) \<and> length (di_records d) \<le> 8 * length (di_bitmap d)"

fun live_entries :: "nat \<Rightarrow> DriverInput list \<Rightarrow> (BlobRecord \<times> nat \<times> nat) list" where
  "live_entries i [] = []"
| "live_entries i (d # ds) =
     survivors i (length (BlobFileHeader_EncodeTo (di_header d))) 0 (nth (di_bitmap d)) (di_records d) @ live_entries (i + 1) ds"

definition kernel_view :: "DriverInput \<Rightarrow> kernel_input" where
  "kernel_view d = (di_header d, di_records d, round_mb (length (di_contents d)), length (di_bitmap d))"

lemma holds_shift: "holds (\<lambda>x. m (k + x)) a bs = holds m (k + a) bs"
  by (simp add: holds_def load_def add.assoc)

lemma layout_inputs_ok:
  "\<lbrakk>layout m off (map di_contents ds); \<forall>d\<in>set ds. di_ok d\<rbrakk> \<Longrightarrow> inputs_ok (\<lambda>a. m (off + a)) (map kernel_view ds)"
  by (induction ds arbitrary: off)
    (simp_all add: kernel_view_def di_ok_def holds_shift di_contents_def holds_append add.assoc flip: add.assoc)

lemma copy_bitmaps_survivors:
  "\<forall>d\<in>set ds. di_ok d \<Longrightarrow>
   all_survivors i (\<lambda>a. copy_bitmaps (map di_bitmap ds) off m (off + a)) (map kernel_view ds) = live_entries i ds"
proof (induction ds arbitrary: i off m)
  case (Cons d ds)
  let ?b = "di_bitmap d" and ?m = "copy_bitmaps (map di_bitmap (d # ds)) off m"
  have h: "holds ?m off ?b" using copy_bitmaps_Cons by simp
  have n: "length (di_records d) \<le> 8 * length ?b" using Cons.prems by (simp add: di_ok_def)
  have "survivors i k 0 (\<lambda>a. ?m (off + a)) (di_records d) = survivors i k 0 (nth ?b) (di_records d)" for k
    by (rule survivors_cong [of "length (di_records d)"]) (use n holds_nth [OF h] in \<open>auto simp: div_less_iff_less_mult\<close>)
  moreover have "all_survivors (i + 1) (\<lambda>a. ?m (off + (length ?b + a))) (map kernel_view ds) = live_entries (i + 1) ds"
    using Cons.IH [of "i + 1" "off + length ?b" "store m off ?b"] Cons.prems by (simp add: add.assoc)
  ultimately show ?case by (simp add: kernel_view_def [of d])
qed simp

lemma survivors_records: "fst ` set (survivors i off j bm rs) \<subseteq> set rs"
  by (induction rs arbitrary: off j) (auto split: if_splits)

lemma live_entries_records: "s \<in> set (live_entries i ds) \<Longrightarrow> \<exists>d\<in>set ds. fst s \<in> set (di_records d)"
  by (induction ds arbitrary: i) (use survivors_records in fastforce)+

text \<open>The output fits the buffers the driver allocates.\<close>

definition output_fits :: "DriverInput list \<Rightarrow> bool" where
  "output_fits ds \<longleftrightarrow>
     12 + length (data_output (live_entries 0 ds)) + 32 \<le> output_file_size (map di_contents ds) \<and>
     length (key_output 12 (live_entries 0 ds)) \<le> output_key_size (map (length \<circ> di_records) ds)"

lemma page_le:
  fixes a b c :: nat
  assumes "4096 dvd a" "4096 dvd c" "a < b + 4096" "b \<le> c"
  shows "a \<le> c"
proof -
  obtain k l where kl: "a = 4096 * k" "c = 4096 * l" using assms(1,2) unfolding dvd_def by blast
  then have "k < l + 1" using assms(3,4) by simp
  then show ?thesis by (simp add: kl)
qed

lemma output_file_size_dvd: "4096 dvd output_file_size fs"
proof -
  have "(4096 :: nat) dvd 2 ^ 20" by simp
  then have "4096 dvd round_mb s" for s using round_mb(2) [of s] by (rule dvd_trans)
  then show ?thesis by (induction fs) (simp_all add: output_file_size_def)
qed

lemma run_gc_kernel_cases:
  assumes "\<forall>d\<in>set ds. di_ok d"
  defines "ss \<equiv> live_entries 0 ds"
  shows "\<exists>m ks total. run_gc_kernel device_in device_out written (map di_contents ds) (map di_bitmap ds) (map (length \<circ> di_records) ds) =
      (if output_fits ds \<and> written total \<noteq> 0 then Some (take (written total) (load m 0 total), host_keys 12 ss, [length ss, total, length (key_output 12 ss), 0]) else None) \<and>
    collected ss (m, ks, [length ss, total, length (key_output 12 ss)])"
proof -
  have "\<forall>f\<in>set (map di_contents ds). readable (length f)" using assms(1) by (auto simp: di_ok_def)
  from read_inputs_eq [OF this, of 0 0 device_in]
  obtain m n where m: "read_inputs (map di_contents ds) 0 0 device_in = Some (m, n)" "layout m 0 (map di_contents ds)"
    by auto
  have inp: "inputs_ok m (map kernel_view ds)" using layout_inputs_ok [OF m(2) assms(1)] by simp
  let ?bm = "copy_bitmaps (map di_bitmap ds) 0 (\<lambda>_. 0)"
  have ss: "all_survivors 0 ?bm (map kernel_view ds) = ss"
    using copy_bitmaps_survivors [OF assms(1), of 0 0 "\<lambda>_. 0"] by (simp add: ss_def)
  have args: "kernel_args (map kernel_view ds) =
     zip (map (round_mb \<circ> length) (map di_contents ds)) (zip (map length (map di_bitmap ds)) (map (length \<circ> di_records) ds))"
    by (induction ds) (simp_all add: kernel_args_def kernel_view_def)
  obtain out where out: "gcKernel m ?bm device_out (\<lambda>_. 0) (kernel_args (map kernel_view ds)) = Some out" "collected ss out"
    using gcKernel_eq [OF inp, of ?bm device_out "\<lambda>_. 0"] by (auto simp: ss)
  obtain om ks total where o: "out = (om, ks, [length ss, total, length (key_output 12 ss)])"
    "holds ks 0 (key_output 12 ss)" "12 + length (data_output ss) + 32 \<le> total"
    "4096 dvd total" "total < 12 + length (data_output ss) + 32 + 4096"
    using out(2) by (cases out) (auto simp: collected_def)
  have fits: "output_fits ds \<longleftrightarrow>
      \<not> (output_file_size (map di_contents ds) < total \<or> output_key_size (map (length \<circ> di_records) ds) < length (key_output 12 ss))"
    using page_le [OF o(4) output_file_size_dvd o(5)] o(3) unfolding output_fits_def ss_def [symmetric] by (meson leD le_trans not_le)
  have "\<forall>s\<in>set ss. length (rec_key (fst s)) < 2 ^ 32"
  proof
    fix s assume "s \<in> set ss"
    then obtain d where "d \<in> set ds" "fst s \<in> set (di_records d)" using live_entries_records [of s 0 ds] by (auto simp: ss_def)
    then have "fits_kernel (fst s)" using assms(1) by (auto simp: di_ok_def list_all_iff)
    then show "length (rec_key (fst s)) < 2 ^ 32" using fits_kernel_wf by (simp add: BlobRecord_wf_def)
  qed
  then have "rewrite_keys ks (length ss) 0 = Some (host_keys 12 ss)" using rewrite_keys_eq [OF o(2)] by blast
  then have "run_gc_kernel device_in device_out written (map di_contents ds) (map di_bitmap ds) (map (length \<circ> di_records) ds) =
      (if output_fits ds \<and> written total \<noteq> 0 then Some (take (written total) (load om 0 total), host_keys 12 ss, [length ss, total, length (key_output 12 ss), 0]) else None)"
    using m(1) out(1) o(3) unfolding run_gc_kernel_def Let_def args o(1) fits by simp
  then show ?thesis using out(2) o(1) by blast
qed

section \<open>The size of the key buffer\<close>

lemma length_PutVarint32_small: "n < 128 \<Longrightarrow> length (PutVarint32 (of_nat n)) = 1"
proof -
  assume "n < 128"
  then have "(of_nat n :: u32) < 2 ^ 7" by (simp add: word_less_nat_alt)
  then show ?thesis by (simp add: PutVarint32_def EncodeVarint32_def Let_def)
qed

lemma length_key_output:
  "\<forall>s\<in>set ss. length (rec_key (fst s)) < 128 \<Longrightarrow>
   length (key_output d ss) = sum_list (map (\<lambda>s. length (rec_key (fst s)) + 17) ss)"
  by (induction d ss rule: key_output.induct)
    (simp_all add: key_entry_def PutLengthPrefixedSlice_def length_PutVarint32_small)

text \<open>
  Keys of at most 27 bytes fit the key buffer, and files with a header of version 2 and room for
  a footer fit the file buffer.
\<close>

lemma survivors_length:
  "sum_list (map (\<lambda>s. f (fst s)) (survivors i off j bm rs)) \<le> sum_list (map f rs)" for f :: "BlobRecord \<Rightarrow> nat"
  by (induction rs arbitrary: off j) (simp_all add: add_mono trans_le_add2)

lemma live_entries_length:
  "sum_list (map (\<lambda>s. f (fst s)) (live_entries i ds)) \<le> sum_list (map (\<lambda>d. sum_list (map f (di_records d))) ds)"
  for f :: "BlobRecord \<Rightarrow> nat"
  by (induction ds arbitrary: i) (simp_all add: add_mono survivors_length)

lemma live_data_length: "length (data_output (live_entries i ds)) \<le> sum_list (map (\<lambda>d. length (concat (map plain_record (di_records d)))) ds)"
  using live_entries_length [of "\<lambda>r. length (plain_record r)" i ds]
  by (simp add: data_output_def length_concat comp_def)

lemma output_fitsI:
  assumes "ds \<noteq> []" "\<forall>d\<in>set ds. \<forall>r\<in>set (di_records d). length (rec_key r) \<le> 27"
    "\<forall>d\<in>set ds. hdr_version (di_header d) = kVersion2 \<and> 32 \<le> length (di_rest d)"
  shows "output_fits ds"
proof -
  have "sum_list (map (\<lambda>d. length (concat (map plain_record (di_records d)))) ds) + 44 * length ds \<le> output_file_size (map di_contents ds)"
    using assms(3)
  proof (induction ds)
    case (Cons d ds)
    have "length (BlobFileHeader_EncodeTo (di_header d)) = 12"
      using Cons.prems by (simp add: BlobFileHeader_EncodeTo_def PutFixed32_def kVersion2_def)
    then have "44 + length (concat (map plain_record (di_records d))) \<le> round_mb (length (di_contents d))"
      using round_mb(1) [of "length (di_contents d)"] Cons.prems by (simp add: di_contents_def)
    then show ?case using Cons by (simp add: output_file_size_def)
  qed (simp add: output_file_size_def)
  moreover have "44 \<le> 44 * length ds" using assms(1) by (cases ds) simp_all
  ultimately have data: "12 + length (data_output (live_entries 0 ds)) + 32 \<le> output_file_size (map di_contents ds)"
    using live_data_length [of 0 ds] by linarith
  let ?n = "sum_list (map (length \<circ> di_records) ds)"
  have keys: "length (rec_key (fst s)) \<le> 27" if "s \<in> set (live_entries 0 ds)" for s
    using live_entries_records [OF that] assms(2) by auto
  then have "length (key_output 12 (live_entries 0 ds)) = sum_list (map (\<lambda>s. length (rec_key (fst s)) + 17) (live_entries 0 ds))"
    by (intro length_key_output) force
  also have "\<dots> \<le> sum_list (map (\<lambda>s. 44) (live_entries 0 ds))" by (rule sum_list_mono) (use keys in force)
  also have "\<dots> \<le> 44 * ?n"
    using live_entries_length [of "\<lambda>_. 44" 0 ds]
    by (simp add: sum_list_triv comp_def sum_list_const_mult mult.commute [of _ "44 :: nat"])
  also have "\<dots> \<le> output_key_size (map (length \<circ> di_records) ds)"
    using round_mb(1) [of "?n * OUTPUT_KEY_SIZE"] by (simp add: output_key_size_def OUTPUT_KEY_SIZE_def)
  finally show ?thesis using data by (simp add: output_fits_def)
qed

lemma survivors_all_live: "(\<And>i. bm i = 0) \<Longrightarrow> map fst (survivors i off j bm rs) = rs"
  by (induction rs arbitrary: off j) (simp_all add: CheckValid_def)

lemma survivors_zero_bitmap:
  "length rs \<le> 8 * n \<Longrightarrow> map fst (survivors i off 0 (nth (replicate n 0)) rs) = rs"
  using survivors_cong [of "length rs" "nth (replicate n 0)" "\<lambda>_. 0" 0 rs i off] survivors_all_live [of "\<lambda>_. 0" i off 0 rs]
  by (simp add: div_less_iff_less_mult)

section \<open>The compute units\<close>

text \<open>
  Jobs take a unit before they run and give it back after. \<open>cu_run used q\<close>: after some sequence of
  those calls the units in \<open>used\<close> are taken and the queue is \<open>q\<close>.
\<close>

inductive cu_run :: "byte list \<Rightarrow> byte list \<Rightarrow> bool" where
  cu_start: "cu_run [] initial_cus"
| cu_take: "\<lbrakk>cu_run used q; get_free_cu_index q = (Inr i, q')\<rbrakk> \<Longrightarrow> cu_run (i # used) q'"
| cu_busy: "\<lbrakk>cu_run used q; get_free_cu_index q = (Inl s, q')\<rbrakk> \<Longrightarrow> cu_run used q'"
| cu_give: "\<lbrakk>cu_run used q; i \<in> set used; set_free_cu_index i q = (s, q')\<rbrakk> \<Longrightarrow> cu_run (remove1 i used) q'"

lemma cu_run_mset: "cu_run used q \<Longrightarrow> mset used + mset q = mset initial_cus"
  by (induction rule: cu_run.induct)
    (auto simp: get_free_cu_index_def set_free_cu_index_def split: list.splits)

lemma initial_cus_eq: "initial_cus = [1, 2, 3, 4, 5, 6, 7, 8]"
  by (simp add: initial_cus_def gc_kernel_count_def upt_rec)

lemma distinct_initial_cus: "distinct initial_cus" "set initial_cus = {1, 2, 3, 4, 5, 6, 7, 8}" "length initial_cus = 8"
  by (simp_all add: initial_cus_eq)

section \<open>Properties\<close>

text \<open>
  C3: the offloaded garbage collection keeps exactly the live records. For inputs whose records are
  stored uncompressed and fit the kernel, whose sizes the read loop can handle and whose live entries
  fit the output buffers, and when the output is written by the one call of \<open>write\<close>, the run ends with
  a page-aligned blob file that holds the live records of all inputs, in order and encoded as the
  host encodes them, between a header and a footer the host accepts; the host gets for each of them
  its key, its offset in the new file, the index of its old file, its old offset and its size, the
  positions cut to 32 bits.
\<close>

theorem offload_collects_live_records:
  assumes "\<forall>d\<in>set ds. di_ok d" "output_fits ds" "\<And>n. written n = n"
  shows "\<exists>m ks total.
    run_gc_kernel device_in device_out written (map di_contents ds) (map di_bitmap ds) (map (length \<circ> di_records) ds) =
      Some (load m 0 total, host_keys 12 (live_entries 0 ds),
            [length (live_entries 0 ds), total, length (key_output 12 (live_entries 0 ds)), 0]) \<and>
    collected (live_entries 0 ds) (m, ks, [length (live_entries 0 ds), total, length (key_output 12 (live_entries 0 ds))])"
proof -
  obtain m ks total where r: "run_gc_kernel device_in device_out written (map di_contents ds) (map di_bitmap ds) (map (length \<circ> di_records) ds) =
      (if output_fits ds \<and> written total \<noteq> 0
       then Some (take (written total) (load m 0 total), host_keys 12 (live_entries 0 ds),
                  [length (live_entries 0 ds), total, length (key_output 12 (live_entries 0 ds)), 0]) else None)"
    "collected (live_entries 0 ds) (m, ks, [length (live_entries 0 ds), total, length (key_output 12 (live_entries 0 ds))])"
    using run_gc_kernel_cases [OF assms(1), of device_in device_out written] by blast
  have "0 < total" using r(2) by (simp add: collected_def)
  moreover have "length (load m 0 total) = total" by (simp add: load_def)
  ultimately show ?thesis using r assms(2,3) by (intro exI [of _ m] exI [of _ ks] exI [of _ total]) simp
qed

definition demo_input :: DriverInput where
  "demo_input = \<lparr> di_header = \<lparr> hdr_version = 2, hdr_flags = 0 \<rparr>,
     di_records = [\<lparr> rec_key = [1], rec_value = [2, 3] \<rparr>, \<lparr> rec_key = [4], rec_value = [] \<rparr>],
     di_rest = replicate 32 0, di_bitmap = [128] \<rparr>"

lemma demo_input_ok: "di_ok demo_input" "output_fits [demo_input]"
proof -
  have "length (di_contents demo_input) = 70"
    by (simp add: demo_input_def di_contents_def BlobFileHeader_EncodeTo_def kVersion2_def PutFixed32_def
        BlobRecord_EncodeTo_def PutLengthPrefixedSlice_def length_PutVarint32_small PutVarint32_def EncodeVarint32_def Let_def)
  then have "readable (length (di_contents demo_input))" by (simp add: readable_iff p2p_buf_size_def)
  then show "di_ok demo_input"
    by (simp add: di_ok_def demo_input_def BlobFileHeader_wf_def kVersion2_def kVersion1_def fits_kernel_def
        MAX_KEY_LENGTH_def MAX_VALUE_LENGTH_def)
  show "output_fits [demo_input]" by (rule output_fitsI) (simp_all add: demo_input_def kVersion2_def)
qed

theorem offload_collects_live_records_witness:
  "\<exists>m ks total. run_gc_kernel (\<lambda>_. 0) (\<lambda>_. 0) (\<lambda>n. n) [di_contents demo_input] [[128]] [2] =
     Some (load m 0 total, host_keys 12 (live_entries 0 [demo_input]),
           [1, total, length (key_output 12 (live_entries 0 [demo_input])), 0]) \<and>
   map (rec_key \<circ> fst) (live_entries 0 [demo_input]) = [[4]]"
proof -
  have live: "map (rec_key \<circ> fst) (live_entries 0 [demo_input]) = [[4]]"
    by (simp add: demo_input_def CheckValid_def)
  then have "length (live_entries 0 [demo_input]) = 1" by (metis length_map length_Cons list.size(3) One_nat_def)
  moreover have "map di_bitmap [demo_input] = [[128]]" "map (length \<circ> di_records) [demo_input] = [2]"
    by (simp_all add: demo_input_def)
  ultimately show ?thesis
    using live offload_collects_live_records [of "[demo_input]" "\<lambda>n. n" "\<lambda>_. 0" "\<lambda>_. 0"] demo_input_ok by fastforce
qed

text \<open>
  C26: the process exits while reading its inputs exactly when a file is empty modulo 128 MiB or
  falls into the last MiB below a multiple of 128 MiB: the loop then asks for one more chunk than
  the file has.
\<close>

theorem offload_read_exits_iff:
  "read_inputs [f] 0 0 m = None \<longleftrightarrow>
     length f mod (128 * 2 ^ 20) = 0 \<or> 127 * 2 ^ 20 \<le> length f mod (128 * 2 ^ 20)"
proof -
  have "(read_inputs [f] 0 0 m = None) = (\<not> readable (length f))"
    using p2p_read_file [of f 0 m] by (simp add: Let_def)
  then show ?thesis by (auto simp: readable_iff p2p_buf_size_def)
qed

text \<open>
  C27: the buffer for the surviving keys is too small for keys the kernel accepts: there are
  inputs within the kernel's limits for which the kernel writes past the end of the buffer the
  driver allocates.
\<close>

theorem key_buffer_overflow:
  "\<exists>d. di_ok d \<and> output_key_size [length (di_records d)] < length (key_output 12 (live_entries 0 [d])) \<and>
     (\<forall>device_in device_out written.
        run_gc_kernel device_in device_out written [di_contents d] [di_bitmap d] [length (di_records d)] = None)"
proof -
  let ?r = "\<lparr> rec_key = replicate 64 0, rec_value = [] \<rparr> :: BlobRecord"
  define d where "d = \<lparr> di_header = \<lparr> hdr_version = 1, hdr_flags = 0 \<rparr>, di_records = replicate 100000 ?r,
     di_rest = [], di_bitmap = replicate 12500 0 \<rparr>"
  have ss: "map fst (live_entries 0 [d]) = replicate 100000 ?r"
    using survivors_zero_bitmap [of "replicate 100000 ?r" 12500 0 "length (BlobFileHeader_EncodeTo (di_header d))"]
    by (simp add: d_def)
  have "fst s = ?r" if "s \<in> set (live_entries 0 [d])" for s
    using imageI [OF that, of fst] arg_cong [OF ss, of set] by simp
  then have "\<forall>s\<in>set (live_entries 0 [d]). length (rec_key (fst s)) < 128" by simp
  then have "length (key_output 12 (live_entries 0 [d])) = sum_list (map (\<lambda>r. length (rec_key r) + 17) (map fst (live_entries 0 [d])))"
    unfolding map_map comp_def by (rule length_key_output)
  then have keys: "output_key_size [length (di_records d)] < length (key_output 12 (live_entries 0 [d]))"
    unfolding ss by (simp add: map_replicate sum_list_replicate d_def output_key_size_def round_mb_def OUTPUT_KEY_SIZE_def)
  have "length (plain_record ?r) = 75"
    using length_PutVarint32_small [of 64] length_PutVarint32_small [of 0]
    by (simp add: BlobRecord_EncodeTo_def PutLengthPrefixedSlice_def)
  then have "length (di_contents d) = 7500008"
    by (simp add: d_def di_contents_def BlobFileHeader_EncodeTo_def kVersion2_def PutFixed32_def length_concat map_replicate sum_list_replicate)
  then have "readable (length (di_contents d))" by (simp add: readable_iff p2p_buf_size_def)
  then have ok: "di_ok d"
    by (simp add: di_ok_def d_def BlobFileHeader_wf_def kVersion1_def fits_kernel_def MAX_KEY_LENGTH_def MAX_VALUE_LENGTH_def
        list_all_iff)
  have "\<not> output_fits [d]" using keys by (simp add: output_fits_def)
  then have "run_gc_kernel device_in device_out written [di_contents d] [di_bitmap d] [length (di_records d)] = None" for device_in device_out written
    using run_gc_kernel_cases [of "[d]" device_in device_out written] ok by simp
  then show ?thesis using keys ok by blast
qed

text \<open>
  C22: a compute unit is never handed to two jobs at once, and a request is refused only while all
  eight units are taken.
\<close>

theorem compute_units_exclusive:
  assumes "cu_run used q"
  shows "distinct used \<and> set used \<inter> set q = {} \<and> set used \<union> set q = {1, 2, 3, 4, 5, 6, 7, 8} \<and>
    (fst (get_free_cu_index q) = Inl (Busy []) \<longleftrightarrow> length used = 8)"
proof -
  have m: "mset (used @ q) = mset initial_cus" using cu_run_mset [OF assms] by simp
  have "distinct (used @ q)" using mset_eq_imp_distinct_iff [OF m] distinct_initial_cus(1) by simp
  moreover have "set (used @ q) = {1, 2, 3, 4, 5, 6, 7, 8}" using mset_eq_setD [OF m] distinct_initial_cus(2) by simp
  moreover have "length used + length q = 8" using mset_eq_length [OF m] distinct_initial_cus(3) by simp
  ultimately show ?thesis by (auto simp: get_free_cu_index_def split: list.splits)
qed

theorem compute_units_exclusive_witness:
  "cu_run [1] [2, 3, 4, 5, 6, 7, 8] \<and> distinct [1 :: byte] \<and>
   fst (get_free_cu_index [2, 3, 4, 5, 6, 7, 8]) \<noteq> Inl (Busy [])"
proof -
  have "get_free_cu_index initial_cus = (Inr 1, [2, 3, 4, 5, 6, 7, 8])"
    by (simp add: get_free_cu_index_def initial_cus_eq)
  then have r: "cu_run [1] [2, 3, 4, 5, 6, 7, 8]" by (rule cu_run.cu_take [OF cu_run.cu_start])
  then show ?thesis using compute_units_exclusive [OF r] by simp
qed
end
