(* ===== verification/Db_Format.thy ===== *)
theory Db_Format
  imports Coding
begin

text \<open>
  The internal keys of RocksDB that Titan builds and parses (\<open>db/dbformat.h\<close>): the user key followed
  by eight bytes that pack a sequence number and a type.
\<close>

section \<open>Model\<close>

type_synonym ValueType = byte

definition kTypeDeletion :: ValueType where "kTypeDeletion = 0x0"
definition kTypeValue :: ValueType where "kTypeValue = 0x1"
definition kTypeMerge :: ValueType where "kTypeMerge = 0x2"
definition kTypeSingleDeletion :: ValueType where "kTypeSingleDeletion = 0x7"
definition kTypeRangeDeletion :: ValueType where "kTypeRangeDeletion = 0xF"
definition kTypeBlobIndex :: ValueType where "kTypeBlobIndex = 0x11"
definition kTypeDeletionWithTimestamp :: ValueType where "kTypeDeletionWithTimestamp = 0x14"
definition kMaxValue :: ValueType where "kMaxValue = 0x7F"
definition kNumInternalBytes :: nat where "kNumInternalBytes = 8"

definition IsValueType :: "ValueType \<Rightarrow> bool" where
  "IsValueType t \<longleftrightarrow> t \<le> kTypeMerge \<or> t = kTypeSingleDeletion \<or> t = kTypeBlobIndex \<or> t = kTypeDeletionWithTimestamp"

definition IsExtendedValueType :: "ValueType \<Rightarrow> bool" where
  "IsExtendedValueType t \<longleftrightarrow> IsValueType t \<or> t = kTypeRangeDeletion"

record ParsedInternalKey =
  ik_user_key :: bytes
  ik_sequence :: u64
  ik_type :: ValueType

definition PackSequenceAndType :: "u64 \<Rightarrow> ValueType \<Rightarrow> u64" where
  "PackSequenceAndType seq t = push_bit 8 seq OR ucast t"

definition AppendInternalKey :: "ParsedInternalKey \<Rightarrow> bytes" where
  "AppendInternalKey k = ik_user_key k @ PutFixed64 (PackSequenceAndType (ik_sequence k) (ik_type k))"

definition InternalKey_Encode :: "bytes \<Rightarrow> u64 \<Rightarrow> ValueType \<Rightarrow> bytes" where
  "InternalKey_Encode key seq t = AppendInternalKey \<lparr> ik_user_key = key, ik_sequence = seq, ik_type = t \<rparr>"

definition ParseInternalKey :: "bytes \<Rightarrow> status + ParsedInternalKey" where
  "ParseInternalKey internal_key =
     (let n = length internal_key in
      if n < kNumInternalBytes then Inl (Corruption ''Corrupted Key: Internal Key too small.'')
      else
        let num = DecodeFixed64 (drop (n - kNumInternalBytes) internal_key);
            t = ucast (num AND 0xFF)
        in if kMaxValue < t then Inl (Undefined ''assert'')
           else if IsExtendedValueType t
           then Inr \<lparr> ik_user_key = take (n - kNumInternalBytes) internal_key, ik_sequence = drop_bit 8 num, ik_type = t \<rparr>
           else Inl (Corruption ''Corrupted Key''))"

section \<open>Properties\<close>

lemma unpack_type: "ucast (PackSequenceAndType seq t AND 0xFF) = t"
proof -
  have "PackSequenceAndType seq t AND mask 8 = ucast t"
    by (rule bit_word_eqI) (auto simp: PackSequenceAndType_def bit_simps dest: bit_imp_le_length)
  then have "PackSequenceAndType seq t AND 0xFF = ucast t" by (simp add: mask_eq_exp_minus_1)
  moreover have "ucast (ucast t :: u64) = t" by (rule bit_word_eqI) (auto simp: bit_simps dest: bit_imp_le_length)
  ultimately show ?thesis by simp
qed

lemma unpack_sequence:
  assumes "seq < 2 ^ 56"
  shows "drop_bit 8 (PackSequenceAndType seq t) = seq"
proof -
  have "unat seq < 2 ^ 56" using assms by (simp add: word_less_nat_alt)
  then have "unat (take_bit 56 seq) = unat seq" by (simp add: unsigned_take_bit_eq take_bit_nat_eq_self)
  then have "take_bit 56 seq = seq" by (simp only: word_unat_eq_iff)
  then have "n < 56" if "bit seq n" for n using that by (metis bit_take_bit_iff)
  then show ?thesis
    by (intro bit_word_eqI) (auto simp: PackSequenceAndType_def bit_simps dest: bit_imp_le_length)
qed

lemma ParseInternalKey_Encode:
  assumes "seq < 2 ^ 56" "IsExtendedValueType t"
  shows "ParseInternalKey (InternalKey_Encode key seq t) = Inr \<lparr> ik_user_key = key, ik_sequence = seq, ik_type = t \<rparr>"
proof -
  have "t \<le> kMaxValue" using assms(2)
    by (auto simp: IsExtendedValueType_def IsValueType_def kTypeMerge_def kTypeSingleDeletion_def kTypeBlobIndex_def kTypeDeletionWithTimestamp_def
        kTypeRangeDeletion_def kMaxValue_def word_le_nat_alt)
  then show ?thesis
    using assms by (simp add: ParseInternalKey_def InternalKey_Encode_def AppendInternalKey_def Let_def kNumInternalBytes_def
        unpack_type unpack_sequence PutFixed64_def not_less DecodeFixed64_EncodeFixed64 [of _ "[]", simplified])
qed

end
