(* ===== verification/Gc_Job.thy ===== *)
theory Gc_Job
  imports Base_Db Blob_Gc Titan_Files Blob_File_Merge_Iterator Gc_Driver Db_Format
begin

text \<open>
  \<open>src/blob_gc_job.{h,cc}\<close>: one garbage collection. Other writers change the base database between
  the steps of the job, as \<open>GcEnv\<close> says. Timers, histograms and log messages are left out.
\<close>

section \<open>The write callback\<close>

record GCWriteCallback =
  cb_key :: bytes
  cb_blob_index :: BlobIndex
  cb_new_blob_index :: BlobIndex
  cb_read_bytes :: u64

definition BlobIndex_default :: BlobIndex where
  "BlobIndex_default = \<lparr> bi_file_number = 0, bi_blob_handle = BlobHandle_default, bi_old_file_number = 0, bi_old_blob_handle = BlobHandle_default \<rparr>"

definition GCWriteCallback_new :: "bytes \<Rightarrow> BlobIndex \<Rightarrow> BlobIndex \<Rightarrow> status + GCWriteCallback" where
  "GCWriteCallback_new key idx new_idx =
     (if key = [] then Inl (Undefined ''assert'')
      else Inr \<lparr> cb_key = key, cb_blob_index = idx, cb_new_blob_index = new_idx, cb_read_bytes = 0 \<rparr>)"

definition cb_Callback :: "lsm_read \<Rightarrow> GCWriteCallback \<Rightarrow> status \<times> GCWriteCallback" where
  "cb_Callback r cb =
     (case r of
        ReadError s \<Rightarrow> (s, cb)
      | ReadEntry None \<Rightarrow> (Busy ''key deleted'', cb\<lparr> cb_read_bytes := of_nat (length (cb_key cb)) \<rparr>)
      | ReadEntry (Some (LsmValue v)) \<Rightarrow>
          (Busy ''key overwritten with other value'', cb\<lparr> cb_read_bytes := of_nat (length (cb_key cb) + length v) \<rparr>)
      | ReadEntry (Some (LsmBlobIndex e)) \<Rightarrow>
          let cb = cb\<lparr> cb_read_bytes := of_nat (length (cb_key cb) + length e) \<rparr>
          in (case BlobIndex_DecodeFrom e of
                Inl s \<Rightarrow> (s, cb)
              | Inr (other, _) \<Rightarrow>
                  if \<not> BlobIndex_eq (cb_blob_index cb) other then (Busy ''key overwritten with other blob'', cb) else (OK, cb)))"

section \<open>State of a job\<close>

record GcMetrics =
  gm_bytes_read :: u64
  gm_bytes_written :: u64
  gm_num_keys_overwritten :: u64
  gm_bytes_overwritten :: u64
  gm_num_keys_relocated :: u64
  gm_bytes_relocated :: u64
  gm_num_keys_fallback :: u64
  gm_bytes_fallback :: u64
  gm_num_new_files :: u64
  gm_num_files :: u64
  gm_num_read_lsm :: u64
  gm_num_read_blob :: u64
  gm_num_write_back :: u64

definition GcMetrics_zero :: GcMetrics where
  "GcMetrics_zero = \<lparr> gm_bytes_read = 0, gm_bytes_written = 0, gm_num_keys_overwritten = 0, gm_bytes_overwritten = 0,
     gm_num_keys_relocated = 0, gm_bytes_relocated = 0, gm_num_keys_fallback = 0, gm_bytes_fallback = 0, gm_num_new_files = 0,
     gm_num_files = 0, gm_num_read_lsm = 0, gm_num_read_blob = 0, gm_num_write_back = 0 \<rparr>"

text \<open>
  What the job meets: the answers of the base database to its reads, numbered in order, whether it
  finds the database shutting down or the column family dropped at its checks, what other writers
  do before each of its writes and how the write ends, and the files it opens.
\<close>

record GcEnv =
  ge_lib :: BuilderLib
  ge_rlib :: ReaderLib
  ge_version :: u32
  ge_files :: FilesEnv
  ge_open :: "u64 \<Rightarrow> status + RandomFile"
  ge_get :: "nat \<Rightarrow> bytes \<Rightarrow> lsm_read"
  ge_shutdown :: "nat \<Rightarrow> bool"
  ge_cf_dropped :: "nat \<Rightarrow> bool"
  ge_foreign :: "nat \<Rightarrow> bytes \<Rightarrow> lsm_entry option option"
  ge_callback_read :: "nat \<Rightarrow> status"
  ge_write :: "nat \<Rightarrow> status"
  ge_flush_wal :: status
  ge_latest_sequence :: u64
  ge_device_in :: mem
  ge_device_out :: mem
  ge_device_written :: "nat \<Rightarrow> nat"

text \<open>
  The members of the job, and the local variables of the loop of \<open>DoRunGC\<close>. The files to collect
  are in the storage when the job is made; their sizes do not change.
\<close>

record GcJob =
  gj_gc :: BlobGC
  gj_cf :: u32
  gj_use_bitmap :: bool
  gj_offload :: bool
  gj_metrics :: GcMetrics
  gj_rewrite_batches :: "(lsm_put \<times> GCWriteCallback) list"
  gj_builders :: "(u64 \<times> BlobFileBuilder) list"
  gj_db :: TitanFiles
  gj_current :: "(u64 \<times> BlobFileBuilder) option"
  gj_file_size :: u64
  gj_last_key :: bytes
  gj_last_key_is_fresh :: bool
  gj_reads :: nat
  gj_checks :: nat
  gj_input_size :: "u64 \<Rightarrow> u64"
  gj_hardware_file :: "BlobFileMeta option"
  gj_free_cus :: "byte list"

definition GcJob_new :: "BlobGC \<Rightarrow> u32 \<Rightarrow> bool \<Rightarrow> TitanFiles \<Rightarrow> byte list \<Rightarrow> GcJob" where
  "GcJob_new gc cfid offload tf cus =
     \<lparr> gj_gc = gc, gj_cf = cfid, gj_use_bitmap = use_bitmap (gc_options gc), gj_offload = offload, gj_metrics = GcMetrics_zero,
       gj_rewrite_batches = [], gj_builders = [], gj_db = tf, gj_current = None, gj_file_size = 0, gj_last_key = [],
       gj_last_key_is_fresh = False, gj_reads = 0, gj_checks = 0,
       gj_input_size = (\<lambda>n. case Option.bind (GetBlobStorage cfid (tf_set tf)) (FindFile n) of None \<Rightarrow> 0 | Some f \<Rightarrow> file_size f),
       gj_hardware_file = None, gj_free_cus = cus \<rparr>"

abbreviation on_metrics :: "(GcMetrics \<Rightarrow> GcMetrics) \<Rightarrow> GcJob \<Rightarrow> GcJob" where
  "on_metrics f j \<equiv> j\<lparr> gj_metrics := f (gj_metrics j) \<rparr>"

section \<open>Reading the candidates\<close>

text \<open>
  Opening the candidates stops at the first failure. The number of entries is not passed on, so it
  is the default of the constructor.
\<close>

fun open_inputs :: "GcEnv \<Rightarrow> GcJob \<Rightarrow> u64 list \<Rightarrow> status \<times> BlobFileIterator list" where
  "open_inputs env j [] = (OK, [])"
| "open_inputs env j (n # ns) =
     (case ge_open env n of
        Inl s \<Rightarrow> (s, [])
      | Inr f \<Rightarrow>
          map_prod id ((#) (BlobFileIterator_new 0 f n (gj_input_size j n) (gc_options (gj_gc j)) (- 1))) (open_inputs env j ns))"

text \<open>Attaching the bitmaps: the status is that of the last copy, whatever it was before.\<close>

fun attach_bitmaps :: "BlobStorage \<Rightarrow> status \<Rightarrow> BlobFileIterator list \<Rightarrow> status + (status \<times> BlobFileIterator list)" where
  "attach_bitmaps bs s [] = Inr (s, [])"
| "attach_bitmaps bs s (it # its) =
     (case FindFile (it_file_number it) bs of
        None \<Rightarrow> Inl (NotFound ''BlobGC::BuildIterator: File not Found.'')
      | Some f \<Rightarrow>
          if is_obsolete f then Inl (NotFound ''BlobGC::BuildIterator: File not Found.'')
          else
            let (s, b) = CopyInvalidEntryIndexesTo f BitMap_default
            in if s \<noteq> OK then Inl (Undefined ''assert'')
               else map_sum id (map_prod id ((#) (it_SetBitMap b it))) (attach_bitmaps bs s its))"

text \<open>The status, and the merge iterator if it is set.\<close>

definition BuildIterator :: "GcEnv \<Rightarrow> GcJob \<Rightarrow> status \<times> BlobFileMergeIterator option" where
  "BuildIterator env j =
     (if gc_inputs (gj_gc j) = [] then (Undefined ''assert'', None)
      else
        let (s, its) = open_inputs env j (gc_inputs (gj_gc j)) in
        case (if gj_use_bitmap j
              then case GetBlobStorage (gj_cf j) (tf_set (gj_db j)) of
                     None \<Rightarrow> Inl (NotFound ''BlobGC::BuildIterator: Column family not Found.'')
                   | Some bs \<Rightarrow> attach_bitmaps bs s its
              else Inr (s, its)) of
          Inl s \<Rightarrow> (s, None)
        | Inr (s, its) \<Rightarrow>
            (s, if s = OK then Some (BlobFileMergeIterator_new its (opt_comparator (gc_options (gj_gc j)))) else None))"

definition DiscardEntry :: "lsm_read \<Rightarrow> bytes \<Rightarrow> BlobIndex \<Rightarrow> GcMetrics \<Rightarrow> (status + bool) \<times> GcMetrics" where
  "DiscardEntry r key idx m =
     (let counted = (\<lambda>n. m\<lparr> gm_bytes_read := gm_bytes_read m + of_nat (length key + n), gm_num_read_lsm := gm_num_read_lsm m + 1 \<rparr>)
      in case r of
           ReadError s \<Rightarrow> (Inl s, m)
         | ReadEntry None \<Rightarrow> (Inr True, counted 0)
         | ReadEntry (Some (LsmValue v)) \<Rightarrow> (Inr True, counted (length v))
         | ReadEntry (Some (LsmBlobIndex e)) \<Rightarrow>
             (case BlobIndex_DecodeFrom e of
                Inl s \<Rightarrow> (Inl s, counted (length e))
              | Inr (other, _) \<Rightarrow> (Inr (\<not> BlobIndex_eq idx other), counted (length e))))"

section \<open>Rewriting live records\<close>

definition WriteBatch_Put :: "bytes \<Rightarrow> bytes \<Rightarrow> status + lsm_put" where
  "WriteBatch_Put key val =
     (if 2 ^ 32 \<le> length key then Inl (InvalidArgument ''key is too large'')
      else if 2 ^ 32 \<le> length val then Inl (InvalidArgument ''value is too large'')
      else Inr (Put key val))"

text \<open>The batches that put the new indexes, for the contexts a builder handed out.\<close>

fun BatchWriteNewIndices ::
    "BlobRecordContext list \<Rightarrow> status \<times> (lsm_put \<times> GCWriteCallback) list \<Rightarrow> status \<times> (lsm_put \<times> GCWriteCallback) list" where
  "BatchWriteNewIndices [] (s, batches) = (s, batches)"
| "BatchWriteNewIndices (ctx # ctxs) (s, batches) =
     (let idx = BlobIndex_default\<lparr> bi_file_number := bi_file_number (ctx_new_blob_index ctx),
                                  bi_blob_handle := bi_blob_handle (ctx_new_blob_index ctx) \<rparr>
      in case ParseInternalKey (ctx_key ctx) of
           Inl s \<Rightarrow> (s, batches)
         | Inr ikey \<Rightarrow>
             (case GCWriteCallback_new (ik_user_key ikey) (ctx_original_blob_index ctx) idx of
                Inl s \<Rightarrow> (s, batches)
              | Inr cb \<Rightarrow>
                  BatchWriteNewIndices ctxs (OK, batches @ [(PutBlobIndex (ik_user_key ikey) (BlobIndex_EncodeTo idx), cb)])))"

datatype gc_ctl = Continue | Break status

definition push_current :: "GcJob \<Rightarrow> GcJob" where
  "push_current j =
     (case gj_current j of None \<Rightarrow> j | Some c \<Rightarrow> j\<lparr> gj_builders := gj_builders j @ [c], gj_current := None \<rparr>)"

text \<open>Opening an output file if there is none or the current one is full.\<close>

definition gc_open_output :: "GcEnv \<Rightarrow> GcJob \<Rightarrow> status \<times> GcJob" where
  "gc_open_output env j =
     (let full = blob_file_target_size (gc_options (gj_gc j)) \<le> gj_file_size j in
      if gj_current j = None \<or> full then
        if full \<and> (gj_current j = None \<or> bb_status (snd (the (gj_current j))) \<noteq> OK) then (Undefined ''assert'', j)
        else
          let j = (if full then push_current j else j) in
          case fm_NewFile (ge_files env) (gj_db j) of
            (Inl s, tf) \<Rightarrow> (s, j\<lparr> gj_db := tf \<rparr>)
          | (Inr n, tf) \<Rightarrow>
              (OK, j\<lparr> gj_db := tf, gj_file_size := 0,
                     gj_current := Some (n, BlobFileBuilder_new (ge_lib env) (gc_options (gj_gc j)) \<lparr> wf_contents = [], wf_ops = 0 \<rparr> (ge_version env)) \<rparr>)
      else (OK, j))"

definition gc_context :: "u64 \<Rightarrow> bytes \<Rightarrow> BlobIndex \<Rightarrow> BlobRecordContext" where
  "gc_context n key idx =
     \<lparr> ctx_key = InternalKey_Encode key 1 kTypeValue, ctx_original_blob_index = idx,
       ctx_new_blob_index = BlobIndex_default\<lparr> bi_file_number := n \<rparr>, ctx_has_value = False, ctx_value = [] \<rparr>"

definition gc_rewrite :: "GcEnv \<Rightarrow> BlobIndex \<Rightarrow> BlobRecord \<Rightarrow> GcJob \<Rightarrow> gc_ctl \<times> GcJob" where
  "gc_rewrite env idx r j =
     (case gc_open_output env j of
        (s, j) \<Rightarrow>
          if s \<noteq> OK then (Break s, j)
          else
            let (n, b) = the (gj_current j);
                j = on_metrics (\<lambda>m. m\<lparr> gm_bytes_written := gm_bytes_written m + of_nat (BlobRecord_size r) \<rparr>) j;
                (b, contexts) = bb_Add (ge_lib env) r (gc_context n (rec_key r) idx) b;
                (s, batches) = BatchWriteNewIndices contexts (OK, gj_rewrite_batches j);
                j = j\<lparr> gj_current := Some (n, b), gj_rewrite_batches := batches \<rparr>
            in (if s \<noteq> OK then Break s else Continue, j))"

text \<open>
  A record that cannot be read in order is put back in place. In the code a batch whose \<open>Put\<close> is
  refused stays empty in the list of batches; the job ends there and never writes them.
\<close>

definition gc_fallback :: "BlobIndex \<Rightarrow> BlobRecord \<Rightarrow> GcJob \<Rightarrow> gc_ctl \<times> GcJob" where
  "gc_fallback idx r j =
     (case GCWriteCallback_new (rec_key r) idx BlobIndex_default of
        Inl s \<Rightarrow> (Break s, j)
      | Inr cb \<Rightarrow>
          (case WriteBatch_Put (rec_key r) (rec_value r) of
             Inl s \<Rightarrow> (Break s, j)
           | Inr put \<Rightarrow> (Continue, j\<lparr> gj_rewrite_batches := gj_rewrite_batches j @ [(put, cb)] \<rparr>)))"

text \<open>Whether the record is dead: by the bitmap, or by what the base database holds under its key.\<close>

definition gc_discardable :: "GcEnv \<Rightarrow> BlobIndex \<Rightarrow> BlobRecord \<Rightarrow> bool option \<Rightarrow> GcJob \<Rightarrow> (status + bool) \<times> GcJob" where
  "gc_discardable env idx r valid_bit j =
     (if gj_use_bitmap j
      then (case valid_bit of None \<Rightarrow> Inl (Undefined ''assert'') | Some v \<Rightarrow> Inr (\<not> v), j)
      else
        let (res, m) = DiscardEntry (ge_get env (gj_reads j) (rec_key r)) (rec_key r) idx (gj_metrics j)
        in (res, j\<lparr> gj_metrics := m, gj_reads := gj_reads j + 1 \<rparr>))"

text \<open>The body of the loop of \<open>DoRunGC\<close>.\<close>

definition gc_body :: "GcEnv \<Rightarrow> BlobIndex \<Rightarrow> BlobRecord \<Rightarrow> bool option \<Rightarrow> GcJob \<Rightarrow> gc_ctl \<times> GcJob" where
  "gc_body env idx r valid_bit j =
     (let shut = ge_shutdown env (gj_checks j); j = j\<lparr> gj_checks := gj_checks j + 1 \<rparr> in
      if shut then (Break (ShutdownInProgress []), j)
      else
        let size = bh_size (bi_blob_handle idx);
            j = on_metrics (\<lambda>m. m\<lparr> gm_bytes_read := gm_bytes_read m + size \<rparr>) j;
            same = (gj_last_key j \<noteq> [] \<and> rec_key r = gj_last_key j)
        in if same \<and> gj_last_key_is_fresh j then (Continue, j)
           else
             let j = (if same then j else j\<lparr> gj_last_key := rec_key r, gj_last_key_is_fresh := False \<rparr>) in
             case gc_discardable env idx r valid_bit j of
               (Inl s, j) \<Rightarrow> (Break s, j)
             | (Inr True, j) \<Rightarrow>
                 (Continue, on_metrics (\<lambda>m. m\<lparr> gm_num_keys_overwritten := gm_num_keys_overwritten m + 1,
                                              gm_bytes_overwritten := gm_bytes_overwritten m + size \<rparr>) j)
             | (Inr False, j) \<Rightarrow>
                 let j = (if gj_use_bitmap j then j else j\<lparr> gj_last_key_is_fresh := True \<rparr>)
                 in if blob_run_mode (gc_options (gj_gc j)) = kFallback then gc_fallback idx r j else gc_rewrite env idx r j)"

definition count_read :: "GcJob \<Rightarrow> GcJob" where
  "count_read = on_metrics (\<lambda>m. m\<lparr> gm_num_read_blob := gm_num_read_blob m + 1 \<rparr>)"

text \<open>The loop of \<open>DoRunGC\<close>; \<open>None\<close> if it does not end.\<close>

partial_function (option) gc_loop ::
    "GcEnv \<Rightarrow> BlobFileMergeIterator \<Rightarrow> GcJob \<Rightarrow> (status \<times> BlobFileMergeIterator \<times> GcJob) option" where
  "gc_loop env m j =
     (if \<not> mi_Valid m then Some (OK, m, j)
      else
        case gc_body env (the (mi_GetBlobIndex m)) (it_cur_record (mi_iterators m ! the (mi_current m))) (mi_ValidateByBitMap m) j of
          (Break s, j) \<Rightarrow> Some (s, m, j)
        | (Continue, j) \<Rightarrow>
            (case mi_Next (ge_rlib env) m of None \<Rightarrow> None | Some m \<Rightarrow> gc_loop env m (count_read j)))"

declare gc_loop.simps [code]

definition DoRunGC :: "GcEnv \<Rightarrow> GcJob \<Rightarrow> (status \<times> GcJob) option" where
  "DoRunGC env j =
     (case BuildIterator env j of
        (s, iter) \<Rightarrow>
          if s \<noteq> OK then Some (s, j)
          else case iter of
            None \<Rightarrow> Some (Aborted ''Build iterator for gc failed'', j)
          | Some m \<Rightarrow>
              (case mi_SeekToFirst (ge_rlib env) m of
                 None \<Rightarrow> None
               | Some m \<Rightarrow>
                   if \<not> mi_Valid m then Some (Undefined ''assert'', j)
                   else
                     case gc_loop env m (count_read j) of
                       None \<Rightarrow> None
                     | Some (s, m, j) \<Rightarrow>
                         if mi_get_status m = OK \<and> s = OK then
                           (if gj_current j \<noteq> None \<and> bb_status (snd (the (gj_current j))) \<noteq> OK
                            then Some (Undefined ''assert'', j) else Some (s, push_current j))
                         else if mi_get_status m \<noteq> OK then Some (mi_get_status m, j)
                         else Some (s, j)))"

section \<open>Collecting on the device\<close>

text \<open>What the job looks up under the lock: the bitmap and the number of entries of each input.\<close>

fun hw_inputs :: "BlobStorage \<Rightarrow> u64 list \<Rightarrow> status + (BitMap \<times> u64) list" where
  "hw_inputs bs [] = Inr []"
| "hw_inputs bs (n # ns) =
     (case FindFile n bs of
        None \<Rightarrow> Inl (NotFound ''BlobGC::BuildIterator: File not Found.'')
      | Some f \<Rightarrow>
          if is_obsolete f then Inl (NotFound ''BlobGC::BuildIterator: File not Found.'')
          else
            let (s, b) = CopyInvalidEntryIndexesTo f BitMap_default
            in if s \<noteq> OK then Inl (Undefined ''assert'')
               else map_sum id ((#) (b, file_entries f)) (hw_inputs bs ns))"

definition hw_update_keys :: "comparator \<Rightarrow> bytes \<Rightarrow> bytes \<times> bytes \<Rightarrow> bytes \<times> bytes" where
  "hw_update_keys cmp key = (\<lambda>(smallest, largest).
     let (smallest, largest) = (if smallest = [] then (key, key) else (smallest, largest))
     in (if cmp key smallest < 0 then key else smallest, if 0 < cmp key largest then key else largest))"

text \<open>The new and the old index of the \<open>i\<close>-th key that comes back; the four numbers are as the kernel returns them.\<close>

definition hw_indexes :: "u64 \<Rightarrow> u64 list \<Rightarrow> nat \<Rightarrow> u32 list \<Rightarrow> BlobIndex \<times> BlobIndex" where
  "hw_indexes output_number inputs i meta =
     (let old_number = inputs ! unat (meta ! 1);
          old_handle = \<lparr> bh_offset = ucast (meta ! 2), bh_size = ucast (meta ! 3), bh_index = 0 \<rparr>;
          new_handle = \<lparr> bh_offset = ucast (meta ! 0), bh_size = ucast (meta ! 3), bh_index = of_nat i \<rparr>
      in (\<lparr> bi_file_number = output_number, bi_blob_handle = new_handle, bi_old_file_number = old_number, bi_old_blob_handle = old_handle \<rparr>,
          BlobIndex_default\<lparr> bi_file_number := old_number, bi_blob_handle := old_handle \<rparr>))"

fun hw_batches ::
    "u64 \<Rightarrow> u64 list \<Rightarrow> nat \<Rightarrow> (bytes \<times> u32 list) list \<Rightarrow> (lsm_put \<times> GCWriteCallback) list \<Rightarrow> status + (lsm_put \<times> GCWriteCallback) list" where
  "hw_batches output_number inputs i [] batches = Inr batches"
| "hw_batches output_number inputs i ((key, meta) # rest) batches =
     (if length inputs \<le> unat (meta ! 1) then Inl (Undefined ''input out of range'')
      else
        let (new_idx, old_idx) = hw_indexes output_number inputs i meta in
        case GCWriteCallback_new key old_idx new_idx of
          Inl s \<Rightarrow> Inl s
        | Inr cb \<Rightarrow> hw_batches output_number inputs (i + 1) rest (batches @ [(PutBlobIndex key (BlobIndex_EncodeTo new_idx), cb)]))"

text \<open>
  \<open>None\<close>: the process exits, the kernel writes out of bounds, or the fallback to the host does not
  end. An early return leaves the lock taken and the compute unit in use.
\<close>

definition DoRunGCOnHardware :: "GcEnv \<Rightarrow> GcJob \<Rightarrow> (status \<times> GcJob) option" where
  "DoRunGCOnHardware env j =
     (case get_free_cu_index (gj_free_cus j) of
        (Inl _, cus) \<Rightarrow> DoRunGC env (j\<lparr> gj_offload := False, gj_free_cus := cus \<rparr>)
      | (Inr cu, cus) \<Rightarrow>
          let j = j\<lparr> gj_free_cus := cus \<rparr>; inputs = gc_inputs (gj_gc j) in
          if inputs = [] then Some (Undefined ''assert'', j)
          else case GetBlobStorage (gj_cf j) (tf_set (gj_db j)) of
            None \<Rightarrow> Some (NotFound ''BlobGC::BuildIterator: Column family not Found.'', j)
          | Some bs \<Rightarrow>
              (case hw_inputs bs inputs of
                 Inl s \<Rightarrow> Some (s, j)
               | Inr bes \<Rightarrow>
                   let (output_number, fs) = NewFileNumber (tf_set (gj_db j)) in
                   (case run_gc_kernel (ge_device_in env) (ge_device_out env) (ge_device_written env)
                           (map (\<lambda>n. case tf_disk (gj_db j) n of None \<Rightarrow> [] | Some c \<Rightarrow> c) inputs)
                           (map (\<lambda>(b, e). case bits b of None \<Rightarrow> [] | Some bs \<Rightarrow> bs) bes) (map (unat \<circ> snd) bes) of
                      None \<Rightarrow> None
                    | Some (out, keys, meta) \<Rightarrow>
                        let tf = (gj_db j)\<lparr> tf_set := fs, tf_disk := (tf_disk (gj_db j))(output_number \<mapsto> out) \<rparr>;
                            j = j\<lparr> gj_db := tf, gj_free_cus := snd (set_free_cu_index cu (gj_free_cus j)) \<rparr>
                        in (case hw_batches output_number inputs 0 keys (gj_rewrite_batches j) of
                              Inl s \<Rightarrow> Some (s, j)
                            | Inr batches \<Rightarrow>
                                let (smallest, largest) = fold (hw_update_keys (opt_comparator (gc_options (gj_gc j))) \<circ> fst) keys ([], []);
                                    f = BlobFileMeta_new output_number (of_nat (meta ! 1)) (of_nat (meta ! 0)) 0 smallest largest;
                                    f = FileStateTransit kGCOutput (f\<lparr> live_data_size := of_nat (meta ! 1) \<rparr>)
                                in Some (OK, j\<lparr> gj_rewrite_batches := batches, gj_hardware_file := Some f \<rparr>)))))"

definition gc_Run :: "GcEnv \<Rightarrow> GcJob \<Rightarrow> (status \<times> GcJob) option" where
  "gc_Run env j = (if gj_offload j then DoRunGCOnHardware env j else DoRunGC env j)"

section \<open>Installing the output\<close>

definition output_meta :: "u64 \<Rightarrow> BlobFileBuilder \<Rightarrow> BlobFileMeta" where
  "output_meta n b =
     FileStateTransit kGCOutput
       ((BlobFileMeta_new n (GetFileSize (bb_file b)) (bb_num_entries b) 0 (bb_smallest_key b) (bb_largest_key b))
          \<lparr> live_data_size := bb_live_data_size b \<rparr>)"

text \<open>The status of \<open>Finish\<close> is replaced by that of the first context, if there is one.\<close>

fun install_loop ::
    "GcEnv \<Rightarrow> (u64 \<times> BlobFileBuilder) list \<Rightarrow> (BlobFileMeta \<times> u64 \<times> WritableFile) list \<Rightarrow> GcJob
       \<Rightarrow> status \<times> (BlobFileMeta \<times> u64 \<times> WritableFile) list \<times> GcJob" where
  "install_loop env [] fs j = (OK, fs, j)"
| "install_loop env ((n, b) # rest) fs j =
     (let (b, contexts) = bb_Finish (ge_lib env) b;
          (s, batches) = BatchWriteNewIndices contexts (bb_status b, gj_rewrite_batches j);
          j = j\<lparr> gj_rewrite_batches := batches \<rparr>
      in if s \<noteq> OK then (s, fs, j)
         else install_loop env rest (fs @ [(output_meta n b, n, bb_file b)])
                (on_metrics (\<lambda>m. m\<lparr> gm_num_new_files := gm_num_new_files m + 1 \<rparr>) j))"

text \<open>On failure the handles already moved out of \<open>blob_file_builders_\<close> are null.\<close>

definition InstallOutputBlobFiles :: "GcEnv \<Rightarrow> GcJob \<Rightarrow> status \<times> GcJob" where
  "InstallOutputBlobFiles env j =
     (case install_loop env (gj_builders j) [] j of
        (s, fs, j) \<Rightarrow>
          if s = OK then
            let (s, tf) = fm_BatchFinishFiles (ge_files env) (gj_cf j) fs (gj_db j);
                j = j\<lparr> gj_db := tf \<rparr>
            in (s, if s = OK then j\<lparr> gj_gc := fold (\<lambda>(f, _). AddOutputFile (file_number f)) fs (gj_gc j) \<rparr> else j)
          else if fs \<noteq> [] then (Undefined ''null pointer'', j)
          else (s, j\<lparr> gj_db := snd (fm_BatchDeleteFiles (ge_files env) (map fst (gj_builders j)) (gj_db j)) \<rparr>))"

definition InstallHardwareOutputBlobFiles :: "GcEnv \<Rightarrow> GcJob \<Rightarrow> status \<times> GcJob" where
  "InstallHardwareOutputBlobFiles env j =
     (case gj_hardware_file j of
        None \<Rightarrow> (Undefined ''assert'', j)
      | Some f \<Rightarrow>
          let j = on_metrics (\<lambda>m. m\<lparr> gm_num_new_files := gm_num_new_files m + 1 \<rparr>) j;
              (s, fs) = LogAndApply (fe_manifest (ge_files env)) (ve_AddBlobFile f (SetColumnFamilyID (gj_cf j) VersionEdit_default))
                          (tf_set (gj_db j));
              j = j\<lparr> gj_db := (gj_db j)\<lparr> tf_set := fs \<rparr> \<rparr>
          in if s \<noteq> OK then (Undefined ''assert'', j) else (s, j\<lparr> gj_gc := AddOutputFile (file_number f) (gj_gc j) \<rparr>))"

section \<open>Rewriting the keys\<close>

definition put_data_size :: "u32 \<Rightarrow> lsm_put \<Rightarrow> nat" where
  "put_data_size cf p =
     12 + 1 + (if cf = 0 then 0 else length (PutVarint32 cf)) +
     (case p of Put k v \<Rightarrow> length (PutLengthPrefixedSlice k) + length (PutLengthPrefixedSlice v)
      | PutBlobIndex k e \<Rightarrow> length (PutLengthPrefixedSlice k) + length (PutLengthPrefixedSlice e))"

definition db_Write :: "GcEnv \<Rightarrow> nat \<Rightarrow> lsm_put \<Rightarrow> lsm \<Rightarrow> status \<times> lsm" where
  "db_Write env i p db = (ge_write env i, if ge_write env i = OK then apply_put p db else db)"

definition WriteWithCallback :: "GcEnv \<Rightarrow> nat \<Rightarrow> lsm_put \<Rightarrow> GCWriteCallback \<Rightarrow> lsm \<Rightarrow> (status \<times> GCWriteCallback) \<times> lsm" where
  "WriteWithCallback env i p cb db =
     (let r = (if ge_callback_read env i \<noteq> OK then ReadError (ge_callback_read env i) else ReadEntry (db (cb_key cb)));
          (s, cb) = cb_Callback r cb
      in if s \<noteq> OK then ((s, cb), db) else case db_Write env i p db of (s, db) \<Rightarrow> ((s, cb), db))"

definition is_busy :: "status \<Rightarrow> bool" where
  "is_busy s = (case s of Busy _ \<Rightarrow> True | _ \<Rightarrow> False)"

text \<open>
  The state of the loop over the batches: the base database, the sizes and the entries dropped per
  output file, and the metrics.
\<close>

record RewriteState =
  rw_lsm :: lsm
  rw_dropped :: "(u64 \<times> u64) list"
  rw_dropped_index :: "(u64 \<times> u64) list"
  rw_metrics :: GcMetrics

definition add_dropped :: "u64 \<Rightarrow> u64 \<Rightarrow> (u64 \<times> u64) list \<Rightarrow> (u64 \<times> u64) list" where
  "add_dropped n sz xs = upd n (\<lambda>v. v + sz) (emplace n 0 xs)"

definition rewrite_one :: "GcEnv \<Rightarrow> GcJob \<Rightarrow> nat \<Rightarrow> lsm_put \<times> GCWriteCallback \<Rightarrow> RewriteState \<Rightarrow> status \<times> RewriteState" where
  "rewrite_one env j i = (\<lambda>(p, cb) st.
     let db = apply_foreign (ge_foreign env i) (rw_lsm st);
         ((s, cb), db) = (if gj_offload j then (case db_Write env i p db of (s, db) \<Rightarrow> ((s, cb), db)) else WriteWithCallback env i p cb db);
         m = rw_metrics st;
         m = m\<lparr> gm_num_write_back := gm_num_write_back m + 1 \<rparr>;
         new_idx = cb_new_blob_index cb; size = bh_size (bi_blob_handle (cb_blob_index cb));
         st = st\<lparr> rw_lsm := db, rw_metrics := m \<rparr>;
         counted = (\<lambda>st. st\<lparr> rw_metrics := (rw_metrics st)\<lparr> gm_bytes_read := gm_bytes_read (rw_metrics st) + cb_read_bytes cb \<rparr> \<rparr>)
     in if s = OK then
          (s, counted (st\<lparr> rw_metrics :=
             (if 0 < bh_size (bi_blob_handle new_idx)
              then m\<lparr> gm_bytes_written := gm_bytes_written m + of_nat (put_data_size (gj_cf j) p),
                      gm_num_keys_relocated := gm_num_keys_relocated m + 1, gm_bytes_relocated := gm_bytes_relocated m + size \<rparr>
              else m\<lparr> gm_num_keys_fallback := gm_num_keys_fallback m + 1, gm_bytes_fallback := gm_bytes_fallback m + size \<rparr>) \<rparr>))
        else if is_busy s then
          (s, counted (st\<lparr> rw_metrics := m\<lparr> gm_num_keys_overwritten := gm_num_keys_overwritten m + 1,
                                           gm_bytes_overwritten := gm_bytes_overwritten m + size \<rparr>,
                          rw_dropped := add_dropped (bi_file_number new_idx) (bh_size (bi_blob_handle new_idx)) (rw_dropped st),
                          rw_dropped_index := (if gj_use_bitmap j then rw_dropped_index st @ [(bi_file_number new_idx, bh_index (bi_blob_handle new_idx))]
                                               else rw_dropped_index st) \<rparr>))
        else (s, st))"

text \<open>\<open>s\<close> is the status the loop has reached; a busy key does not end it.\<close>

fun rewrite_loop ::
    "GcEnv \<Rightarrow> GcJob \<Rightarrow> nat \<Rightarrow> status \<Rightarrow> (lsm_put \<times> GCWriteCallback) list \<Rightarrow> RewriteState \<Rightarrow> status \<times> RewriteState" where
  "rewrite_loop env j i s [] st = (s, st)"
| "rewrite_loop env j i s (b # bs) st =
     (if ge_cf_dropped env i then (Aborted ''Column family drop'', st)
      else if ge_shutdown env (gj_checks j + i) then (ShutdownInProgress [], st)
      else
        case rewrite_one env j i b st of
          (s, st) \<Rightarrow> if s = OK \<or> is_busy s then rewrite_loop env j (i + 1) s bs st else (s, st))"

text \<open>The bits of the dropped entries of one file.\<close>

definition dropped_bits :: "u64 list \<Rightarrow> BitMap \<Rightarrow> status \<times> BitMap" where
  "dropped_bits idxs bm =
     fold (\<lambda>i (s, bm). if s \<noteq> OK then (s, bm) else case SetBit bm i 1 of (s, bm) \<Rightarrow> (if s \<noteq> OK then Undefined ''assert'' else s, bm)) idxs (OK, bm)"

definition drop_from_file :: "GcJob \<Rightarrow> RewriteState \<Rightarrow> u64 \<times> u64 \<Rightarrow> status \<times> BlobFileSet \<Rightarrow> status \<times> BlobFileSet" where
  "drop_from_file j st = (\<lambda>(n, size) (s, fs).
     case GetBlobStorage (gj_cf j) fs of
       None \<Rightarrow> (s, fs)
     | Some bs \<Rightarrow>
         (case FindFile n bs of
            None \<Rightarrow> (s, fs)
          | Some f \<Rightarrow>
              let f' = snd (UpdateLiveDataSize (- size) f);
                  stats = AddStats (GetDiscardableRatioLevel f') 1 (SubStats (GetDiscardableRatioLevel f) 1 (st_stats bs));
                  (s, f') = (if gj_use_bitmap j then
                               case dropped_bits (map snd (filter (\<lambda>(m, _). m = n) (rw_dropped_index st))) (BitMap_new (file_entries f')) of
                                 (s, bm) \<Rightarrow> if s \<noteq> OK then (s, f') else
                                   (case UpdateInvalidEntryIndexes bm f' of (s, f') \<Rightarrow> (if s \<noteq> OK then Undefined ''assert'' else s, f'))
                             else (s, f'));
                  bs = ComputeGCScore (update_file n (\<lambda>_. f') (bs\<lparr> st_stats := stats \<rparr>))
              in (s, fs\<lparr> column_families := upd (gj_cf j) (\<lambda>_. bs) (column_families fs) \<rparr>)))"

definition RewriteValidKeyToLSM :: "GcEnv \<Rightarrow> GcJob \<Rightarrow> lsm \<Rightarrow> (status \<times> GcJob) \<times> lsm" where
  "RewriteValidKeyToLSM env j db =
     (let (s, st) = rewrite_loop env j 0 OK (gj_rewrite_batches j)
                      \<lparr> rw_lsm = db, rw_dropped = [], rw_dropped_index = [], rw_metrics = gj_metrics j \<rparr>;
          s = (if is_busy s then OK else s);
          j = j\<lparr> gj_metrics := rw_metrics st \<rparr>
      in if s \<noteq> OK then ((s, j), rw_lsm st)
         else
           let (s, fs) = fold (drop_from_file j st) (rw_dropped st) (OK, tf_set (gj_db j));
               j = j\<lparr> gj_db := (gj_db j)\<lparr> tf_set := fs \<rparr> \<rparr>
           in ((if s = OK then ge_flush_wal env else s, j), rw_lsm st))"

definition DeleteInputBlobFiles :: "GcEnv \<Rightarrow> GcJob \<Rightarrow> status \<times> GcJob" where
  "DeleteInputBlobFiles env j =
     (let live = (\<lambda>n. case Option.bind (GetBlobStorage (gj_cf j) (tf_set (gj_db j))) (FindFile n) of None \<Rightarrow> False | Some f \<Rightarrow> \<not> is_obsolete f);
          edit = fold (\<lambda>n e. if live n then ve_DeleteBlobFile n (ge_latest_sequence env) e else e) (gc_inputs (gj_gc j))
                   (SetColumnFamilyID (gj_cf j) VersionEdit_default);
          (s, fs) = LogAndApply (fe_manifest (ge_files env)) edit (tf_set (gj_db j));
          j = on_metrics (\<lambda>m. m\<lparr> gm_num_files := gm_num_files m + of_nat (length (gc_inputs (gj_gc j))) \<rparr>) j
      in (s, j\<lparr> gj_db := (gj_db j)\<lparr> tf_set := fs \<rparr> \<rparr>))"

text \<open>\<open>dropped\<close>: the column family is found dropped before the inputs are deleted.\<close>

definition gc_Finish :: "GcEnv \<Rightarrow> bool \<Rightarrow> GcJob \<Rightarrow> lsm \<Rightarrow> (status \<times> GcJob) \<times> lsm" where
  "gc_Finish env dropped j db =
     (let (s, j) = (if \<not> gj_offload j then InstallOutputBlobFiles env j else InstallHardwareOutputBlobFiles env j);
          ((s, j), db) = (if s = OK then RewriteValidKeyToLSM env j db else ((s, j), db));
          (s, j) = (if s = OK \<and> \<not> dropped then DeleteInputBlobFiles env j else (s, j))
      in ((s, j), db))"

end
