(* ===== verification/Titan_Read.thy ===== *)
theory Titan_Read
  imports Base_Db Blob_File_Set Blob_File_Reader
begin

text \<open>
  Reading through Titan: \<open>Get\<close> and \<open>MultiGet\<close> of \<open>src/db_impl.cc\<close>, \<open>Get\<close> and \<open>NewPrefetcher\<close> of
  \<open>src/blob_storage.cc\<close>, and the iterator of \<open>src/db_iter.h\<close>. What the base database returns for a
  read is an argument; so is its iterator, by the operations Titan calls on it. Ticks, stop watches
  and log messages are left out, and the numbers in error messages.
\<close>

section \<open>Model of a read\<close>

definition st_Get ::
    "ReaderLib \<Rightarrow> BlobStorage \<Rightarrow> BlobIndex \<Rightarrow> BlobFileCache \<Rightarrow> blob_cache
      \<Rightarrow> (status + BlobRecord) \<times> BlobFileCache \<times> blob_cache" where
  "st_Get lib st idx fc cache =
     (case FindFile (bi_file_number idx) st of
        None \<Rightarrow> (Inl (Corruption ''Missing blob file''), fc, cache)
      | Some f \<Rightarrow> fc_Get lib (file_number f) (file_size f) (bi_blob_handle idx) fc cache)"

definition st_NewPrefetcher ::
    "ReaderLib \<Rightarrow> BlobStorage \<Rightarrow> u64 \<Rightarrow> BlobFileCache \<Rightarrow> (status + BlobFilePrefetcher) \<times> BlobFileCache" where
  "st_NewPrefetcher lib st n fc =
     (case FindFile n st of
        None \<Rightarrow> (Inl (Corruption ''Missing blob wfile''), fc)
      | Some f \<Rightarrow> fc_NewPrefetcher lib (file_number f) (file_size f) fc)"

text \<open>\<open>GetImpl\<close>, given what the base database finds. The assertion comes before the check.\<close>

definition GetImpl ::
    "ReaderLib \<Rightarrow> BlobFileSet \<Rightarrow> u32 \<Rightarrow> lsm_read \<Rightarrow> BlobFileCache \<Rightarrow> blob_cache
      \<Rightarrow> (status + bytes) \<times> BlobFileCache \<times> blob_cache" where
  "GetImpl lib fs cfid found fc cache =
     (case found of
        ReadError s \<Rightarrow> (Inl s, fc, cache)
      | ReadEntry None \<Rightarrow> (Inl (NotFound []), fc, cache)
      | ReadEntry (Some (LsmValue v)) \<Rightarrow> (Inr v, fc, cache)
      | ReadEntry (Some (LsmBlobIndex e)) \<Rightarrow>
          (case BlobIndex_DecodeFrom e of
             Inl s \<Rightarrow> (Inl (Undefined ''assert''), fc, cache)
           | Inr (idx, _) \<Rightarrow>
               (case GetBlobStorage cfid fs of
                  None \<Rightarrow> (Inl (NotFound ''Column family not Found.''), fc, cache)
                | Some st \<Rightarrow>
                    (case st_Get lib st idx fc cache of
                       (Inl s, fc, cache) \<Rightarrow> (Inl s, fc, cache)
                     | (Inr r, fc, cache) \<Rightarrow> (Inr (rec_value r), fc, cache)))))"

text \<open>Each column family has its own cache of readers; the blob cache is shared.\<close>

fun MultiGetImpl ::
    "ReaderLib \<Rightarrow> BlobFileSet \<Rightarrow> (u32 \<times> lsm_read) list \<Rightarrow> (u32 \<Rightarrow> BlobFileCache) \<Rightarrow> blob_cache
      \<Rightarrow> (status + bytes) list \<times> (u32 \<Rightarrow> BlobFileCache) \<times> blob_cache" where
  "MultiGetImpl lib fs [] fcs cache = ([], fcs, cache)"
| "MultiGetImpl lib fs ((cfid, found) # rest) fcs cache =
     (let (r, fc, cache) = GetImpl lib fs cfid found (fcs cfid) cache;
          (rs, fcs, cache) = MultiGetImpl lib fs rest (fcs(cfid := fc)) cache
      in (r # rs, fcs, cache))"

section \<open>Model of the iterator\<close>

text \<open>The iterator of the base database, with blob indexes exposed, over states of type \<open>'b\<close>.\<close>

record 'b BaseIter =
  b_SeekToFirst :: "'b \<Rightarrow> 'b"
  b_SeekToLast :: "'b \<Rightarrow> 'b"
  b_Seek :: "bytes \<Rightarrow> 'b \<Rightarrow> 'b"
  b_SeekForPrev :: "bytes \<Rightarrow> 'b \<Rightarrow> 'b"
  b_Next :: "'b \<Rightarrow> 'b"
  b_Prev :: "'b \<Rightarrow> 'b"
  b_Valid :: "'b \<Rightarrow> bool"
  b_IsBlob :: "'b \<Rightarrow> bool"
  b_key :: "'b \<Rightarrow> bytes"
  b_value :: "'b \<Rightarrow> bytes"
  b_status :: "'b \<Rightarrow> status"

record 'b TitanDBIterator =
  ti_status :: status
  ti_record :: BlobRecord
  ti_key_only :: bool
  ti_iter :: 'b
  ti_files :: "(u64 \<times> BlobFilePrefetcher) list"
  ti_fc :: BlobFileCache
  ti_cache :: blob_cache

definition TitanDBIterator_new :: "BlobRecord \<Rightarrow> bool \<Rightarrow> 'b \<Rightarrow> BlobFileCache \<Rightarrow> blob_cache \<Rightarrow> 'b TitanDBIterator" where
  "TitanDBIterator_new r key_only iter fc cache =
     \<lparr> ti_status = OK, ti_record = r, ti_key_only = key_only, ti_iter = iter, ti_files = [], ti_fc = fc, ti_cache = cache \<rparr>"

definition ti_Valid :: "'b BaseIter \<Rightarrow> 'b TitanDBIterator \<Rightarrow> bool" where
  "ti_Valid B it \<longleftrightarrow> b_Valid B (ti_iter it) \<and> ti_status it = OK"

definition ti_get_status :: "'b BaseIter \<Rightarrow> 'b TitanDBIterator \<Rightarrow> status" where
  "ti_get_status B it = (if ti_status it = OK then b_status B (ti_iter it) else ti_status it)"

definition ShouldGetBlobValue :: "'b BaseIter \<Rightarrow> 'b TitanDBIterator \<Rightarrow> bool \<times> 'b TitanDBIterator" where
  "ShouldGetBlobValue B it =
     (if \<not> b_Valid B (ti_iter it) \<or> \<not> b_IsBlob B (ti_iter it) \<or> ti_key_only it
      then (False, it\<lparr> ti_status := b_status B (ti_iter it) \<rparr>)
      else (True, it))"

definition GetBlobValue :: "ReaderLib \<Rightarrow> BlobStorage \<Rightarrow> 'b BaseIter \<Rightarrow> 'b TitanDBIterator \<Rightarrow> 'b TitanDBIterator" where
  "GetBlobValue lib st B it =
     (if b_status B (ti_iter it) \<noteq> OK then it\<lparr> ti_status := Undefined ''assert'' \<rparr>
      else
        case DecodeInto BlobIndex_DecodeFrom (b_value B (ti_iter it)) False of
          Inl s \<Rightarrow> it\<lparr> ti_status := s \<rparr>
        | Inr idx \<Rightarrow>
            let (s, it) =
              (case map_of (ti_files it) (bi_file_number idx) of
                 Some p \<Rightarrow> (OK, it)
               | None \<Rightarrow>
                   (case st_NewPrefetcher lib st (bi_file_number idx) (ti_fc it) of
                      (Inl s, fc) \<Rightarrow> (s, it\<lparr> ti_fc := fc \<rparr>)
                    | (Inr p, fc) \<Rightarrow> (OK, it\<lparr> ti_fc := fc, ti_files := ti_files it @ [(bi_file_number idx, p)] \<rparr>)))
            in if s \<noteq> OK then it\<lparr> ti_status := s \<rparr>
               else
                 case pf_Get lib (the (map_of (ti_files it) (bi_file_number idx))) (bi_blob_handle idx) (ti_cache it) of
                   ((res, cache), p, _) \<Rightarrow>
                     let it = it\<lparr> ti_cache := cache, ti_files := upd (bi_file_number idx) (\<lambda>_. p) (ti_files it) \<rparr>
                     in (case res of
                           Inl s \<Rightarrow> it\<lparr> ti_status := s \<rparr>
                         | Inr r \<Rightarrow> it\<lparr> ti_status := OK, ti_record := r \<rparr>))"

text \<open>What every operation does once the base iterator has moved.\<close>

definition ti_moved :: "ReaderLib \<Rightarrow> BlobStorage \<Rightarrow> 'b BaseIter \<Rightarrow> 'b TitanDBIterator \<Rightarrow> 'b TitanDBIterator" where
  "ti_moved lib st B it =
     (case ShouldGetBlobValue B it of (get, it) \<Rightarrow> if get then GetBlobValue lib st B it else it)"

definition ti_SeekToFirst :: "ReaderLib \<Rightarrow> BlobStorage \<Rightarrow> 'b BaseIter \<Rightarrow> 'b TitanDBIterator \<Rightarrow> 'b TitanDBIterator" where
  "ti_SeekToFirst lib st B it = ti_moved lib st B (it\<lparr> ti_iter := b_SeekToFirst B (ti_iter it) \<rparr>)"

definition ti_SeekToLast :: "ReaderLib \<Rightarrow> BlobStorage \<Rightarrow> 'b BaseIter \<Rightarrow> 'b TitanDBIterator \<Rightarrow> 'b TitanDBIterator" where
  "ti_SeekToLast lib st B it = ti_moved lib st B (it\<lparr> ti_iter := b_SeekToLast B (ti_iter it) \<rparr>)"

definition ti_Seek :: "ReaderLib \<Rightarrow> BlobStorage \<Rightarrow> 'b BaseIter \<Rightarrow> bytes \<Rightarrow> 'b TitanDBIterator \<Rightarrow> 'b TitanDBIterator" where
  "ti_Seek lib st B target it = ti_moved lib st B (it\<lparr> ti_iter := b_Seek B target (ti_iter it) \<rparr>)"

definition ti_SeekForPrev :: "ReaderLib \<Rightarrow> BlobStorage \<Rightarrow> 'b BaseIter \<Rightarrow> bytes \<Rightarrow> 'b TitanDBIterator \<Rightarrow> 'b TitanDBIterator" where
  "ti_SeekForPrev lib st B target it = ti_moved lib st B (it\<lparr> ti_iter := b_SeekForPrev B target (ti_iter it) \<rparr>)"

definition ti_Next :: "ReaderLib \<Rightarrow> BlobStorage \<Rightarrow> 'b BaseIter \<Rightarrow> 'b TitanDBIterator \<Rightarrow> status + 'b TitanDBIterator" where
  "ti_Next lib st B it =
     (if \<not> ti_Valid B it then Inl (Undefined ''assert'')
      else Inr (ti_moved lib st B (it\<lparr> ti_iter := b_Next B (ti_iter it) \<rparr>)))"

definition ti_Prev :: "ReaderLib \<Rightarrow> BlobStorage \<Rightarrow> 'b BaseIter \<Rightarrow> 'b TitanDBIterator \<Rightarrow> status + 'b TitanDBIterator" where
  "ti_Prev lib st B it =
     (if \<not> ti_Valid B it then Inl (Undefined ''assert'')
      else Inr (ti_moved lib st B (it\<lparr> ti_iter := b_Prev B (ti_iter it) \<rparr>)))"

definition ti_key :: "'b BaseIter \<Rightarrow> 'b TitanDBIterator \<Rightarrow> status + bytes" where
  "ti_key B it = (if \<not> ti_Valid B it then Inl (Undefined ''assert'') else Inr (b_key B (ti_iter it)))"

definition ti_value :: "'b BaseIter \<Rightarrow> 'b TitanDBIterator \<Rightarrow> status + bytes" where
  "ti_value B it =
     (if \<not> (ti_Valid B it \<and> \<not> ti_key_only it) then Inl (Undefined ''assert'')
      else if ti_key_only it then Inr []
      else if \<not> b_IsBlob B (ti_iter it) then Inr (b_value B (ti_iter it))
      else Inr (rec_value (ti_record it)))"

end
