(* ===== verification/Gc_Rewrite.thy ===== *)
theory Gc_Rewrite
  imports Gc_Job Titan_Read
begin

text \<open>
  Writing the new indexes back, against other writers: the database after the rewriting compared with
  the database that has seen only the other writers.
\<close>

section \<open>Batches and other writers\<close>

definition refers :: "lsm_entry option \<Rightarrow> BlobIndex \<Rightarrow> bool" where
  "refers e idx \<longleftrightarrow> (\<exists>b rest. e = Some (LsmBlobIndex b) \<and> BlobIndex_DecodeFrom b = Inr (idx, rest))"

fun put_key :: "lsm_put \<Rightarrow> bytes" where
  "put_key (Put k v) = k"
| "put_key (PutBlobIndex k e) = k"

fun put_entry :: "lsm_put \<Rightarrow> lsm_entry" where
  "put_entry (Put k v) = LsmValue v"
| "put_entry (PutBlobIndex k e) = LsmBlobIndex e"

lemma apply_put_eq: "apply_put p db = db(put_key p \<mapsto> put_entry p)"
  by (cases p) simp_all

text \<open>What \<open>n\<close> rounds of the others, from round \<open>i\<close>, make of a database.\<close>

definition foreign_writes :: "GcEnv \<Rightarrow> nat \<Rightarrow> nat \<Rightarrow> lsm \<Rightarrow> lsm" where
  "foreign_writes env i n db = fold (\<lambda>l. apply_foreign (ge_foreign env l)) [i..<i + n] db"

lemma foreign_writes_0 [simp]: "foreign_writes env i 0 db = db"
  by (simp add: foreign_writes_def)

lemma foreign_writes_Suc: "foreign_writes env i (Suc n) db = foreign_writes env (Suc i) n (apply_foreign (ge_foreign env i) db)"
  by (simp add: foreign_writes_def upt_conv_Cons del: upt_Suc)

text \<open>
  A batch is right for the values \<open>V\<close> of entries if it puts an entry of the same value as every entry
  with the index its callback checks for.
\<close>

definition batch_ok :: "(lsm_entry option \<Rightarrow> 'v) \<Rightarrow> lsm_put \<times> GCWriteCallback \<Rightarrow> bool" where
  "batch_ok V = (\<lambda>(p, cb). cb_key cb = put_key p \<and>
     (\<forall>e idx. refers e idx \<and> BlobIndex_eq (cb_blob_index cb) idx \<longrightarrow> V e = V (Some (put_entry p))))"

section \<open>One write\<close>

lemma BlobIndex_DecodeFrom_error: "BlobIndex_DecodeFrom b \<noteq> Inl OK"
  by (auto simp: BlobIndex_DecodeFrom_def split: option.splits sum.splits prod.splits if_splits)

lemma cb_Callback_OK:
  "fst (cb_Callback (ReadEntry e) cb) = OK \<longleftrightarrow> (\<exists>idx. refers e idx \<and> BlobIndex_eq (cb_blob_index cb) idx)"
  by (auto simp: cb_Callback_def refers_def Let_def BlobIndex_DecodeFrom_error split: option.splits lsm_entry.splits sum.splits prod.splits)

lemma cb_Callback_error [simp]: "cb_Callback (ReadError s) cb = (s, cb)"
  by (simp add: cb_Callback_def)

lemma WriteWithCallback_cases:
  assumes "WriteWithCallback env i p cb db = ((s, cb'), db')"
  obtains (kept) "db' = db" "s \<noteq> OK"
  | (written) "db' = apply_put p db" "s = OK" "\<exists>idx. refers (db (cb_key cb)) idx \<and> BlobIndex_eq (cb_blob_index cb) idx"
  using assms cb_Callback_OK [of "db (cb_key cb)" cb]
  by (auto simp: WriteWithCallback_def db_Write_def Let_def cb_Callback_def split: if_splits prod.splits)

text \<open>If only the callback says busy, it says so because the key has no longer the index it checks for.\<close>

definition not_busy :: "GcEnv \<Rightarrow> bool" where
  "not_busy env \<longleftrightarrow> (\<forall>i. \<not> is_busy (ge_write env i) \<and> \<not> is_busy (ge_callback_read env i))"

lemma WriteWithCallback_busy:
  assumes "WriteWithCallback env i p cb db = ((s, cb'), db')" "is_busy s" "not_busy env"
  shows "\<not> (refers (db (cb_key cb)) idx \<and> BlobIndex_eq (cb_blob_index cb) idx)"
proof
  assume r: "refers (db (cb_key cb)) idx \<and> BlobIndex_eq (cb_blob_index cb) idx"
  have "fst (cb_Callback (ReadEntry (db (cb_key cb))) cb) = OK" using r unfolding cb_Callback_OK by blast
  then show False using assms
    by (auto simp: WriteWithCallback_def db_Write_def not_busy_def is_busy_def Let_def split: if_splits prod.splits)
qed

lemma rewrite_one_lsm:
  assumes "rewrite_one env j i (p, cb) st = (s, st')" "\<not> gj_offload j"
  shows "\<exists>cb'. WriteWithCallback env i p cb (apply_foreign (ge_foreign env i) (rw_lsm st)) = ((s, cb'), rw_lsm st')"
  using assms by (auto simp: rewrite_one_def Let_def split: if_splits prod.splits)

section \<open>The loop\<close>

lemma rewrite_loop_values:
  assumes "\<not> gj_offload j" "list_all (batch_ok V) bs" "rewrite_loop env j i s bs st = (s', st')"
    and "\<forall>k. V (rw_lsm st k) = V (db k)"
  shows "\<exists>n \<le> length bs. \<forall>k. V (rw_lsm st' k) = V (foreign_writes env i n db k)"
  using assms(2-4)
proof (induction bs arbitrary: i s st db)
  case (Cons b bs)
  obtain p cb where b: "b = (p, cb)" by (cases b)
  show ?case
  proof (cases "ge_cf_dropped env i \<or> ge_shutdown env (gj_checks j + i)")
    case True
    then show ?thesis using Cons.prems by (intro exI [of _ 0]) (auto split: if_splits)
  next
    case False
    let ?db = "apply_foreign (ge_foreign env i) db" and ?db1 = "apply_foreign (ge_foreign env i) (rw_lsm st)"
    obtain s1 st1 where one: "rewrite_one env j i (p, cb) st = (s1, st1)" by (cases "rewrite_one env j i (p, cb) st")
    obtain cb' where w: "WriteWithCallback env i p cb ?db1 = ((s1, cb'), rw_lsm st1)"
      using rewrite_one_lsm [OF one assms(1)] by blast
    have eq: "\<forall>k. V (?db1 k) = V (?db k)" using Cons.prems(3) by (auto simp: apply_foreign_def split: option.splits)
    from w have eq1: "\<forall>k. V (rw_lsm st1 k) = V (?db k)"
    proof (cases rule: WriteWithCallback_cases)
      case kept
      then show ?thesis using eq by simp
    next
      case written
      then have "V (?db1 (cb_key cb)) = V (Some (put_entry p))" "cb_key cb = put_key p"
        using Cons.prems(1) by (auto simp: b batch_ok_def)
      then show ?thesis using eq written(1) by (simp add: apply_put_eq)
    qed
    show ?thesis
    proof (cases "s1 = OK \<or> is_busy s1")
      case True
      then have "rewrite_loop env j (i + 1) s1 bs st1 = (s', st')" using Cons.prems(2) False one by (auto simp: b)
      from Cons.IH [OF _ this eq1] obtain n where "n \<le> length bs" "\<forall>k. V (rw_lsm st' k) = V (foreign_writes env (i + 1) n ?db k)"
        using Cons.prems(1) by auto
      then show ?thesis by (intro exI [of _ "Suc n"]) (simp add: foreign_writes_Suc)
    next
      case s1: False
      then have "st' = st1" using Cons.prems(2) False one by (auto simp: b)
      then show ?thesis using eq1 by (intro exI [of _ 1]) (simp add: foreign_writes_Suc)
    qed
  qed
qed auto

text \<open>
  \<open>bad\<close> indexes go away: if every key with a bad index has a batch that checks for it and nobody
  writes one, no key has one after a loop that gets to its end.
\<close>

definition covers :: "(BlobIndex \<Rightarrow> bool) \<Rightarrow> (lsm_put \<times> GCWriteCallback) list \<Rightarrow> lsm \<Rightarrow> bool" where
  "covers bad bs db \<longleftrightarrow>
     (\<forall>k idx. refers (db k) idx \<and> bad idx \<longrightarrow> (\<exists>(p, cb)\<in>set bs. cb_key cb = k \<and> put_key p = k \<and> BlobIndex_eq (cb_blob_index cb) idx))"

definition foreign_good :: "GcEnv \<Rightarrow> (BlobIndex \<Rightarrow> bool) \<Rightarrow> bool" where
  "foreign_good env bad \<longleftrightarrow> (\<forall>i k e idx. ge_foreign env i k = Some e \<and> refers e idx \<longrightarrow> \<not> bad idx)"

lemma covers_foreign:
  assumes "covers bad bs db" "foreign_good env bad"
  shows "covers bad bs (apply_foreign (ge_foreign env i) db)"
  using assms unfolding covers_def foreign_good_def apply_foreign_def by (fastforce split: option.splits)

lemma covers_write:
  assumes "covers bad ((p, cb) # bs) db" "WriteWithCallback env i p cb db = ((s, cb'), db')" "s = OK \<or> is_busy s" "not_busy env"
    and "\<And>idx. refers (Some (put_entry p)) idx \<Longrightarrow> \<not> bad idx"
  shows "covers bad bs db'"
  using assms(2)
proof (cases rule: WriteWithCallback_cases)
  case kept
  then have "\<not> (refers (db (cb_key cb)) idx \<and> BlobIndex_eq (cb_blob_index cb) idx)" for idx
    using WriteWithCallback_busy [OF assms(2) _ assms(4)] assms(3) by blast
  then show ?thesis using assms(1) kept(1) unfolding covers_def by fastforce
next
  case written
  show ?thesis unfolding covers_def
  proof (intro allI impI)
    fix k idx assume k: "refers (db' k) idx \<and> bad idx"
    then have ne: "k \<noteq> put_key p" using assms(5) written(1) by (auto simp: apply_put_eq)
    then have "refers (db k) idx \<and> bad idx" using k written(1) by (simp add: apply_put_eq)
    then show "\<exists>(p, cb)\<in>set bs. cb_key cb = k \<and> put_key p = k \<and> BlobIndex_eq (cb_blob_index cb) idx"
      using assms(1) ne unfolding covers_def by fastforce
  qed
qed

lemma rewrite_loop_covers:
  assumes "\<not> gj_offload j" "not_busy env" "foreign_good env bad" "rewrite_loop env j i s bs st = (s', st')" "s' = OK \<or> is_busy s'"
    and "\<forall>(p, cb)\<in>set bs. \<forall>idx. refers (Some (put_entry p)) idx \<longrightarrow> \<not> bad idx" "covers bad bs (rw_lsm st)"
  shows "refers (rw_lsm st' k) idx \<Longrightarrow> \<not> bad idx"
  using assms(4-7)
proof (induction bs arbitrary: i s st)
  case Nil
  then show ?case by (auto simp: covers_def)
next
  case (Cons b bs)
  obtain p cb where b: "b = (p, cb)" by (cases b)
  obtain s1 st1 where one: "rewrite_one env j i (p, cb) st = (s1, st1)" by (cases "rewrite_one env j i (p, cb) st")
  have run: "\<not> ge_cf_dropped env i" "\<not> ge_shutdown env (gj_checks j + i)" using Cons.prems(2,3) by (auto simp: is_busy_def split: if_splits)
  then have s1: "s1 = OK \<or> is_busy s1" "rewrite_loop env j (i + 1) s1 bs st1 = (s', st')"
    using Cons.prems(2,3) one by (auto simp: b split: if_splits)
  obtain cb' where w: "WriteWithCallback env i p cb (apply_foreign (ge_foreign env i) (rw_lsm st)) = ((s1, cb'), rw_lsm st1)"
    using rewrite_one_lsm [OF one assms(1)] by blast
  have "covers bad bs (rw_lsm st1)"
    by (rule covers_write [OF covers_foreign [OF Cons.prems(5) [unfolded b] assms(3)] w s1(1) assms(2)]) (use Cons.prems(4) b in auto)
  then show ?case using Cons.IH [OF Cons.prems(1) s1(2) Cons.prems(3)] Cons.prems(4) by simp
qed

section \<open>Values\<close>

text \<open>What a user reads for an entry, and the record behind an index.\<close>

definition read_value :: "ReaderLib \<Rightarrow> BlobFileSet \<Rightarrow> u32 \<Rightarrow> BlobFileCache \<Rightarrow> blob_cache \<Rightarrow> lsm_entry option \<Rightarrow> status + bytes" where
  "read_value lib fs cfid fc cache e = fst (GetImpl lib fs cfid (ReadEntry e) fc cache)"

definition index_record :: "ReaderLib \<Rightarrow> BlobFileSet \<Rightarrow> u32 \<Rightarrow> BlobFileCache \<Rightarrow> blob_cache \<Rightarrow> BlobIndex \<Rightarrow> status + BlobRecord" where
  "index_record lib fs cfid fc cache idx =
     (case GetBlobStorage cfid fs of
        None \<Rightarrow> Inl (NotFound ''Column family not Found.'')
      | Some st \<Rightarrow> fst (st_Get lib st idx fc cache))"

lemma rd_Get_cong:
  assumes "bh_offset h = bh_offset h'" "bh_size h = bh_size h'"
  shows "rd_Get lib rd h cache = rd_Get lib rd h' cache"
  unfolding rd_Get_def ReadRecord_def assms ..

lemma index_record_cong:
  assumes "BlobIndex_eq idx idx'"
  shows "index_record lib fs cfid fc cache idx = index_record lib fs cfid fc cache idx'"
proof -
  have eq: "bi_file_number idx = bi_file_number idx'" "bh_offset (bi_blob_handle idx) = bh_offset (bi_blob_handle idx')"
    "bh_size (bi_blob_handle idx) = bh_size (bi_blob_handle idx')"
    using assms by (simp_all add: BlobIndex_eq_def BlobHandle_eq_def)
  show ?thesis
    unfolding index_record_def st_Get_def fc_Get_def eq(1) rd_Get_cong [OF eq(2,3)] ..
qed

lemma read_value_index:
  assumes "refers e idx"
  shows "read_value lib fs cfid fc cache e = map_sum id rec_value (index_record lib fs cfid fc cache idx)"
  using assms by (auto simp: read_value_def index_record_def refers_def GetImpl_def split: option.splits prod.splits sum.splits)

lemma refers_encoded:
  assumes "BlobIndex_wf idx"
  shows "refers (Some (LsmBlobIndex (BlobIndex_EncodeTo idx))) idx' \<longleftrightarrow> idx' = idx"
  using BlobIndex_roundtrip [OF assms] by (auto simp: refers_def)

text \<open>Moving a record to another index, and writing its value in place.\<close>

lemma batch_ok_moved:
  assumes "index_record lib fs cfid fc cache old = Inr r" "index_record lib fs cfid fc cache new = Inr r'" "rec_value r' = rec_value r"
    and "refers (Some (LsmBlobIndex e)) new"
    and "cb_key cb = k" "cb_blob_index cb = old"
  shows "batch_ok (read_value lib fs cfid fc cache) (PutBlobIndex k e, cb)"
  using assms index_record_cong [of old] by (auto simp: batch_ok_def read_value_index [OF assms(4)] read_value_index)

lemma batch_ok_inline:
  assumes "index_record lib fs cfid fc cache old = Inr r" "cb_key cb = k" "cb_blob_index cb = old"
  shows "batch_ok (read_value lib fs cfid fc cache) (Put k (rec_value r), cb)"
proof -
  have "read_value lib fs cfid fc cache (Some (LsmValue v)) = Inr v" for v by (simp add: read_value_def GetImpl_def)
  then show ?thesis using assms index_record_cong [of old] by (auto simp: batch_ok_def read_value_index)
qed

section \<open>Properties\<close>

text \<open>
  C4: the rewriting of a collection on the host is invisible. If each batch moves a record to a copy
  of it, then however far the rewriting gets, whatever others write in between and whatever write
  fails, every key reads as if only the others had written. The check in the write callback is what
  makes it so; the batches of an offloaded collection are written without it, and their indexes are
  resolved later (\<open>Write_Back\<close>).
\<close>

theorem rewrite_keeps_values:
  assumes "\<not> gj_offload j" "list_all (batch_ok (read_value lib fs cfid fc cache)) (gj_rewrite_batches j)"
    and "RewriteValidKeyToLSM env j db = ((s, j'), db')"
  shows "\<exists>n \<le> length (gj_rewrite_batches j). \<forall>k.
    read_value lib fs cfid fc cache (db' k) = read_value lib fs cfid fc cache (foreign_writes env 0 n db k)"
proof -
  obtain s1 st where "rewrite_loop env j 0 OK (gj_rewrite_batches j)
      \<lparr> rw_lsm = db, rw_dropped = [], rw_dropped_index = [], rw_metrics = gj_metrics j \<rparr> = (s1, st)" "rw_lsm st = db'"
    using assms(3) by (auto simp: RewriteValidKeyToLSM_def Let_def split: prod.splits if_splits)
  then show ?thesis using rewrite_loop_values [OF assms(1,2)] by fastforce
qed

definition demo_meta :: "u64 \<Rightarrow> BlobFileMeta" where
  "demo_meta n = BlobFileMeta_new n 71 1 0 [1] [1]"

definition demo_set :: "u64 list \<Rightarrow> BlobFileSet" where
  "demo_set ns = atomic_set\<lparr> column_families := [(0, fold (AddBlobFile \<circ> demo_meta) ns (BlobStorage_new demo_options 0))], next_file_number := 20 \<rparr>"

definition demo_cache :: BlobFileCache where
  "demo_cache = \<lparr> fc_open = \<lambda>_. Inr demo_file, fc_prefix = \<lambda>_. None, fc_cache = \<lambda>_. None \<rparr>"

definition demo_index :: "u64 \<Rightarrow> BlobIndex" where
  "demo_index n = BlobIndex_default\<lparr> bi_file_number := n, bi_blob_handle := out_handles (snd demo_built @ snd demo_finished) ! 0 \<rparr>"

definition demo_files_env :: FilesEnv where
  "demo_files_env = \<lparr> fe_new_file = \<lambda>_. OK, fe_sync = \<lambda>_. OK, fe_close = \<lambda>_. OK, fe_fsync = OK, fe_delete = \<lambda>_. OK,
     fe_manifest = atomic_io, fe_on_error = \<lambda>s. s \<rparr>"

definition demo_env :: GcEnv where
  "demo_env = \<lparr> ge_lib = demo_blib, ge_rlib = demo_rlib, ge_version = 2, ge_files = demo_files_env, ge_open = \<lambda>_. Inr demo_file,
     ge_get = \<lambda>_ _. ReadEntry (Some (LsmBlobIndex (BlobIndex_EncodeTo (demo_index 9)))), ge_shutdown = \<lambda>_. False,
     ge_cf_dropped = \<lambda>_. False, ge_foreign = \<lambda>_ _. None, ge_callback_read = \<lambda>_. OK, ge_write = \<lambda>_. OK, ge_flush_wal = OK,
     ge_latest_sequence = 5, ge_device_in = \<lambda>_. 0, ge_device_out = \<lambda>_. 0, ge_device_written = \<lambda>n. n \<rparr>"

definition demo_tf :: "u64 list \<Rightarrow> TitanFiles" where
  "demo_tf ns = \<lparr> tf_set = demo_set ns, tf_pending_outputs = {}, tf_bg_error = OK,
     tf_disk = \<lambda>n. if n \<in> set ns then Some (rf_contents demo_file) else None, tf_disable_deletions = 0 \<rparr>"

definition demo_job :: "u64 list \<Rightarrow> GcJob" where
  "demo_job ns = GcJob_new \<lparr> gc_inputs = [9], gc_outputs = [], gc_options = demo_options, gc_trigger_next = False \<rparr> 0 False (demo_tf ns) []"

definition demo_batch :: "lsm_put \<times> GCWriteCallback" where
  "demo_batch = (PutBlobIndex [1] (BlobIndex_EncodeTo (demo_index 10)),
     \<lparr> cb_key = [1], cb_blob_index = demo_index 9, cb_new_blob_index = demo_index 10, cb_read_bytes = 0 \<rparr>)"

definition demo_lsm :: lsm where
  "demo_lsm = [[1] \<mapsto> LsmBlobIndex (BlobIndex_EncodeTo (demo_index 9))]"

lemma demo_index_wf: "BlobIndex_wf (demo_index n)"
  by (simp add: BlobIndex_wf_def demo_index_def BlobIndex_default_def)

lemma demo_index_record:
  "index_record demo_rlib (demo_set [9, 10]) 0 demo_cache Map.empty (demo_index 9) = Inr (demo_record [1])"
  "index_record demo_rlib (demo_set [9, 10]) 0 demo_cache Map.empty (demo_index 10) = Inr (demo_record [1])"
  by code_simp+

theorem rewrite_keeps_values_witness:
  "\<exists>s j' db'. RewriteValidKeyToLSM demo_env ((demo_job [9, 10])\<lparr> gj_rewrite_batches := [demo_batch] \<rparr>) demo_lsm = ((s, j'), db') \<and>
     (\<exists>n \<le> 1. \<forall>k. read_value demo_rlib (demo_set [9, 10]) 0 demo_cache Map.empty (db' k) =
        read_value demo_rlib (demo_set [9, 10]) 0 demo_cache Map.empty (foreign_writes demo_env 0 n demo_lsm k))"
proof -
  let ?j = "(demo_job [9, 10])\<lparr> gj_rewrite_batches := [demo_batch] \<rparr>"
  obtain s j' db' where r: "RewriteValidKeyToLSM demo_env ?j demo_lsm = ((s, j'), db')" by (metis prod.exhaust)
  have "list_all (batch_ok (read_value demo_rlib (demo_set [9, 10]) 0 demo_cache Map.empty)) (gj_rewrite_batches ?j)"
    using batch_ok_moved [OF demo_index_record refl, of "BlobIndex_EncodeTo (demo_index 10)" "snd demo_batch" "[1]"]
    by (simp add: demo_batch_def refers_encoded demo_index_wf)
  from rewrite_keeps_values [OF _ this r] show ?thesis using r by (auto simp: demo_job_def GcJob_new_def)
qed

end
