(* ===== verification/Gc_Collect.thy ===== *)
theory Gc_Collect
  imports Gc_Rewrite
begin

text \<open>
  The run of a garbage collection on the host: which records it keeps, the file it builds of them
  and the batches it prepares.
\<close>

section \<open>The loop over a list of records\<close>

fun gc_items :: "GcEnv \<Rightarrow> (BlobIndex \<times> BlobRecord) list \<Rightarrow> GcJob \<Rightarrow> gc_ctl \<times> GcJob" where
  "gc_items env [] j = (Continue, j)"
| "gc_items env ((idx, r) # xs) j =
     (case gc_body env idx r None j of (Break s, j) \<Rightarrow> (Break s, j) | (Continue, j) \<Rightarrow> gc_items env xs (count_read j))"

fun ctl_status :: "gc_ctl \<Rightarrow> status" where
  "ctl_status Continue = OK"
| "ctl_status (Break s) = s"

lemma gc_rewrite_use_bitmap: "gc_rewrite env idx r j = (c, j') \<Longrightarrow> gj_use_bitmap j' = gj_use_bitmap j"
  by (auto simp: gc_rewrite_def gc_open_output_def push_current_def Let_def split: prod.splits if_splits option.splits sum.splits)

lemma gc_fallback_use_bitmap: "gc_fallback idx r j = (c, j') \<Longrightarrow> gj_use_bitmap j' = gj_use_bitmap j"
  by (auto simp: gc_fallback_def split: sum.splits)

text \<open>What the body does with a record, without a bitmap: \<open>core\<close> is the state that matters further on.\<close>

definition core :: "GcJob \<Rightarrow> BlobGC \<times> u32 \<times> bool \<times> bool \<times> (lsm_put \<times> GCWriteCallback) list \<times> (u64 \<times> BlobFileBuilder) list \<times> TitanFiles \<times>
    (u64 \<times> BlobFileBuilder) option \<times> u64" where
  "core j = (gj_gc j, gj_cf j, gj_use_bitmap j, gj_offload j, gj_rewrite_batches j, gj_builders j, gj_db j, gj_current j, gj_file_size j)"

lemma DiscardEntry_cases:
  assumes "DiscardEntry r key idx m = (res, m')"
  shows "res = Inr True \<Longrightarrow> \<exists>e. r = ReadEntry e \<and> \<not> (\<exists>idx'. refers e idx' \<and> BlobIndex_eq idx idx')"
    and "res = Inr False \<Longrightarrow> \<exists>e. r = ReadEntry e \<and> (\<exists>idx'. refers e idx' \<and> BlobIndex_eq idx idx')"
  using assms by (auto simp: DiscardEntry_def refers_def Let_def split: lsm_read.splits option.splits lsm_entry.splits sum.splits prod.splits)

definition gc_decide :: "GcEnv \<Rightarrow> BlobIndex \<Rightarrow> BlobRecord \<Rightarrow> (status + bool) \<times> GcJob \<Rightarrow> gc_ctl \<times> GcJob" where
  "gc_decide env idx r d =
     (case d of
        (Inl s, j) \<Rightarrow> (Break s, j)
      | (Inr True, j) \<Rightarrow>
          (Continue, on_metrics (\<lambda>m. m\<lparr> gm_num_keys_overwritten := gm_num_keys_overwritten m + 1,
                                       gm_bytes_overwritten := gm_bytes_overwritten m + bh_size (bi_blob_handle idx) \<rparr>) j)
      | (Inr False, j) \<Rightarrow>
          let j = (if gj_use_bitmap j then j else j\<lparr> gj_last_key_is_fresh := True \<rparr>)
          in if blob_run_mode (gc_options (gj_gc j)) = kFallback then gc_fallback idx r j else gc_rewrite env idx r j)"

definition gc_enter :: "BlobIndex \<Rightarrow> GcJob \<Rightarrow> GcJob" where
  "gc_enter idx j = on_metrics (\<lambda>m. m\<lparr> gm_bytes_read := gm_bytes_read m + bh_size (bi_blob_handle idx) \<rparr>) (j\<lparr> gj_checks := gj_checks j + 1 \<rparr>)"

lemma gc_body_eq:
  "gc_body env idx r v j =
     (if ge_shutdown env (gj_checks j) then (Break (ShutdownInProgress []), j\<lparr> gj_checks := gj_checks j + 1 \<rparr>)
      else
        let j0 = gc_enter idx j; same = (gj_last_key j0 \<noteq> [] \<and> rec_key r = gj_last_key j0)
        in if same \<and> gj_last_key_is_fresh j0 then (Continue, j0)
           else gc_decide env idx r
             (gc_discardable env idx r v (if same then j0 else j0\<lparr> gj_last_key := rec_key r, gj_last_key_is_fresh := False \<rparr>)))"
  unfolding gc_body_def gc_decide_def gc_enter_def Let_def ..

lemma gc_body_cases:
  assumes "gc_body env idx r v j = (Continue, j')" "\<not> gj_use_bitmap j"
  obtains (skip) "rec_key r = gj_last_key j" "gj_last_key_is_fresh j" "gj_last_key j' = gj_last_key j" "gj_last_key_is_fresh j'" "core j' = core j"
  | (dead) e where "ge_get env (gj_reads j) (rec_key r) = ReadEntry e" "\<not> (\<exists>idx'. refers e idx' \<and> BlobIndex_eq idx idx')"
      "gj_last_key j' = rec_key r" "\<not> gj_last_key_is_fresh j'" "core j' = core j"
  | (live) e j1 where "ge_get env (gj_reads j) (rec_key r) = ReadEntry e" "\<exists>idx'. refers e idx' \<and> BlobIndex_eq idx idx'"
      "gj_last_key j1 = rec_key r" "gj_last_key_is_fresh j1" "core j1 = core j"
      "(if blob_run_mode (gc_options (gj_gc j1)) = kFallback then gc_fallback idx r j1 else gc_rewrite env idx r j1) = (Continue, j')"
proof -
  define j0 where "j0 = gc_enter idx j"
  define same where "same \<longleftrightarrow> gj_last_key j0 \<noteq> [] \<and> rec_key r = gj_last_key j0"
  define j1 where "j1 = (if same then j0 else j0\<lparr> gj_last_key := rec_key r, gj_last_key_is_fresh := False \<rparr>)"
  have j0: "core j0 = core j" "gj_last_key j0 = gj_last_key j" "gj_last_key_is_fresh j0 = gj_last_key_is_fresh j" "gj_reads j0 = gj_reads j"
    by (simp_all add: j0_def gc_enter_def core_def)
  have body: "(if same \<and> gj_last_key_is_fresh j0 then (Continue, j0) else gc_decide env idx r (gc_discardable env idx r v j1)) = (Continue, j')"
    using assms(1) unfolding gc_body_eq Let_def j1_def same_def j0_def by (auto split: if_splits)
  show thesis
  proof (cases "same \<and> gj_last_key_is_fresh j0")
    case True
    then have "j' = j0" using body by simp
    then show thesis using skip True j0 by (auto simp: same_def)
  next
    case False
    have j1: "core j1 = core j" "gj_last_key j1 = rec_key r" "\<not> gj_last_key_is_fresh j1" "gj_reads j1 = gj_reads j" "\<not> gj_use_bitmap j1"
      using False j0 assms(2) by (auto simp: j1_def same_def core_def)
    obtain res m where d: "DiscardEntry (ge_get env (gj_reads j1) (rec_key r)) (rec_key r) idx (gj_metrics j1) = (res, m)" by fastforce
    let ?j2 = "j1\<lparr> gj_metrics := m, gj_reads := gj_reads j1 + 1 \<rparr>"
    have "gc_discardable env idx r v j1 = (res, ?j2)" using j1(5) d by (simp add: gc_discardable_def)
    then have b: "gc_decide env idx r (res, ?j2) = (Continue, j')" using body False by (simp only: if_False)
    show thesis
    proof (cases res)
      case (Inl s)
      then show thesis using b by (simp add: gc_decide_def)
    next
      case (Inr dis)
      show thesis
      proof (cases dis)
        case True
        then obtain e where "ge_get env (gj_reads j) (rec_key r) = ReadEntry e" "\<not> (\<exists>idx'. refers e idx' \<and> BlobIndex_eq idx idx')"
          using DiscardEntry_cases(1) [OF d] Inr j1(4) by auto
        moreover have "gj_last_key j' = rec_key r" "\<not> gj_last_key_is_fresh j'" "core j' = core j"
          using b Inr True j1 by (auto simp: core_def gc_decide_def)
        ultimately show thesis by (rule dead)
      next
        case False
        then obtain e where e: "ge_get env (gj_reads j) (rec_key r) = ReadEntry e" "\<exists>idx'. refers e idx' \<and> BlobIndex_eq idx idx'"
          using DiscardEntry_cases(2) [OF d] Inr j1(4) by auto
        show thesis
          by (rule live [OF e, of "?j2\<lparr> gj_last_key_is_fresh := True \<rparr>"]) (use b Inr False j1 in \<open>auto simp: core_def gc_decide_def Let_def split: if_splits\<close>)
      qed
    qed
  qed
qed

lemma gc_body_bitmap: "\<not> gj_use_bitmap j \<Longrightarrow> gc_body env idx r v j = gc_body env idx r None j"
  unfolding gc_body_eq gc_discardable_def gc_enter_def Let_def by simp

lemma gc_body_use_bitmap:
  assumes "gc_body env idx r v j = (Continue, j')" "\<not> gj_use_bitmap j"
  shows "\<not> gj_use_bitmap j'"
  using assms
proof (cases rule: gc_body_cases)
  case (live e j1)
  then show ?thesis
    using assms(2) gc_rewrite_use_bitmap [of env idx r j1] gc_fallback_use_bitmap [of idx r j1] by (auto simp: core_def split: if_splits)
qed (use assms(2) in \<open>simp_all add: core_def\<close>)

lemma gc_loop_items:
  assumes "mi_scan k (ge_rlib env) m = Some (xs, m')" "\<not> gj_use_bitmap j" "mi_get_status m' = OK"
  shows "\<exists>m2. gc_loop env m j = Some (ctl_status (fst (gc_items env xs j)), m2, snd (gc_items env xs j)) \<and> mi_get_status m2 = OK"
  using assms(1,2)
proof (induction k arbitrary: m xs j)
  case (Suc k)
  show ?case
  proof (cases "mi_Valid m")
    case False
    then show ?thesis using Suc.prems(1) assms(3) by (simp add: gc_loop.simps)
  next
    case True
    obtain m1 ys where m1: "mi_Next (ge_rlib env) m = Some m1" "mi_scan k (ge_rlib env) m1 = Some (ys, m')"
      "xs = (the (mi_GetBlobIndex m), it_cur_record (mi_iterators m ! the (mi_current m))) # ys"
      using Suc.prems(1) True by (auto split: option.splits)
    let ?b = "gc_body env (the (mi_GetBlobIndex m)) (it_cur_record (mi_iterators m ! the (mi_current m))) None j"
    have loop: "gc_loop env m j = (case ?b of (Break s, j) \<Rightarrow> Some (s, m, j) | (Continue, j) \<Rightarrow> gc_loop env m1 (count_read j))"
      unfolding gc_loop.simps [of env m j] gc_body_bitmap [OF Suc.prems(2), of _ _ _ "mi_ValidateByBitMap m"] m1(1) option.case using True by simp
    obtain c j1 where b: "?b = (c, j1)" by fastforce
    have ok: "mi_get_status m = OK" using True by (auto simp: mi_Valid_def split: option.splits)
    show ?thesis
    proof (cases c)
      case (Break s)
      then show ?thesis using loop b ok by (simp add: m1(3))
    next
      case Continue
      have "\<not> gj_use_bitmap (count_read j1)" using gc_body_use_bitmap [of env _ _ None j j1] b Continue Suc.prems(2) by (auto simp: count_read_def)
      from Suc.IH [OF m1(2) this] show ?thesis using loop b Continue by (simp add: m1(3))
    qed
  qed
qed simp

section \<open>What the loop keeps\<close>

text \<open>The batches of contexts, and of records written in place.\<close>

definition new_index :: "u64 \<Rightarrow> BlobHandle \<Rightarrow> BlobIndex" where
  "new_index n h = BlobIndex_default\<lparr> bi_file_number := n, bi_blob_handle := h \<rparr>"

definition move_batch :: "bytes \<Rightarrow> BlobIndex \<Rightarrow> BlobIndex \<Rightarrow> lsm_put \<times> GCWriteCallback" where
  "move_batch k old new =
     (PutBlobIndex k (BlobIndex_EncodeTo new), \<lparr> cb_key = k, cb_blob_index = old, cb_new_blob_index = new, cb_read_bytes = 0 \<rparr>)"

definition batch_of :: "BlobRecordContext \<Rightarrow> lsm_put \<times> GCWriteCallback" where
  "batch_of ctx = move_batch (ik_user_key (projr (ParseInternalKey (ctx_key ctx)))) (ctx_original_blob_index ctx)
     (new_index (bi_file_number (ctx_new_blob_index ctx)) (bi_blob_handle (ctx_new_blob_index ctx)))"

definition inline_batch :: "BlobIndex \<times> BlobRecord \<Rightarrow> lsm_put \<times> GCWriteCallback" where
  "inline_batch = (\<lambda>(idx, r). (Put (rec_key r) (rec_value r),
     \<lparr> cb_key = rec_key r, cb_blob_index = idx, cb_new_blob_index = BlobIndex_default, cb_read_bytes = 0 \<rparr>))"

lemma ParseInternalKey_error: "ParseInternalKey k \<noteq> Inl OK"
  by (auto simp: ParseInternalKey_def Let_def split: if_splits)

lemma BatchWriteNewIndices_OK:
  assumes "BatchWriteNewIndices ctxs (s, bs) = (OK, bs')"
  shows "bs' = bs @ map batch_of ctxs \<and> (ctxs = [] \<longrightarrow> s = OK)"
  using assms
proof (induction ctxs arbitrary: s bs)
  case (Cons c ctxs)
  then show ?case
    by (fastforce simp: batch_of_def move_batch_def new_index_def GCWriteCallback_new_def Let_def ParseInternalKey_error split: sum.splits if_splits)
qed simp

text \<open>
  The state of the job after it has kept the records \<open>kept\<close>: in fallback mode their batches, else one
  builder to which they have been added, in a file that is new since \<open>tf\<close>. There is never a second
  file, since the size that would start one is not counted.
\<close>

definition gc_inv :: "GcEnv \<Rightarrow> TitanFiles \<Rightarrow> GcJob \<Rightarrow> (BlobIndex \<times> BlobRecord) list \<Rightarrow> bool" where
  "gc_inv env tf j kept \<longleftrightarrow>
     (let opts = gc_options (gj_gc j) in
      gj_builders j = [] \<and> gj_file_size j = 0 \<and>
      (if blob_run_mode opts = kFallback then gj_current j = None \<and> gj_db j = tf \<and> gj_rewrite_batches j = map inline_batch kept
       else case gj_current j of
         None \<Rightarrow> gj_db j = tf \<and> kept = [] \<and> gj_rewrite_batches j = []
       | Some (n, b) \<Rightarrow> 0 < blob_file_target_size opts \<and> fm_NewFile (ge_files env) tf = (Inr n, gj_db j) \<and>
           (\<exists>out. bb_reach (ge_lib env) opts (ge_version env) b (map snd kept) (map (\<lambda>(idx, r). gc_context n (rec_key r) idx) kept) out \<and>
                  gj_rewrite_batches j = map batch_of out)))"

lemma gc_inv_core:
  assumes "core j' = core j"
  shows "gc_inv env tf j' kept = gc_inv env tf j kept"
proof -
  have e: "gj_gc j' = gj_gc j" "gj_builders j' = gj_builders j" "gj_file_size j' = gj_file_size j" "gj_current j' = gj_current j"
    "gj_db j' = gj_db j" "gj_rewrite_batches j' = gj_rewrite_batches j"
    using assms by (simp_all add: core_def)
  show ?thesis unfolding gc_inv_def e ..
qed

lemma gc_open_output_inv:
  assumes "gc_inv env tf j kept" "blob_run_mode (gc_options (gj_gc j)) \<noteq> kFallback" "gc_open_output env j = (OK, j')"
  shows "gc_inv env tf j' kept \<and> gj_current j' \<noteq> None \<and> gj_gc j' = gj_gc j \<and> gj_last_key j' = gj_last_key j \<and>
    gj_last_key_is_fresh j' = gj_last_key_is_fresh j \<and> gj_use_bitmap j' = gj_use_bitmap j \<and> gj_offload j' = gj_offload j \<and> gj_cf j' = gj_cf j"
proof (cases "gj_current j")
  case None
  then obtain n tf' where "fm_NewFile (ge_files env) tf = (Inr n, tf')" "0 < blob_file_target_size (gc_options (gj_gc j))"
    "j' = j\<lparr> gj_db := tf', gj_file_size := 0,
       gj_current := Some (n, BlobFileBuilder_new (ge_lib env) (gc_options (gj_gc j)) \<lparr> wf_contents = [], wf_ops = 0 \<rparr> (ge_version env)) \<rparr>"
    using assms by (auto simp: gc_open_output_def gc_inv_def fm_NewFile_def Let_def word_gt_0 split: if_splits prod.splits sum.splits)
  then show ?thesis using assms None bb_reach.bb_start by (auto simp: gc_inv_def Let_def)
next
  case (Some nb)
  then have "j' = j" using assms by (cases nb) (auto simp: gc_open_output_def gc_inv_def Let_def word_gt_0)
  then show ?thesis using assms(1) Some by simp
qed

lemma gc_rewrite_inv:
  assumes "gc_inv env tf j kept" "blob_run_mode (gc_options (gj_gc j)) \<noteq> kFallback" "gc_rewrite env idx r j = (Continue, j')"
  shows "gc_inv env tf j' (kept @ [(idx, r)]) \<and> gj_last_key j' = gj_last_key j \<and> gj_last_key_is_fresh j' = gj_last_key_is_fresh j \<and>
    gj_gc j' = gj_gc j \<and> gj_use_bitmap j' = gj_use_bitmap j \<and> gj_offload j' = gj_offload j \<and> gj_cf j' = gj_cf j"
proof -
  obtain j1 where j1: "gc_open_output env j = (OK, j1)"
    using assms(3) by (auto simp: gc_rewrite_def split: prod.splits if_splits)
  note o1 = gc_open_output_inv [OF assms(1,2) j1]
  obtain n b where nb: "gj_current j1 = Some (n, b)" using o1 by auto
  obtain out where out: "bb_reach (ge_lib env) (gc_options (gj_gc j)) (ge_version env) b (map snd kept)
      (map (\<lambda>(idx, r). gc_context n (rec_key r) idx) kept) out" "gj_rewrite_batches j1 = map batch_of out"
    "0 < blob_file_target_size (gc_options (gj_gc j))" "fm_NewFile (ge_files env) tf = (Inr n, gj_db j1)" "gj_builders j1 = []" "gj_file_size j1 = 0"
    using o1 nb assms(2) by (auto simp: gc_inv_def Let_def)
  obtain b' ctxs where add: "bb_Add (ge_lib env) r (gc_context n (rec_key r) idx) b = (b', ctxs)" by fastforce
  obtain bs where bs: "BatchWriteNewIndices ctxs (OK, gj_rewrite_batches j1) = (OK, bs)"
    "j' = (on_metrics (\<lambda>m. m\<lparr> gm_bytes_written := gm_bytes_written m + of_nat (BlobRecord_size r) \<rparr>) j1)
       \<lparr> gj_current := Some (n, b'), gj_rewrite_batches := bs \<rparr>"
    using assms(3) j1 nb add by (auto simp: gc_rewrite_def Let_def split: prod.splits if_splits)
  have "bb_reach (ge_lib env) (gc_options (gj_gc j)) (ge_version env) b' (map snd kept @ [r])
      (map (\<lambda>(idx, r). gc_context n (rec_key r) idx) kept @ [gc_context n (rec_key r) idx]) (out @ ctxs)"
    by (rule bb_reach.bb_add [OF out(1) _ add]) (simp add: gc_context_def)
  then show ?thesis
    using o1 out bs(2) BatchWriteNewIndices_OK [OF bs(1)] assms(2) by (auto simp: gc_inv_def Let_def)
qed

lemma gc_fallback_inv:
  assumes "gc_inv env tf j kept" "blob_run_mode (gc_options (gj_gc j)) = kFallback" "gc_fallback idx r j = (Continue, j')"
  shows "gc_inv env tf j' (kept @ [(idx, r)]) \<and> gj_last_key j' = gj_last_key j \<and> gj_last_key_is_fresh j' = gj_last_key_is_fresh j \<and>
    gj_gc j' = gj_gc j \<and> gj_use_bitmap j' = gj_use_bitmap j \<and> gj_offload j' = gj_offload j \<and> gj_cf j' = gj_cf j"
  using assms by (auto simp: gc_fallback_def gc_inv_def Let_def inline_batch_def GCWriteCallback_new_def WriteBatch_Put_def split: if_splits)

section \<open>Every live record is kept\<close>

text \<open>
  The reads of the run agree with the database on the \<open>bad\<close> indexes: nobody writes one again, so a
  key that has one when the rewriting begins had it all along.
\<close>

definition reads_stable :: "GcEnv \<Rightarrow> (BlobIndex \<Rightarrow> bool) \<Rightarrow> lsm \<Rightarrow> bool" where
  "reads_stable env bad db \<longleftrightarrow>
     (\<forall>i k. ge_get env i k \<noteq> ReadError OK) \<and>
     (\<forall>i k e idx. ge_get env i k = ReadEntry e \<and> refers (db k) idx \<and> bad idx \<longrightarrow> e = db k)"

definition has_kept :: "(BlobIndex \<times> BlobRecord) list \<Rightarrow> bytes \<Rightarrow> BlobIndex \<Rightarrow> bool" where
  "has_kept kept k idx \<longleftrightarrow> (\<exists>(i, r)\<in>set kept. rec_key r = k \<and> BlobIndex_eq i idx)"

definition collects :: "(BlobIndex \<Rightarrow> bool) \<Rightarrow> lsm \<Rightarrow> (BlobIndex \<times> BlobRecord) list \<Rightarrow> (BlobIndex \<times> BlobRecord) list \<Rightarrow> bool" where
  "collects bad db xs kept \<longleftrightarrow>
     (\<forall>(i, r)\<in>set xs. \<forall>idx. refers (db (rec_key r)) idx \<and> bad idx \<and> BlobIndex_eq i idx \<longrightarrow> has_kept kept (rec_key r) idx)"

definition fresh_ok :: "(BlobIndex \<Rightarrow> bool) \<Rightarrow> lsm \<Rightarrow> GcJob \<Rightarrow> (BlobIndex \<times> BlobRecord) list \<Rightarrow> bool" where
  "fresh_ok bad db j kept \<longleftrightarrow>
     (gj_last_key_is_fresh j \<longrightarrow> (\<forall>idx. refers (db (gj_last_key j)) idx \<and> bad idx \<longrightarrow> has_kept kept (gj_last_key j) idx))"

lemma refers_unique: "\<lbrakk>refers e idx; refers e idx'\<rbrakk> \<Longrightarrow> idx = idx'"
  by (auto simp: refers_def)

lemma has_kept_append: "has_kept (xs @ ys) k idx \<longleftrightarrow> has_kept xs k idx \<or> has_kept ys k idx"
  by (auto simp: has_kept_def)

lemma gc_body_step:
  assumes "gc_body env idx r None j = (Continue, j')" "\<not> gj_use_bitmap j" "reads_stable env bad db"
    and "gc_inv env tf j kept" "collects bad db xs kept" "fresh_ok bad db j kept"
  shows "\<exists>kept'. gc_inv env tf j' kept' \<and> collects bad db (xs @ [(idx, r)]) kept' \<and> fresh_ok bad db j' kept' \<and>
    set kept' \<subseteq> insert (idx, r) (set kept) \<and> \<not> gj_use_bitmap j' \<and> gj_gc j' = gj_gc j \<and> gj_offload j' = gj_offload j \<and> gj_cf j' = gj_cf j"
  using assms(1,2)
proof (cases rule: gc_body_cases)
  case skip
  then have "gj_gc j' = gj_gc j \<and> gj_offload j' = gj_offload j \<and> gj_cf j' = gj_cf j \<and> \<not> gj_use_bitmap j'" using assms(2) by (simp add: core_def)
  moreover have "has_kept kept (rec_key r) idx'" if "refers (db (rec_key r)) idx'" "bad idx'" for idx'
    using assms(6) skip that by (simp add: fresh_ok_def)
  ultimately show ?thesis
    using skip(1-4) gc_inv_core [OF skip(5), of env tf kept] assms(4-6) by (intro exI [of _ kept]) (auto simp: collects_def fresh_ok_def)
next
  case (dead e)
  then have "gj_gc j' = gj_gc j \<and> gj_offload j' = gj_offload j \<and> gj_cf j' = gj_cf j \<and> \<not> gj_use_bitmap j'" using assms(2) by (simp add: core_def)
  moreover have "\<not> BlobIndex_eq idx idx'" if "refers (db (rec_key r)) idx'" "bad idx'" for idx'
    using assms(3) dead(1,2) that unfolding reads_stable_def by metis
  ultimately show ?thesis
    using dead(3,4) gc_inv_core [OF dead(5), of env tf kept] assms(4,5) by (intro exI [of _ kept]) (auto simp: collects_def fresh_ok_def)
next
  case (live e j1)
  let ?kept = "kept @ [(idx, r)]"
  have inv: "gc_inv env tf j1 kept" using gc_inv_core [OF live(5)] assms(4) by simp
  have kept: "has_kept ?kept (rec_key r) idx'" if "refers (db (rec_key r)) idx'" "bad idx'" for idx'
  proof -
    have "e = db (rec_key r)" using assms(3) live(1) that unfolding reads_stable_def by blast
    then show ?thesis using live(2) that refers_unique by (auto simp: has_kept_def)
  qed
  have j': "gc_inv env tf j' ?kept \<and> gj_last_key j' = gj_last_key j1 \<and> gj_last_key_is_fresh j' = gj_last_key_is_fresh j1 \<and>
    gj_gc j' = gj_gc j1 \<and> gj_use_bitmap j' = gj_use_bitmap j1 \<and> gj_offload j' = gj_offload j1 \<and> gj_cf j' = gj_cf j1"
  proof (cases "blob_run_mode (gc_options (gj_gc j1)) = kFallback")
    case True
    then show ?thesis using gc_fallback_inv [OF inv True] live(6) by simp
  next
    case False
    then show ?thesis using gc_rewrite_inv [OF inv False] live(6) by simp
  qed
  moreover have "collects bad db (xs @ [(idx, r)]) ?kept" using assms(5) kept by (auto simp: collects_def has_kept_append)
  moreover have "fresh_ok bad db j' ?kept" using kept live(3) j' by (simp add: fresh_ok_def)
  ultimately show ?thesis using live(5) assms(2) by (intro exI [of _ ?kept]) (auto simp: core_def)
qed

lemma gc_items_inv:
  assumes "reads_stable env bad db"
    and "gc_items env xs j = (Continue, j')" "\<not> gj_use_bitmap j" "gc_inv env tf j kept" "collects bad db ys kept" "fresh_ok bad db j kept"
    and "set kept \<subseteq> set ys"
  shows "\<exists>kept'. gc_inv env tf j' kept' \<and> collects bad db (ys @ xs) kept' \<and> set kept' \<subseteq> set (ys @ xs) \<and>
    gj_gc j' = gj_gc j \<and> gj_offload j' = gj_offload j \<and> gj_cf j' = gj_cf j"
  using assms(2-7)
proof (induction xs arbitrary: j kept ys)
  case Nil
  then show ?case by (intro exI [of _ kept]) auto
next
  case (Cons x xs)
  obtain idx r where x: "x = (idx, r)" by (cases x)
  obtain j1 where j1: "gc_body env idx r None j = (Continue, j1)" "gc_items env xs (count_read j1) = (Continue, j')"
    using Cons.prems(1) by (auto simp: x split: prod.splits gc_ctl.splits)
  obtain kept1 where k: "gc_inv env tf j1 kept1" "collects bad db (ys @ [(idx, r)]) kept1" "fresh_ok bad db j1 kept1"
    "set kept1 \<subseteq> insert (idx, r) (set kept)" "\<not> gj_use_bitmap j1" "gj_gc j1 = gj_gc j" "gj_offload j1 = gj_offload j" "gj_cf j1 = gj_cf j"
    using gc_body_step [OF j1(1) Cons.prems(2) assms(1) Cons.prems(3-5)] by blast
  have c: "gc_inv env tf (count_read j1) kept1" using gc_inv_core [of "count_read j1" j1] k(1) by (simp add: core_def count_read_def)
  have "set kept1 \<subseteq> set (ys @ [(idx, r)])" "fresh_ok bad db (count_read j1) kept1" "\<not> gj_use_bitmap (count_read j1)"
    using k(3,4,5) Cons.prems(6) by (auto simp: fresh_ok_def count_read_def)
  from Cons.IH [OF j1(2) this(3) c k(2) this(2,1)] show ?case using k(6-8) by (simp add: x count_read_def)
qed

section \<open>The run\<close>

lemma gc_body_break:
  assumes "gc_body env idx r v j = (Break s, j')" "\<not> gj_use_bitmap j" "\<forall>i k. ge_get env i k \<noteq> ReadError OK"
  shows "s \<noteq> OK"
proof -
  have d: "fst (DiscardEntry r k idx m) = Inl OK \<Longrightarrow> r = ReadError OK" for r k m
    by (auto simp: DiscardEntry_def Let_def BlobIndex_DecodeFrom_error split: lsm_read.splits option.splits lsm_entry.splits sum.splits prod.splits)
  have f: "fst (gc_fallback idx r j) \<noteq> Break OK" for j
    by (auto simp: gc_fallback_def GCWriteCallback_new_def WriteBatch_Put_def split: if_splits)
  have w: "fst (gc_rewrite env idx r j) \<noteq> Break OK" for j
    by (auto simp: gc_rewrite_def Let_def split: prod.splits if_splits)
  have g: "fst (gc_discardable env idx r v j) \<noteq> Inl OK" if "\<not> gj_use_bitmap j" for j
    using that d [of "ge_get env (gj_reads j) (rec_key r)" "rec_key r" "gj_metrics j"] assms(3) by (auto simp: gc_discardable_def split: prod.splits)
  have de: "fst (gc_decide env idx r x) \<noteq> Break OK" if "fst x \<noteq> Inl OK" for x
    using that f w by (auto simp: gc_decide_def Let_def split: prod.splits sum.splits bool.splits)
  have "fst (gc_body env idx r v j) \<noteq> Break OK"
    unfolding gc_body_eq Let_def using de g assms(2) by (simp add: gc_enter_def)
  then show ?thesis using assms(1) by auto
qed

lemma gc_items_break:
  assumes "\<forall>i k. ge_get env i k \<noteq> ReadError OK" "gc_items env xs j = (Break s, j')" "\<not> gj_use_bitmap j"
  shows "s \<noteq> OK"
  using assms(2,3)
proof (induction xs arbitrary: j)
  case (Cons x xs)
  obtain idx r where x: "x = (idx, r)" by (cases x)
  obtain c j1 where c: "gc_body env idx r None j = (c, j1)" by fastforce
  show ?case
  proof (cases c)
    case (Break s')
    then show ?thesis using gc_body_break [of env idx r None j s' j1] c Cons.prems assms(1) by (simp add: x)
  next
    case Continue
    then have "\<not> gj_use_bitmap (count_read j1)" using gc_body_use_bitmap [of env idx r None j j1] c Cons.prems(2) by (simp add: count_read_def)
    then show ?thesis using Cons.IH Cons.prems(1) c Continue by (simp add: x)
  qed
qed simp

lemma DoRunGC_items:
  assumes "BuildIterator env j = (OK, Some (BlobFileMergeIterator_new its cmp))" "comparator cmp" "list_all2 (seeks (ge_rlib env)) its xss"
    and "concat xss \<noteq> []" "\<not> gj_use_bitmap j" "\<forall>i k. ge_get env i k \<noteq> ReadError OK"
  obtains (stopped) s j' where "DoRunGC env j = Some (s, j')" "s \<noteq> OK"
  | (ran) xs j' where "DoRunGC env j = Some (OK, push_current j')" "mset xs = mset (concat xss)" "gc_items env xs (count_read j) = (Continue, j')"
proof -
  obtain m xs m' where m: "mi_SeekToFirst (ge_rlib env) (BlobFileMergeIterator_new its cmp) = Some m"
    "mi_scan (Suc (length (concat xss))) (ge_rlib env) m = Some (xs, m')" "mset xs = mset (concat xss)"
    "mi_get_status m' = (if concat xss = [] then Aborted ''No iterator is valid'' else OK)"
    using merge_scan [OF assms(2,3)] by blast
  have ok: "mi_get_status m' = OK" using m(4) assms(4) by simp
  have v: "mi_Valid m"
  proof (rule ccontr)
    assume "\<not> mi_Valid m"
    then have "xs = []" using m(2) by simp
    then show False using m(3) assms(4) by simp
  qed
  have nb: "\<not> gj_use_bitmap (count_read j)" using assms(5) by (simp add: count_read_def)
  obtain c j' where c: "gc_items env xs (count_read j) = (c, j')" by fastforce
  obtain m2 where l: "gc_loop env m (count_read j) = Some (ctl_status c, m2, j')" "mi_get_status m2 = OK"
    using gc_loop_items [OF m(2) nb ok] c by auto
  have run: "DoRunGC env j = (if ctl_status c = OK then
       (if gj_current j' \<noteq> None \<and> bb_status (snd (the (gj_current j'))) \<noteq> OK then Some (Undefined ''assert'', j') else Some (OK, push_current j'))
     else Some (ctl_status c, j'))"
    using assms(1) m(1) v l by (simp add: DoRunGC_def)
  show thesis
  proof (cases c)
    case (Break s)
    then show thesis using stopped [of s j'] run gc_items_break [OF assms(6) c [unfolded Break] nb] by simp
  next
    case Continue
    then show thesis using stopped [of "Undefined ''assert''" j'] ran [of j' xs] run m(3) c by (auto split: if_splits)
  qed
qed

end
