(* ===== verification/Gc_Correct.thy ===== *)
theory Gc_Correct
  imports Gc_Collect
begin

text \<open>
  A garbage collection on the host from its inputs to the deletion of the inputs: every key reads as
  before, and no key refers to an input any more.
\<close>

section \<open>Files stay where they are\<close>

text \<open>No operation on the file set but the purge forgets a file or changes its size.\<close>

definition st_keeps :: "BlobStorage \<Rightarrow> BlobStorage \<Rightarrow> bool" where
  "st_keeps st st' \<longleftrightarrow>
     (\<forall>n f. FindFile n st = Some f \<longrightarrow> (\<exists>f'. FindFile n st' = Some f' \<and> file_number f' = file_number f \<and> file_size f' = file_size f))"

definition fs_keeps :: "BlobFileSet \<Rightarrow> BlobFileSet \<Rightarrow> bool" where
  "fs_keeps fs fs' \<longleftrightarrow> (\<forall>cfid st. GetBlobStorage cfid fs = Some st \<longrightarrow> (\<exists>st'. GetBlobStorage cfid fs' = Some st' \<and> st_keeps st st'))"

lemma st_keeps_refl [simp]: "st_keeps st st"
  by (simp add: st_keeps_def)

lemma st_keeps_trans: "\<lbrakk>st_keeps a b; st_keeps b c\<rbrakk> \<Longrightarrow> st_keeps a c"
  unfolding st_keeps_def by metis

lemma fs_keeps_refl [simp]: "fs_keeps fs fs"
  by (simp add: fs_keeps_def)

lemma fs_keeps_trans: "\<lbrakk>fs_keeps a b; fs_keeps b c\<rbrakk> \<Longrightarrow> fs_keeps a c"
  unfolding fs_keeps_def using st_keeps_trans by metis

lemma st_keeps_update:
  assumes "files st' = upd n g (files st)" "\<And>f. file_number (g f) = file_number f \<and> file_size (g f) = file_size f"
  shows "st_keeps st st'"
  using assms by (auto simp: st_keeps_def FindFile_def map_of_upd)

lemma st_keeps_files: "files st' = files st \<Longrightarrow> st_keeps st st'"
  by (simp add: st_keeps_def FindFile_def)

lemma fs_keeps_upd:
  assumes "GetBlobStorage cfid fs = Some st" "st_keeps st st'"
  shows "fs_keeps fs (fs\<lparr> column_families := upd cfid (\<lambda>_. st') (column_families fs) \<rparr>)"
  using assms by (auto simp: fs_keeps_def GetBlobStorage_def map_of_upd)

lemma fs_keeps_families: "column_families fs' = column_families fs \<Longrightarrow> fs_keeps fs fs'"
  by (simp add: fs_keeps_def GetBlobStorage_def)

lemma AddBlobFile_keeps: "st_keeps st (AddBlobFile f st)"
  by (simp add: st_keeps_def FindFile_AddBlobFile)

lemma MarkFileObsolete_keeps: "st_keeps st (snd (MarkFileObsolete n seq st))"
  by (auto simp: MarkFileObsolete_def split: option.splits intro!: st_keeps_update)

lemma while_ok_keeps:
  assumes "\<And>x st. R st (snd (f x st))" "\<And>a. R a a" "\<And>a b c. \<lbrakk>R a b; R b c\<rbrakk> \<Longrightarrow> R a c"
  shows "R st (snd (while_ok f xs st))"
proof (induction xs arbitrary: st)
  case (Cons x xs)
  then show ?case using assms(1) [of st x] assms(3) by (auto split: prod.splits)
qed (simp add: assms(2))

lemma fold_keeps:
  assumes "\<And>x st. R st (f x st)" "\<And>a. R a a" "\<And>a b c. \<lbrakk>R a b; R b c\<rbrakk> \<Longrightarrow> R a c"
  shows "R st (fold f xs st)"
proof (induction xs arbitrary: st)
  case (Cons x xs)
  then show ?case using assms(1) [of st x] assms(3) by auto
qed (simp add: assms(2))

lemma cc_Apply_keeps: "st_keeps st (snd (cc_Apply c st))"
proof -
  let ?add = "\<lambda>(number, file) st. if has_key number (cc_deleted_files c) then st else AddBlobFile file st"
  let ?mark = "\<lambda>(number, seq) st. if has_key number (cc_added_files c) then (OK, st)
     else case MarkFileObsolete number seq st of (found, st) \<Rightarrow> (if found then OK else NotFound ''Invalid file number'', st)"
  have a: "st_keeps st (fold ?add (cc_added_files c) st)"
    by (rule fold_keeps [where R = st_keeps]) (auto simp: AddBlobFile_keeps intro: st_keeps_trans)
  have m: "st_keeps st (snd (while_ok ?mark (cc_deleted_files c) st))" for st
  proof (rule while_ok_keeps [where R = st_keeps])
    show "st_keeps st (snd (?mark x st))" for x st
      using MarkFileObsolete_keeps [of st "fst x" "snd x"] by (auto split: prod.splits)
  qed (auto intro: st_keeps_trans)
  have "st_keeps st (ComputeGCScore st)" for st by (rule st_keeps_files) simp
  then show ?thesis
    using st_keeps_trans [OF a m] st_keeps_trans by (fastforce simp: cc_Apply_def Let_def split: prod.splits)
qed

lemma ec_Apply_keeps: "fs_keeps fs (snd (ec_Apply c fs))"
proof -
  have "fs_keeps fs (snd (while_ok (\<lambda>(cfid, cc) fs. case GetBlobStorage cfid fs of
      None \<Rightarrow> (OK, fs)
    | Some storage \<Rightarrow> (case cc_Apply cc storage of
        (s, storage) \<Rightarrow> (s, fs\<lparr> column_families := upd cfid (\<lambda>_. storage) (column_families fs) \<rparr>))) ccs fs))" for ccs
  proof (rule while_ok_keeps [where R = fs_keeps])
    fix x :: "u32 \<times> CFEditCollector" and fs :: BlobFileSet
    obtain cfid cc where x: "x = (cfid, cc)" by (cases x)
    show "fs_keeps fs (snd ((case x of (cfid, cc) \<Rightarrow> \<lambda>fs. case GetBlobStorage cfid fs of
        None \<Rightarrow> (OK, fs)
      | Some storage \<Rightarrow> (case cc_Apply cc storage of
          (s, storage) \<Rightarrow> (s, fs\<lparr> column_families := upd cfid (\<lambda>_. storage) (column_families fs) \<rparr>))) fs))"
      using fs_keeps_upd [of cfid fs] cc_Apply_keeps [of _ cc] by (auto simp: x split: option.splits prod.splits) (metis snd_conv)
  qed (auto intro: fs_keeps_trans)
  then show ?thesis by (simp add: ec_Apply_def)
qed

lemma LogAndApply_keeps: "fs_keeps fs (snd (LogAndApply io e fs))"
proof -
  have m: "fs_keeps fs (fs\<lparr> manifest := r \<rparr>)" for r by (rule fs_keeps_families) simp
  have "fs_keeps fs (snd (ec_Apply c (fs\<lparr> manifest := r \<rparr>)))" for c r by (rule fs_keeps_trans [OF m ec_Apply_keeps])
  then show ?thesis using m by (auto simp: LogAndApply_def Let_def split: prod.splits option.splits)
qed

lemma UpdateLiveDataSize_keeps: "file_number (snd (UpdateLiveDataSize d f)) = file_number f \<and> file_size (snd (UpdateLiveDataSize d f)) = file_size f"
  by (simp add: UpdateLiveDataSize_def Let_def)

lemma UpdateInvalidEntryIndexes_keeps:
  "file_number (snd (UpdateInvalidEntryIndexes b f)) = file_number f \<and> file_size (snd (UpdateInvalidEntryIndexes b f)) = file_size f"
  by (simp add: UpdateInvalidEntryIndexes_def Let_def split: option.splits prod.splits)

lemma drop_from_file_keeps: "fs_keeps (snd x) (snd (drop_from_file j st d x))"
proof (cases "GetBlobStorage (gj_cf j) (snd x)")
  case None
  then show ?thesis by (cases x; cases d) (simp add: drop_from_file_def)
next
  case (Some bs)
  obtain n size s fs where x: "d = (n, size)" "x = (s, fs)" by (cases x; cases d) simp
  show ?thesis
  proof (cases "FindFile n bs")
    case None
    then show ?thesis using Some by (simp add: drop_from_file_def x)
  next
    case f: (Some f)
    have "\<exists>f' stats. snd (drop_from_file j st d x) = fs\<lparr> column_families := upd (gj_cf j) (\<lambda>_. ComputeGCScore (update_file n (\<lambda>_. f') (bs\<lparr> st_stats := stats \<rparr>))) (column_families fs) \<rparr> \<and>
        file_number f' = file_number f \<and> file_size f' = file_size f"
      using Some f UpdateLiveDataSize_keeps [of "- size" f] UpdateInvalidEntryIndexes_keeps [of _ "snd (UpdateLiveDataSize (- size) f)"]
      by (auto simp: drop_from_file_def x Let_def split: prod.splits if_splits) (metis snd_conv)+
    then obtain f' stats where f': "snd (drop_from_file j st d x) = fs\<lparr> column_families := upd (gj_cf j) (\<lambda>_. ComputeGCScore (update_file n (\<lambda>_. f') (bs\<lparr> st_stats := stats \<rparr>))) (column_families fs) \<rparr>"
      "file_number f' = file_number f" "file_size f' = file_size f" by blast
    have "st_keeps bs (ComputeGCScore (update_file n (\<lambda>_. f') (bs\<lparr> st_stats := stats \<rparr>)))"
      using f f'(2,3) by (auto simp: st_keeps_def FindFile_def map_of_upd)
    then show ?thesis using fs_keeps_upd [of "gj_cf j" fs bs] Some f'(1) by (simp add: x)
  qed
qed

lemma drops_keep: "fs_keeps (snd x) (snd (fold (drop_from_file j st) ds x))"
  by (rule fold_keeps [where R = "\<lambda>x y. fs_keeps (snd x) (snd y)"]) (auto simp: drop_from_file_keeps intro: fs_keeps_trans)

text \<open>The job after the rewriting, and after the deletion of the inputs.\<close>

lemma Rewrite_job:
  assumes "RewriteValidKeyToLSM env j db = ((s, j'), db')"
  shows "fs_keeps (tf_set (gj_db j)) (tf_set (gj_db j')) \<and> tf_disk (gj_db j') = tf_disk (gj_db j) \<and> gj_cf j' = gj_cf j \<and> gj_gc j' = gj_gc j \<and>
    (\<exists>s1 st. rewrite_loop env j 0 OK (gj_rewrite_batches j) \<lparr> rw_lsm = db, rw_dropped = [], rw_dropped_index = [], rw_metrics = gj_metrics j \<rparr> = (s1, st) \<and>
       rw_lsm st = db' \<and> (s = OK \<longrightarrow> s1 = OK \<or> is_busy s1))"
proof -
  obtain s1 st where l: "rewrite_loop env j 0 OK (gj_rewrite_batches j) \<lparr> rw_lsm = db, rw_dropped = [], rw_dropped_index = [], rw_metrics = gj_metrics j \<rparr> = (s1, st)"
    by fastforce
  let ?s = "if is_busy s1 then OK else s1" and ?j = "j\<lparr> gj_metrics := rw_metrics st \<rparr>"
  let ?fs = "fold (drop_from_file ?j st) (rw_dropped st) (OK, tf_set (gj_db j))"
  have "fs_keeps (tf_set (gj_db j)) (snd ?fs)" using drops_keep [of "(OK, tf_set (gj_db j))" ?j st] by simp
  then show ?thesis using assms l by (auto simp: RewriteValidKeyToLSM_def Let_def split: if_splits prod.splits)
qed

lemma DeleteInput_job:
  assumes "DeleteInputBlobFiles env j = (s, j')"
  shows "fs_keeps (tf_set (gj_db j)) (tf_set (gj_db j')) \<and> tf_disk (gj_db j') = tf_disk (gj_db j) \<and> gj_cf j' = gj_cf j \<and> gj_gc j' = gj_gc j"
proof -
  have "j' = snd (DeleteInputBlobFiles env j)" using assms by simp
  then show ?thesis
    using LogAndApply_keeps [of "tf_set (gj_db j)" "fe_manifest (ge_files env)"] by (simp add: DeleteInputBlobFiles_def Let_def case_prod_unfold)
qed

section \<open>Installing the output\<close>

lemma fm_BatchFinishFiles_keeps: "fs_keeps (tf_set tf) (tf_set (snd (fm_BatchFinishFiles env cfid fs tf)))"
proof -
  have w: "tf_set (snd (snd (while_ok (fm_finish_one env) fs (e, tf)))) = tf_set tf" for e fs tf
  proof (induction fs arbitrary: e tf)
    case (Cons x fs)
    show ?case
    proof (cases "fm_finish_one env x (e, tf)")
      case (fields s e' tf')
      then have "tf_set tf' = tf_set tf" by (auto simp: fm_finish_one_def Let_def split: prod.splits if_splits)
      then show ?thesis using Cons.IH [of e' tf'] fields by simp
    qed
  qed simp
  obtain s e tf1 where r: "while_ok (fm_finish_one env) fs (SetColumnFamilyID cfid VersionEdit_default, tf) = (s, e, tf1)" by (metis prod.exhaust)
  have "tf_set tf1 = tf_set tf" using w [of fs "SetColumnFamilyID cfid VersionEdit_default" tf] r by simp
  then show ?thesis
    using LogAndApply_keeps [of "tf_set tf" "fe_manifest env" e] r
    by (auto simp: fm_BatchFinishFiles_def Let_def SetBGError_def split: prod.splits)
qed

lemma fm_BatchFinishFiles_one:
  assumes "fm_BatchFinishFiles env cfid [(meta, n, f)] tf = (OK, tf')" "fs_inv (tf_set tf)" "GetBlobStorage cfid (tf_set tf) \<noteq> None"
    and "\<not> is_obsolete meta" "file_number meta = n"
  shows "tf_disk tf' = (tf_disk tf)(n \<mapsto> wf_contents f) \<and> (\<exists>st. GetBlobStorage cfid (tf_set tf') = Some st \<and> FindFile n st = Some meta)"
proof -
  let ?e = "ve_AddBlobFile meta (SetColumnFamilyID cfid VersionEdit_default)"
  let ?tf = "tf\<lparr> tf_disk := (tf_disk tf)(n \<mapsto> wf_contents f) \<rparr>"
  obtain fs' where l: "LogAndApply (fe_manifest env) ?e (tf_set tf) = (OK, fs')" "tf_set tf' = fs'" "tf_disk tf' = (tf_disk tf)(n \<mapsto> wf_contents f)"
    using assms(1) by (auto simp: fm_BatchFinishFiles_def fm_finish_one_def Let_def SetBGError_def status_ok_OK split: prod.splits if_splits)
  have e: "ve_added_files ?e = [meta]" "ve_deleted_files ?e = []" "ve_column_family_id ?e = cfid"
    by (simp_all add: ve_AddBlobFile_def SetColumnFamilyID_def VersionEdit_default_def)
  have "fs_live fs' cfid n = Some meta"
  proof (rule LogAndApply_cases [OF assms(2) _ l(1)])
    show "\<forall>f\<in>set (ve_added_files ?e). \<not> is_obsolete f" using e(1) assms(4) by simp
  qed (use assms(3,5) e in \<open>simp_all add: view_after_def edit_cc_def\<close>)
  then show ?thesis using l by (auto simp: fs_live_def live_at_def split: option.splits if_splits)
qed

lemma install_none:
  assumes "InstallOutputBlobFiles env j = (s, j')" "gj_builders j = []"
  shows "gj_rewrite_batches j' = gj_rewrite_batches j \<and> fs_keeps (tf_set (gj_db j)) (tf_set (gj_db j')) \<and> tf_disk (gj_db j') = tf_disk (gj_db j) \<and>
    gj_cf j' = gj_cf j \<and> gc_inputs (gj_gc j') = gc_inputs (gj_gc j) \<and> gj_offload j' = gj_offload j"
proof -
  have "tf_disk (snd (fm_BatchFinishFiles fe cfid [] tf)) = tf_disk tf" for fe cfid tf
    by (simp add: fm_BatchFinishFiles_def Let_def SetBGError_def split: prod.splits)
  moreover have "j' = snd (InstallOutputBlobFiles env j)" using assms(1) by simp
  ultimately show ?thesis
    using assms(2) fm_BatchFinishFiles_keeps [of "gj_db j" "ge_files env" "gj_cf j" "[]"]
    by (simp add: InstallOutputBlobFiles_def Let_def case_prod_unfold)
qed

lemma output_meta_fields:
  "file_number (output_meta n b) = n" "file_size (output_meta n b) = GetFileSize (bb_file b)" "\<not> is_obsolete (output_meta n b)"
  by (simp_all add: output_meta_def BlobFileMeta_new_def is_obsolete_def FileStateTransit_def transit_def)

lemma install_one:
  assumes "InstallOutputBlobFiles env j = (OK, j')" "gj_builders j = [(n, b)]" "bb_Finish (ge_lib env) b = (b', o1)"
    and "fs_inv (tf_set (gj_db j))" "GetBlobStorage (gj_cf j) (tf_set (gj_db j)) \<noteq> None"
  shows "gj_rewrite_batches j' = gj_rewrite_batches j @ map batch_of o1 \<and> fs_keeps (tf_set (gj_db j)) (tf_set (gj_db j')) \<and>
    tf_disk (gj_db j') = (tf_disk (gj_db j))(n \<mapsto> wf_contents (bb_file b')) \<and>
    (\<exists>st f. GetBlobStorage (gj_cf j) (tf_set (gj_db j')) = Some st \<and> FindFile n st = Some f \<and> file_number f = n \<and> file_size f = GetFileSize (bb_file b')) \<and>
    gj_cf j' = gj_cf j \<and> gc_inputs (gj_gc j') = gc_inputs (gj_gc j) \<and> gj_offload j' = gj_offload j"
proof -
  obtain bs where bs: "BatchWriteNewIndices o1 (bb_status b', gj_rewrite_batches j) = (OK, bs)"
    using assms(1-3) by (auto simp: InstallOutputBlobFiles_def Let_def split: prod.splits if_splits)
  obtain tf where tf: "fm_BatchFinishFiles (ge_files env) (gj_cf j) [(output_meta n b', n, bb_file b')] (gj_db j) = (OK, tf)"
    "gj_db j' = tf" "gj_rewrite_batches j' = bs" "gj_cf j' = gj_cf j" "gj_offload j' = gj_offload j"
    "gj_gc j' = AddOutputFile (file_number (output_meta n b')) (gj_gc j)"
    using assms(1-3) bs by (auto simp: InstallOutputBlobFiles_def Let_def split: prod.splits if_splits)
  have "gc_inputs (gj_gc j') = gc_inputs (gj_gc j)" by (simp add: tf(6) AddOutputFile_def)
  then show ?thesis
    using fm_BatchFinishFiles_one [OF tf(1) assms(4,5) output_meta_fields(3,1)] output_meta_fields [of n b'] tf BatchWriteNewIndices_OK [OF bs]
      fm_BatchFinishFiles_keeps [of "gj_db j" "ge_files env" "gj_cf j" "[(output_meta n b', n, bb_file b')]"] by auto
qed

section \<open>Reading from the disk\<close>

text \<open>A cache of readers with nothing in it, over the files on disk; reads of the disk do not fail.\<close>

definition disk_files :: "(u64 \<Rightarrow> bytes option) \<Rightarrow> BlobFileCache" where
  "disk_files disk =
     \<lparr> fc_open = \<lambda>n. case disk n of None \<Rightarrow> Inl (IOError []) | Some c \<Rightarrow> Inr \<lparr> rf_contents = c, rf_io = \<lambda>_ _. OK \<rparr>,
       fc_prefix = \<lambda>_. None, fc_cache = \<lambda>_. None \<rparr>"

abbreviation job_record :: "GcEnv \<Rightarrow> GcJob \<Rightarrow> BlobIndex \<Rightarrow> status + BlobRecord" where
  "job_record env j \<equiv> index_record (ge_rlib env) (tf_set (gj_db j)) (gj_cf j) (disk_files (tf_disk (gj_db j))) Map.empty"

abbreviation job_value :: "GcEnv \<Rightarrow> GcJob \<Rightarrow> lsm_entry option \<Rightarrow> status + bytes" where
  "job_value env j \<equiv> read_value (ge_rlib env) (tf_set (gj_db j)) (gj_cf j) (disk_files (tf_disk (gj_db j))) Map.empty"

lemma builder_output_small:
  assumes "builder_output bl opts ver dict rs c" "length c < 2 ^ 32"
  shows "list_all (\<lambda>h. bh_size h < 2 ^ 32) (builder_handles bl opts ver dict rs)"
    and "list_all (\<lambda>w. length w < 2 ^ 32) (builder_records bl opts dict rs)" and "length rs < 2 ^ 32"
proof -
  let ?ws = "builder_records bl opts dict rs"
  have c: "length (concat ?ws) < 2 ^ 32" using assms by (simp add: builder_output_def builder_file_def Let_def)
  have w: "length (?ws ! i) < 2 ^ 32" if "i < length ?ws" for i
    using c concat_nth [OF that] by simp
  then show small: "list_all (\<lambda>w. length w < 2 ^ 32) ?ws" by (simp add: list_all_length)
  show "list_all (\<lambda>h. bh_size h < 2 ^ 32) (builder_handles bl opts ver dict rs)"
    unfolding list_all_length builder_handles_def length_handles
  proof (intro allI impI)
    fix i assume i: "i < length ?ws"
    have "unat (of_nat (length (?ws ! i)) :: u64) < 2 ^ 32" using w [OF i] by simp
    then show "bh_size (handles (length (BlobFileHeader_EncodeTo (builder_header opts ver))) 0 ?ws ! i) < 2 ^ 32"
      unfolding handles_nth [OF i] by (simp add: word_less_nat_alt)
  qed
  have "length ws \<le> length (concat ws)" if "\<forall>w\<in>set ws. w \<noteq> []" for ws :: "bytes list"
    using that by (induction ws) (auto simp: Suc_le_eq neq_Nil_conv)
  from this [of ?ws] show "length rs < 2 ^ 32" using c by (auto simp: builder_records_def framed_nonempty)
qed

text \<open>A file on disk with the records \<open>recs\<close>, each under its handle.\<close>

definition file_holds :: "GcEnv \<Rightarrow> TitanFiles \<Rightarrow> u32 \<Rightarrow> u64 \<Rightarrow> (BlobHandle \<times> BlobRecord) list \<Rightarrow> bool" where
  "file_holds env tf cfid n recs \<longleftrightarrow>
     (\<exists>c st f opts ver dict. tf_disk tf n = Some c \<and> length c < 2 ^ 32 \<and>
        GetBlobStorage cfid (tf_set tf) = Some st \<and> FindFile n st = Some f \<and> file_number f = n \<and> file_size f = of_nat (length c) \<and>
        builder_output (ge_lib env) opts ver dict (map snd recs) c \<and>
        map fst recs = builder_handles (ge_lib env) opts ver dict (map snd recs) \<and> list_all (BlobRecord_wf \<circ> snd) recs)"

lemma file_holds_read:
  assumes "file_holds env (gj_db j) (gj_cf j) n recs" "libs_agree (ge_lib env) (ge_rlib env)" "(h, r) \<in> set recs"
    and "bi_file_number idx = n" "BlobHandle_eq h (bi_blob_handle idx)"
  shows "job_record env j idx = Inr r"
proof -
  obtain c st f opts ver dict where s: "tf_disk (gj_db j) n = Some c" "length c < 2 ^ 32"
    "GetBlobStorage (gj_cf j) (tf_set (gj_db j)) = Some st" "FindFile n st = Some f" "file_number f = n" "file_size f = of_nat (length c)"
    "builder_output (ge_lib env) opts ver dict (map snd recs) c"
    "map fst recs = builder_handles (ge_lib env) opts ver dict (map snd recs)" "list_all (BlobRecord_wf \<circ> snd) recs"
    using assms(1) unfolding file_holds_def by blast
  let ?f = "\<lparr> rf_contents = c, rf_io = \<lambda>_ _. OK \<rparr>"
  have f: "reads_ok ?f" "rf_contents ?f = c" by (simp_all add: reads_ok_def)
  obtain i where i: "i < length recs" "recs ! i = (h, r)" using assms(3) by (auto simp: in_set_conv_nth)
  have out: "builder_output (ge_lib env) opts ver dict (map snd recs) (rf_contents ?f)" using s(7) by simp
  obtain rd where rd: "rd_Open (ge_rlib env) None ?f (of_nat (length c)) = Inr rd" "rd_file rd = ?f" "rd_dict rd = dict" "rd_cache_prefix rd = None"
    using rd_Open_built [OF f(1) assms(2) out, of None] by auto
  have "ReadRecord (ge_rlib env) rd (builder_handles (ge_lib env) opts ver dict (map snd recs) ! i) =
      Inr (map snd recs ! i, BlobRecord_EncodeTo (map snd recs ! i))"
    using i(1) s(9) by (intro ReadRecord_built [OF f(1) assms(2) out rd(2,3)] builder_output_small(2) [OF s(7,2)]) (simp_all add: list_all_length)
  then have "ReadRecord (ge_rlib env) rd h = Inr (r, BlobRecord_EncodeTo r)" using i by (simp add: s(8) [symmetric])
  then have "fst (rd_Get (ge_rlib env) rd h Map.empty) = Inr r" using rd(4) by (simp add: rd_Get_def)
  moreover have "rd_Get (ge_rlib env) rd (bi_blob_handle idx) Map.empty = rd_Get (ge_rlib env) rd h Map.empty"
    using assms(5) by (intro rd_Get_cong) (simp_all add: BlobHandle_eq_def)
  ultimately show ?thesis
    using s(1,3-6) rd(1) assms(4) by (simp add: index_record_def st_Get_def fc_Get_def fc_FindFile_def disk_files_def case_prod_unfold)
qed

lemma file_holds_keeps:
  assumes "file_holds env tf cfid n recs" "fs_keeps (tf_set tf) (tf_set tf')" "tf_disk tf' n = tf_disk tf n"
  shows "file_holds env tf' cfid n recs"
proof -
  obtain c st f opts ver dict where s: "tf_disk tf n = Some c" "length c < 2 ^ 32"
    "GetBlobStorage cfid (tf_set tf) = Some st" "FindFile n st = Some f" "file_number f = n" "file_size f = of_nat (length c)"
    "builder_output (ge_lib env) opts ver dict (map snd recs) c"
    "map fst recs = builder_handles (ge_lib env) opts ver dict (map snd recs)" "list_all (BlobRecord_wf \<circ> snd) recs"
    using assms(1) unfolding file_holds_def by blast
  obtain st' where st': "GetBlobStorage cfid (tf_set tf') = Some st'" "st_keeps st st'" using assms(2) s(3) unfolding fs_keeps_def by blast
  obtain f' where f': "FindFile n st' = Some f'" "file_number f' = n" "file_size f' = of_nat (length c)"
    using st'(2) s(4-6) unfolding st_keeps_def by metis
  have "tf_disk tf' n = Some c" using assms(3) s(1) by simp
  then show ?thesis unfolding file_holds_def using st'(1) f' s(2,7-9) by blast
qed

section \<open>The setting of a garbage collection\<close>

abbreviation in_inputs :: "BlobGC \<Rightarrow> BlobIndex \<Rightarrow> bool" where
  "in_inputs gc idx \<equiv> bi_file_number idx \<in> set (gc_inputs gc)"

text \<open>
  The inputs are files of the column family, of less than 4 GiB each, that hold the records \<open>recs\<close> and
  can be read; liveness is decided by reading the database and not by bitmaps; the indexes of the
  database into the inputs are those of their records. Other writers never write an index into
  an input, since only a garbage collection writes indexes of existing files and no two of them
  share an input.
\<close>

definition gc_setting :: "GcEnv \<Rightarrow> BlobGC \<Rightarrow> u32 \<Rightarrow> TitanFiles \<Rightarrow> (u64 \<Rightarrow> (BlobHandle \<times> BlobRecord) list) \<Rightarrow> lsm \<Rightarrow> bool" where
  "gc_setting env gc cfid tf recs db \<longleftrightarrow>
     \<not> use_bitmap (gc_options gc) \<and> comparator (opt_comparator (gc_options gc)) \<and> gc_inputs gc \<noteq> [] \<and>
     libs_agree (ge_lib env) (ge_rlib env) \<and> io_ok (ge_lib env) \<and> builder_supported (ge_lib env) (gc_options gc) (ge_version env) \<and>
     fs_inv (tf_set tf) \<and>
     (\<forall>n\<in>set (gc_inputs gc). file_holds env tf cfid n (recs n) \<and> recs n \<noteq> [] \<and> n < next_file_number (tf_set tf) \<and>
        (\<exists>f. ge_open env n = Inr f \<and> reads_ok f \<and> tf_disk tf n = Some (rf_contents f))) \<and>
     (\<forall>k idx. refers (db k) idx \<and> in_inputs gc idx \<longrightarrow>
        (\<exists>(h, r)\<in>set (recs (bi_file_number idx)). BlobHandle_eq h (bi_blob_handle idx) \<and> rec_key r = k)) \<and>
     reads_stable env (in_inputs gc) db \<and> foreign_good env (in_inputs gc) \<and> not_busy env"

definition input_items :: "(u64 \<Rightarrow> (BlobHandle \<times> BlobRecord) list) \<Rightarrow> u64 \<Rightarrow> (BlobIndex \<times> BlobRecord) list" where
  "input_items recs n = map (\<lambda>(h, r). (item_of n h, r)) (recs n)"

lemma input_seeks:
  assumes "file_holds env tf cfid n (recs n)" "recs n \<noteq> []" "ge_open env n = Inr f" "reads_ok f" "tf_disk tf n = Some (rf_contents f)"
    and "libs_agree (ge_lib env) (ge_rlib env)" "GetBlobStorage cfid (tf_set tf) = Some st" "FindFile n st = Some m"
  shows "seeks (ge_rlib env) (BlobFileIterator_new 0 f n (file_size m) opts' (- 1)) (input_items recs n)"
proof -
  obtain opts ver dict where s: "length (rf_contents f) < 2 ^ 32" "file_size m = of_nat (length (rf_contents f))"
    "builder_output (ge_lib env) opts ver dict (map snd (recs n)) (rf_contents f)"
    "map fst (recs n) = builder_handles (ge_lib env) opts ver dict (map snd (recs n))" "list_all (BlobRecord_wf \<circ> snd) (recs n)"
    using assms(1,5,7,8) unfolding file_holds_def by auto
  have "length (recs n) < 2 ^ 32" using builder_output_small(3) [OF s(3,1)] by simp
  then have e: "length (map snd (recs n)) \<le> unat (- 1 :: u64)" by (simp add: unsigned_minus_1_eq_mask mask_eq_exp_minus_1)
  have wf: "list_all BlobRecord_wf (map snd (recs n))" "map snd (recs n) \<noteq> []" using s(5) assms(2) by (simp_all add: list_all_length)
  have z: "zip (map (item_of n) (map fst (recs n))) (map snd (recs n)) = input_items recs n"
    by (simp add: input_items_def zip_map1 zip_map2 zip_same_conv_map case_prod_unfold)
  show ?thesis
    using output_scan [OF assms(4,6) s(3) wf(2,1) builder_output_small(1) [OF s(3,1)] e, of 0 n opts']
    unfolding seeks_def yields_def s(2) s(4) [symmetric] z by blast
qed

lemma open_inputs_ok:
  assumes "\<And>n. n \<in> set ns \<Longrightarrow> \<exists>f. ge_open env n = Inr f \<and> seeks (ge_rlib env) (BlobFileIterator_new 0 f n (gj_input_size j n) (gc_options (gj_gc j)) (- 1)) (items n)"
  shows "\<exists>its. open_inputs env j ns = (OK, its) \<and> list_all2 (seeks (ge_rlib env)) its (map items ns)"
  using assms
proof (induction ns)
  case (Cons n ns)
  obtain f where f: "ge_open env n = Inr f"
    "seeks (ge_rlib env) (BlobFileIterator_new 0 f n (gj_input_size j n) (gc_options (gj_gc j)) (- 1)) (items n)"
    using Cons.prems [of n] by auto
  obtain its where "open_inputs env j ns = (OK, its)" "list_all2 (seeks (ge_rlib env)) its (map items ns)" using Cons by auto
  then show ?case using f by simp
qed simp

text \<open>The job after the run: what it keeps, and the builder it leaves.\<close>

definition gc_ran :: "GcEnv \<Rightarrow> BlobGC \<Rightarrow> u32 \<Rightarrow> TitanFiles \<Rightarrow> (u64 \<Rightarrow> (BlobHandle \<times> BlobRecord) list) \<Rightarrow> lsm \<Rightarrow> GcJob \<Rightarrow> (BlobIndex \<times> BlobRecord) list \<Rightarrow> bool" where
  "gc_ran env gc cfid tf recs db j kept \<longleftrightarrow>
     gj_gc j = gc \<and> gj_cf j = cfid \<and> \<not> gj_offload j \<and> set kept \<subseteq> set (concat (map (input_items recs) (gc_inputs gc))) \<and>
     collects (in_inputs gc) db (concat (map (input_items recs) (gc_inputs gc))) kept \<and>
     (case gj_builders j of
        [] \<Rightarrow> gj_db j = tf \<and> gj_rewrite_batches j = map inline_batch kept
      | [(n, b)] \<Rightarrow> fm_NewFile (ge_files env) tf = (Inr n, gj_db j) \<and>
           (\<exists>out. bb_reach (ge_lib env) (gc_options gc) (ge_version env) b (map snd kept) (map (\<lambda>(idx, r). gc_context n (rec_key r) idx) kept) out \<and>
                  gj_rewrite_batches j = map batch_of out)
      | _ \<Rightarrow> False)"

lemma collects_mset:
  assumes "mset xs = mset ys"
  shows "collects bad db xs kept = collects bad db ys kept"
  unfolding collects_def mset_eq_setD [OF assms] ..

lemma gc_run_ran:
  assumes "gc_setting env gc cfid tf recs db"
  obtains (stopped) s j where "gc_Run env (GcJob_new gc cfid False tf cus) = Some (s, j)" "s \<noteq> OK"
  | (ran) j kept where "gc_Run env (GcJob_new gc cfid False tf cus) = Some (OK, j)" "gc_ran env gc cfid tf recs db j kept"
proof -
  let ?j = "GcJob_new gc cfid False tf cus" and ?items = "input_items recs"
  have nb: "\<not> use_bitmap (gc_options gc)" "comparator (opt_comparator (gc_options gc))" "gc_inputs gc \<noteq> []"
    and lib: "libs_agree (ge_lib env) (ge_rlib env)"
    and inp: "\<And>n. n \<in> set (gc_inputs gc) \<Longrightarrow> file_holds env tf cfid n (recs n) \<and> recs n \<noteq> [] \<and>
        (\<exists>f. ge_open env n = Inr f \<and> reads_ok f \<and> tf_disk tf n = Some (rf_contents f))"
    and stable: "reads_stable env (in_inputs gc) db"
    using assms unfolding gc_setting_def by blast+
  have j: "gj_gc ?j = gc" "\<not> gj_use_bitmap ?j" "\<not> gj_offload ?j" "gj_cf ?j = cfid" "gj_db ?j = tf" using nb(1) by (simp_all add: GcJob_new_def)
  have "\<exists>f. ge_open env n = Inr f \<and> seeks (ge_rlib env) (BlobFileIterator_new 0 f n (gj_input_size ?j n) (gc_options (gj_gc ?j)) (- 1)) (?items n)"
    if n: "n \<in> set (gc_inputs gc)" for n
  proof -
    obtain f where f: "ge_open env n = Inr f" "reads_ok f" "tf_disk tf n = Some (rf_contents f)" using inp [OF n] by blast
    obtain st m where m: "GetBlobStorage cfid (tf_set tf) = Some st" "FindFile n st = Some m" using inp [OF n] unfolding file_holds_def by blast
    then have "gj_input_size ?j n = file_size m" by (simp add: GcJob_new_def)
    then show ?thesis using input_seeks [OF _ _ f lib m, of recs] inp [OF n] f(1) by simp
  qed
  from open_inputs_ok [of "gc_inputs gc" env ?j ?items, OF this] obtain its where
    its: "open_inputs env ?j (gc_inputs gc) = (OK, its)" "list_all2 (seeks (ge_rlib env)) its (map ?items (gc_inputs gc))" by blast
  have b: "BuildIterator env ?j = (OK, Some (BlobFileMergeIterator_new its (opt_comparator (gc_options gc))))"
    using its(1) nb(3) j(1,2) by (simp add: BuildIterator_def)
  obtain n0 where n0: "n0 \<in> set (gc_inputs gc)" using nb(3) by (cases "gc_inputs gc") auto
  then have ne: "concat (map ?items (gc_inputs gc)) \<noteq> []" using inp [OF n0] by (auto simp: input_items_def)
  have re: "\<forall>i k. ge_get env i k \<noteq> ReadError OK" using stable by (simp add: reads_stable_def)
  have run: "gc_Run env ?j = DoRunGC env ?j" using j(3) by (simp add: gc_Run_def)
  from b nb(2) its(2) ne j(2) re show thesis
  proof (cases rule: DoRunGC_items)
    case (stopped s j')
    then show thesis using that(1) run by simp
  next
    case (ran xs j')
    have inv: "gc_inv env tf (count_read ?j) []" by (simp add: gc_inv_def GcJob_new_def count_read_def Let_def)
    have "\<not> gj_use_bitmap (count_read ?j)" "collects (in_inputs gc) db [] []" "fresh_ok (in_inputs gc) db (count_read ?j) []"
      using j(2) by (simp_all add: count_read_def collects_def fresh_ok_def GcJob_new_def)
    from gc_items_inv [OF stable ran(3) this(1) inv this(2,3)] obtain kept where
      k: "gc_inv env tf j' kept" "collects (in_inputs gc) db xs kept" "set kept \<subseteq> set xs"
      "gj_gc j' = gc" "\<not> gj_offload j'" "gj_cf j' = cfid"
      using j by (auto simp: count_read_def)
    have "set xs = set (concat (map ?items (gc_inputs gc)))" by (rule mset_eq_setD [OF ran(2)])
    then have "gc_ran env gc cfid tf recs db (push_current j') kept"
      using k collects_mset [OF ran(2), of "in_inputs gc" db kept]
      by (auto simp: gc_ran_def push_current_def gc_inv_def Let_def split: option.splits if_splits)
    then show thesis using that(2) ran(1) run by simp
  qed
qed

section \<open>The batches\<close>

lemma batch_of_context: "batch_of (set_handle h (gc_context n k idx)) = move_batch k idx (new_index n h)"
proof -
  have "ParseInternalKey (InternalKey_Encode k 1 kTypeValue) = Inr \<lparr> ik_user_key = k, ik_sequence = 1, ik_type = kTypeValue \<rparr>"
    by (rule ParseInternalKey_Encode) (simp_all add: IsExtendedValueType_def IsValueType_def kTypeValue_def kTypeMerge_def)
  then show ?thesis by (simp add: batch_of_def gc_context_def set_handle_def)
qed

lemma fill_contexts:
  "length kept = length hs \<Longrightarrow>
   map batch_of (fill (map (\<lambda>(idx, r). gc_context n (rec_key r) idx) kept) hs) =
   map (\<lambda>((idx, r), h). move_batch (rec_key r) idx (new_index n h)) (zip kept hs)"
proof (induction kept arbitrary: hs)
  case (Cons x kept)
  obtain idx r where x: "x = (idx, r)" by (cases x)
  obtain h hs' where hs: "hs = h # hs'" using Cons.prems by (cases hs) auto
  have "\<not> ctx_has_value (gc_context n k i)" for k i by (simp add: gc_context_def)
  then show ?case using Cons by (simp add: x hs batch_of_context)
qed simp

lemma new_index_wf: "BlobIndex_wf (new_index n h)" "bi_file_number (new_index n h) = n" "bi_blob_handle (new_index n h) = h"
  by (simp_all add: BlobIndex_wf_def new_index_def BlobIndex_default_def)

lemma kept_record:
  assumes "set kept \<subseteq> set (concat (map (input_items recs) ns))" "(idx, r) \<in> set kept"
  obtains n h where "n \<in> set ns" "(h, r) \<in> set (recs n)" "bi_file_number idx = n" "bi_blob_handle idx = h"
  using assms by (fastforce simp: input_items_def item_of_def)

text \<open>
  The job with its output installed: each batch puts a copy of the record its callback checks for,
  away from the inputs, and every index into the inputs has a batch.
\<close>

definition batches_right :: "GcEnv \<Rightarrow> BlobGC \<Rightarrow> lsm \<Rightarrow> GcJob \<Rightarrow> GcJob \<Rightarrow> bool" where
  "batches_right env gc db j' j \<longleftrightarrow>
     list_all (batch_ok (job_value env j')) (gj_rewrite_batches j) \<and>
     (\<forall>(p, cb)\<in>set (gj_rewrite_batches j). \<forall>idx. refers (Some (put_entry p)) idx \<longrightarrow> \<not> in_inputs gc idx) \<and>
     covers (in_inputs gc) (gj_rewrite_batches j) db"

lemma covers_kept:
  assumes "gc_setting env gc cfid tf recs db" "collects (in_inputs gc) db (concat (map (input_items recs) (gc_inputs gc))) kept"
    and "\<And>idx r. (idx, r) \<in> set kept \<Longrightarrow> \<exists>(p, cb)\<in>set bs. cb_key cb = rec_key r \<and> put_key p = rec_key r \<and> cb_blob_index cb = idx"
  shows "covers (in_inputs gc) bs db"
  unfolding covers_def
proof (intro allI impI)
  fix k idx assume k: "refers (db k) idx \<and> in_inputs gc idx"
  then obtain h r where r: "(h, r) \<in> set (recs (bi_file_number idx))" "BlobHandle_eq h (bi_blob_handle idx)" "rec_key r = k"
    using assms(1) unfolding gc_setting_def by blast
  then have "(item_of (bi_file_number idx) h, r) \<in> set (concat (map (input_items recs) (gc_inputs gc)))"
    using k by (force simp: input_items_def)
  moreover have "BlobIndex_eq (item_of (bi_file_number idx) h) idx" using r(2) by (simp add: BlobIndex_eq_def item_of_def)
  ultimately have "has_kept kept k idx" using assms(2) k r(3) unfolding collects_def by fastforce
  then show "\<exists>(p, cb)\<in>set bs. cb_key cb = k \<and> put_key p = k \<and> BlobIndex_eq (cb_blob_index cb) idx"
    using assms(3) unfolding has_kept_def by fastforce
qed

lemma inline_batches_right:
  assumes "gc_setting env gc cfid tf recs db" "set kept \<subseteq> set (concat (map (input_items recs) (gc_inputs gc)))"
    and "collects (in_inputs gc) db (concat (map (input_items recs) (gc_inputs gc))) kept" "gj_rewrite_batches j = map inline_batch kept"
    and "\<And>n. n \<in> set (gc_inputs gc) \<Longrightarrow> file_holds env (gj_db j') (gj_cf j') n (recs n)"
  shows "batches_right env gc db j' j"
proof -
  have lib: "libs_agree (ge_lib env) (ge_rlib env)" using assms(1) by (simp add: gc_setting_def)
  have "batch_ok (job_value env j') (inline_batch (idx, r))" if kept: "(idx, r) \<in> set kept" for idx r
  proof -
    obtain n h where n: "n \<in> set (gc_inputs gc)" "(h, r) \<in> set (recs n)" "bi_file_number idx = n" "bi_blob_handle idx = h"
      using kept_record [OF assms(2) kept] .
    have "job_record env j' idx = Inr r" by (rule file_holds_read [OF assms(5) [OF n(1)] lib n(2,3)]) (simp add: n(4) BlobHandle_eq_def)
    then show ?thesis unfolding inline_batch_def by (simp add: batch_ok_inline)
  qed
  moreover have "covers (in_inputs gc) (map inline_batch kept) db"
    by (rule covers_kept [OF assms(1,3)]) (force simp: inline_batch_def)
  ultimately show ?thesis
    by (auto simp: batches_right_def assms(4) list_all_iff inline_batch_def refers_def)
qed

lemma move_batches_right:
  assumes "gc_setting env gc cfid tf recs db" "set kept \<subseteq> set (concat (map (input_items recs) (gc_inputs gc)))"
    and "collects (in_inputs gc) db (concat (map (input_items recs) (gc_inputs gc))) kept" "length hs = length kept"
    and "gj_rewrite_batches j = map (\<lambda>((idx, r), h). move_batch (rec_key r) idx (new_index n h)) (zip kept hs)"
    and "\<And>n. n \<in> set (gc_inputs gc) \<Longrightarrow> file_holds env (gj_db j') (gj_cf j') n (recs n)"
    and "file_holds env (gj_db j') (gj_cf j') n (zip hs (map snd kept))" "n \<notin> set (gc_inputs gc)"
  shows "batches_right env gc db j' j"
proof -
  have lib: "libs_agree (ge_lib env) (ge_rlib env)" using assms(1) by (simp add: gc_setting_def)
  let ?b = "\<lambda>((idx, r), h). move_batch (rec_key r) idx (new_index n h)"
  have "batch_ok (job_value env j') (?b x)" if x: "x \<in> set (zip kept hs)" for x
  proof -
    obtain idx r h where x': "x = ((idx, r), h)" by (metis prod.exhaust)
    obtain i where i: "i < length kept" "kept ! i = (idx, r)" "hs ! i = h" using x x' by (auto simp: in_set_zip)
    then have kept: "(idx, r) \<in> set kept" by (metis nth_mem)
    obtain m g where m: "m \<in> set (gc_inputs gc)" "(g, r) \<in> set (recs m)" "bi_file_number idx = m" "bi_blob_handle idx = g"
      using kept_record [OF assms(2) kept] .
    have old: "job_record env j' idx = Inr r" by (rule file_holds_read [OF assms(6) [OF m(1)] lib m(2,3)]) (simp add: m(4) BlobHandle_eq_def)
    have "zip hs (map snd kept) ! i = (h, r)" using i assms(4) by simp
    then have "(h, r) \<in> set (zip hs (map snd kept))" using i(1) assms(4) by (metis length_map length_zip min.idem nth_mem)
    then have new: "job_record env j' (new_index n h) = Inr r"
      by (rule file_holds_read [OF assms(7) lib]) (simp_all add: new_index_wf BlobHandle_eq_def)
    show ?thesis unfolding x' move_batch_def using batch_ok_moved [OF old new refl, of "BlobIndex_EncodeTo (new_index n h)" _ "rec_key r"]
      by (simp add: refers_encoded new_index_wf)
  qed
  moreover have "covers (in_inputs gc) (gj_rewrite_batches j) db"
  proof (rule covers_kept [OF assms(1,3)])
    fix idx r assume "(idx, r) \<in> set kept"
    then obtain i where i: "i < length kept" "kept ! i = (idx, r)" by (auto simp: in_set_conv_nth)
    have "gj_rewrite_batches j ! i = move_batch (rec_key r) idx (new_index n (hs ! i))" "i < length (gj_rewrite_batches j)"
      unfolding assms(5) using i assms(4) by simp_all
    then have "move_batch (rec_key r) idx (new_index n (hs ! i)) \<in> set (gj_rewrite_batches j)" by (metis nth_mem)
    then show "\<exists>(p, cb)\<in>set (gj_rewrite_batches j). cb_key cb = rec_key r \<and> put_key p = rec_key r \<and> cb_blob_index cb = idx"
      by (force simp: move_batch_def)
  qed
  moreover have "\<forall>(p, cb)\<in>set (gj_rewrite_batches j). \<forall>idx. refers (Some (put_entry p)) idx \<longrightarrow> \<not> in_inputs gc idx"
    unfolding assms(5) using assms(8) by (auto simp: move_batch_def refers_encoded new_index_wf)
  ultimately show ?thesis unfolding batches_right_def assms(5) by (simp add: list_all_iff del: set_zip)
qed

section \<open>The whole garbage collection\<close>

text \<open>The output file stays below 4 GiB.\<close>

definition gc_output_fits :: "GcEnv \<Rightarrow> GcJob \<Rightarrow> bool" where
  "gc_output_fits env j \<longleftrightarrow> (\<forall>(n, b)\<in>set (gj_builders j). length (wf_contents (bb_file (fst (bb_Finish (ge_lib env) b)))) < 2 ^ 32)"

lemma fm_NewFile_OK:
  assumes "fm_NewFile fe tf = (Inr n, tf')"
  shows "n = next_file_number (tf_set tf) \<and> tf_disk tf' = (tf_disk tf)(n \<mapsto> []) \<and> column_families (tf_set tf') = column_families (tf_set tf)"
  using assms by (auto simp: fm_NewFile_def NewFileNumber_def Let_def split: if_splits)

lemma setting_inputs:
  assumes "gc_setting env gc cfid tf recs db" "n \<in> set (gc_inputs gc)"
  shows "file_holds env tf cfid n (recs n) \<and> n \<noteq> next_file_number (tf_set tf) \<and> list_all (BlobRecord_wf \<circ> snd) (recs n) \<and> GetBlobStorage cfid (tf_set tf) \<noteq> None"
  using assms unfolding gc_setting_def file_holds_def by (metis less_irrefl option.distinct(1))

lemma install_right:
  assumes "gc_setting env gc cfid tf recs db" "gc_ran env gc cfid tf recs db j kept" "InstallOutputBlobFiles env j = (OK, j1)" "gc_output_fits env j"
    and later: "fs_keeps (tf_set (gj_db j1)) (tf_set (gj_db j2))" "tf_disk (gj_db j2) = tf_disk (gj_db j1)" "gj_cf j2 = gj_cf j1"
  shows "batches_right env gc db j2 j1 \<and> \<not> gj_offload j1"
proof -
  have ran: "gj_cf j = cfid" "\<not> gj_offload j" "set kept \<subseteq> set (concat (map (input_items recs) (gc_inputs gc)))"
    "collects (in_inputs gc) db (concat (map (input_items recs) (gc_inputs gc))) kept"
    using assms(2) by (simp_all add: gc_ran_def)
  consider (none) "gj_builders j = []" | (one) n b where "gj_builders j = [(n, b)]"
    using assms(2) by (cases "gj_builders j"; cases "tl (gj_builders j)") (auto simp: gc_ran_def)
  then show ?thesis
  proof cases
    case none
    note i = install_none [OF assms(3) none]
    have j: "gj_db j = tf" "gj_rewrite_batches j = map inline_batch kept" using assms(2) none by (simp_all add: gc_ran_def)
    have "file_holds env (gj_db j2) (gj_cf j2) n (recs n)" if n: "n \<in> set (gc_inputs gc)" for n
      using file_holds_keeps [of env tf cfid n "recs n" "gj_db j2"] setting_inputs [OF assms(1) n] i j(1) later fs_keeps_trans ran(1) by metis
    then show ?thesis using inline_batches_right [OF assms(1) ran(3,4), of j1 j2] i j(2) ran(2) by simp
  next
    case (one n b)
    obtain out where out: "fm_NewFile (ge_files env) tf = (Inr n, gj_db j)"
      "bb_reach (ge_lib env) (gc_options gc) (ge_version env) b (map snd kept) (map (\<lambda>(idx, r). gc_context n (rec_key r) idx) kept) out"
      "gj_rewrite_batches j = map batch_of out"
      using assms(2) one by (auto simp: gc_ran_def)
    obtain b' o1 where fin: "bb_Finish (ge_lib env) b = (b', o1)" by fastforce
    have lib: "io_ok (ge_lib env)" "builder_supported (ge_lib env) (gc_options gc) (ge_version env)" "fs_inv (tf_set tf)" "gc_inputs gc \<noteq> []"
      using assms(1) by (simp_all add: gc_setting_def)
    note new = fm_NewFile_OK [OF out(1)]
    obtain n0 where n0: "n0 \<in> set (gc_inputs gc)" using lib(4) by (cases "gc_inputs gc") auto
    have inv: "fs_inv (tf_set (gj_db j))" "GetBlobStorage (gj_cf j) (tf_set (gj_db j)) \<noteq> None"
      using lib(3) new setting_inputs [OF assms(1) n0] ran(1) by (simp_all add: fs_inv_def GetBlobStorage_def)
    note i = install_one [OF assms(3) one fin inv]
    have len: "length (wf_contents (bb_file b')) < 2 ^ 32" using assms(4) one fin by (simp add: gc_output_fits_def)
    obtain dict where d: "dict = None \<longleftrightarrow> max_dict_bytes (blob_file_compression_options (gc_options gc)) = 0"
      "wf_contents (bb_file b') = builder_file (ge_lib env) (gc_options gc) (ge_version env) dict (map snd kept)"
      "out @ o1 = fill (map (\<lambda>(idx, r). gc_context n (rec_key r) idx) kept) (builder_handles (ge_lib env) (gc_options gc) (ge_version env) dict (map snd kept))"
      using builder_finish [OF out(2) lib(1,2) fin] by blast
    let ?hs = "builder_handles (ge_lib env) (gc_options gc) (ge_version env) dict (map snd kept)"
    have hs: "length ?hs = length kept" by (simp add: builder_handles_def builder_records_def)
    have bs: "gj_rewrite_batches j1 = map (\<lambda>((idx, r), h). move_batch (rec_key r) idx (new_index n h)) (zip kept ?hs)"
      using i out(3) d(3) fill_contexts [of kept ?hs n] hs by (metis map_append)
    have keeps: "fs_keeps (tf_set tf) (tf_set (gj_db j2))"
      using fs_keeps_families [of "tf_set (gj_db j)" "tf_set tf"] new i later(1) fs_keeps_trans by metis
    have n: "n \<notin> set (gc_inputs gc)" using setting_inputs [OF assms(1)] new by auto
    have "file_holds env (gj_db j2) (gj_cf j2) m (recs m)" if m: "m \<in> set (gc_inputs gc)" for m
      using file_holds_keeps [OF _ keeps, of env cfid m "recs m"] setting_inputs [OF assms(1) m] i later n m new ran(1) by auto
    moreover have "file_holds env (gj_db j1) (gj_cf j1) n (zip ?hs (map snd kept))"
    proof -
      obtain st f where st: "GetBlobStorage (gj_cf j1) (tf_set (gj_db j1)) = Some st" "FindFile n st = Some f" "file_number f = n"
        "file_size f = GetFileSize (bb_file b')" using i by metis
      have "list_all (BlobRecord_wf \<circ> snd) (zip ?hs (map snd kept))"
        unfolding list_all_iff
      proof
        fix x assume "x \<in> set (zip ?hs (map snd kept))"
        then have "snd x \<in> set (map snd kept)" using set_zip_rightD [of "fst x" "snd x" ?hs "map snd kept"] by simp
        then obtain idx where "(idx, snd x) \<in> set kept" by auto
        from kept_record [OF ran(3) this] obtain m h where "m \<in> set (gc_inputs gc)" "(h, snd x) \<in> set (recs m)" by metis
        then show "(BlobRecord_wf \<circ> snd) x" using setting_inputs [OF assms(1)] by (fastforce simp: list_all_iff)
      qed
      moreover have "builder_output (ge_lib env) (gc_options gc) (ge_version env) dict (map snd kept) (wf_contents (bb_file b'))"
        using d(1,2) lib(2) len by (simp add: builder_output_def)
      moreover have "map snd (zip ?hs (map snd kept)) = map snd kept" "map fst (zip ?hs (map snd kept)) = ?hs" using hs by simp_all
      ultimately show ?thesis
        unfolding file_holds_def using st i len by (metis GetFileSize_def fun_upd_same)
    qed
    then have "file_holds env (gj_db j2) (gj_cf j2) n (zip ?hs (map snd kept))" using file_holds_keeps later by metis
    ultimately show ?thesis using move_batches_right [OF assms(1) ran(3,4) hs bs, of j2] n i ran(2) by simp
  qed
qed

text \<open>
  C1: garbage collection on the host is correct. On inputs of less than 4 GiB written by blob file
  builders, with \<open>use_bitmap\<close> off and no I/O errors in reading them or writing the output, a run
  returns. If it succeeds then, whatever other writers do
  and however the rest of the job ends, every key reads as if only the others had written; and if
  the rest succeeds too, no key refers to an input any more, so the inputs can be deleted.
\<close>

theorem garbage_collection_correct:
  assumes "gc_setting env gc cfid tf recs db"
  shows "\<exists>s j. gc_Run env (GcJob_new gc cfid False tf cus) = Some (s, j) \<and>
    (s = OK \<and> gc_output_fits env j \<longrightarrow>
      (\<forall>dropped s' j' db'. gc_Finish env dropped j db = ((s', j'), db') \<longrightarrow>
        (\<exists>n. \<forall>k. job_value env j' (db' k) = job_value env j' (foreign_writes env 0 n db k)) \<and>
        (s' = OK \<longrightarrow> (\<forall>k idx. refers (db' k) idx \<longrightarrow> \<not> in_inputs gc idx))))"
  using assms
proof (cases rule: gc_run_ran [where cus = cus])
  case (stopped s j)
  then show ?thesis by blast
next
  case (ran j kept)
  have env: "foreign_good env (in_inputs gc)" "not_busy env" using assms by (simp_all add: gc_setting_def)
  have off: "\<not> gj_offload j" using ran(2) by (simp add: gc_ran_def)
  have "(\<exists>n. \<forall>k. job_value env j' (db' k) = job_value env j' (foreign_writes env 0 n db k)) \<and>
      (s' = OK \<longrightarrow> (\<forall>k idx. refers (db' k) idx \<longrightarrow> \<not> in_inputs gc idx))"
    if fits: "gc_output_fits env j" and fin: "gc_Finish env dropped j db = ((s', j'), db')" for dropped s' j' db'
  proof -
    obtain s1 j1 where i: "InstallOutputBlobFiles env j = (s1, j1)" by fastforce
    show ?thesis
    proof (cases "s1 = OK")
      case False
      then have "s' \<noteq> OK" "db' = db" using fin i off by (auto simp: gc_Finish_def Let_def)
      then show ?thesis by (intro conjI exI [of _ 0]) simp_all
    next
      case True
      obtain s2 j2 db2 where r: "RewriteValidKeyToLSM env j1 db = ((s2, j2), db2)" by (metis prod.exhaust)
      note rw = Rewrite_job [OF r]
      have f: "db' = db2" "s' = OK \<Longrightarrow> s2 = OK" "fs_keeps (tf_set (gj_db j2)) (tf_set (gj_db j')) \<and> tf_disk (gj_db j') = tf_disk (gj_db j2) \<and> gj_cf j' = gj_cf j2"
        using fin i off True r DeleteInput_job [of env j2] by (auto simp: gc_Finish_def Let_def split: prod.splits if_splits)
      have right: "batches_right env gc db j' j1 \<and> \<not> gj_offload j1"
        using install_right [OF assms ran(2) i [unfolded True] fits] rw f(3) fs_keeps_trans by metis
      obtain s3 st where l: "rewrite_loop env j1 0 OK (gj_rewrite_batches j1)
          \<lparr> rw_lsm = db, rw_dropped = [], rw_dropped_index = [], rw_metrics = gj_metrics j1 \<rparr> = (s3, st)" "rw_lsm st = db2" "s2 = OK \<longrightarrow> s3 = OK \<or> is_busy s3"
        using rw by blast
      have "\<exists>n \<le> length (gj_rewrite_batches j1). \<forall>k. job_value env j' (rw_lsm st k) = job_value env j' (foreign_writes env 0 n db k)"
        using right by (intro rewrite_loop_values [OF _ _ l(1)]) (simp_all add: batches_right_def)
      moreover have "\<not> in_inputs gc idx" if "s' = OK" "refers (db' k) idx" for k idx
        using right that f l by (intro rewrite_loop_covers [OF _ env(2,1) l(1)]) (simp_all add: batches_right_def)
      ultimately show ?thesis using f(1) l(2) by auto
    qed
  qed
  then show ?thesis using ran(1) by blast
qed

definition demo_gc :: BlobGC where
  "demo_gc = \<lparr> gc_inputs = [9], gc_outputs = [], gc_options = demo_options, gc_trigger_next = False \<rparr>"

definition demo_recs :: "u64 \<Rightarrow> (BlobHandle \<times> BlobRecord) list" where
  "demo_recs n = [(out_handles (snd demo_built @ snd demo_finished) ! 0, demo_record [1])]"

lemma demo_holds: "file_holds demo_env (demo_tf [9]) 0 9 (demo_recs 9)"
proof -
  obtain dict where d: "builder_output demo_blib demo_dict_options 2 dict [demo_record [1]] (wf_contents (bb_file (fst demo_finished)))"
    "out_handles (snd demo_built @ snd demo_finished) = builder_handles demo_blib demo_dict_options 2 dict [demo_record [1]]"
    using built_file_output [OF demo_finished_facts(1-4)] demo_finished_facts(10) by auto
  have st: "GetBlobStorage 0 (tf_set (demo_tf [9])) = Some (AddBlobFile (demo_meta 9) (BlobStorage_new demo_options 0))"
    by (simp add: demo_tf_def demo_set_def GetBlobStorage_def)
  have f: "FindFile 9 (AddBlobFile (demo_meta 9) (BlobStorage_new demo_options 0)) = Some (demo_meta 9)"
    by (simp add: FindFile_AddBlobFile) (simp add: demo_meta_def BlobFileMeta_new_def FindFile_def BlobStorage_new_def)
  have "file_number (demo_meta 9) = 9" "file_size (demo_meta 9) = of_nat (length (rf_contents demo_file))"
    using demo_finished_facts(7,10) by (simp_all add: demo_meta_def BlobFileMeta_new_def)
  moreover have "tf_disk (demo_tf [9]) 9 = Some (rf_contents demo_file)" "length (rf_contents demo_file) < 2 ^ 32"
    using demo_finished_facts(7,10) by (simp_all add: demo_tf_def)
  moreover have "builder_output (ge_lib demo_env) demo_dict_options 2 dict (map snd (demo_recs 9)) (rf_contents demo_file)"
    "list_all (BlobRecord_wf \<circ> snd) (demo_recs 9)"
    using d(1) demo_finished_facts(7,8) by (simp_all add: demo_env_def demo_recs_def)
  moreover have "map fst (demo_recs 9) = builder_handles (ge_lib demo_env) demo_dict_options 2 dict (map snd (demo_recs 9))"
    using d(2) [symmetric] by (simp add: demo_env_def demo_recs_def)
  ultimately show ?thesis unfolding file_holds_def using st f by blast
qed

lemma demo_setting: "gc_setting demo_env demo_gc 0 (demo_tf [9]) demo_recs demo_lsm"
proof -
  have opts: "\<not> use_bitmap (gc_options demo_gc)"
    by (simp add: demo_gc_def demo_options_def TitanCFOptions_default_def ColumnFamilyOptions.defs TitanCFOptions.defs)
  have sup: "builder_supported (ge_lib demo_env) (gc_options demo_gc) (ge_version demo_env)"
    by (simp add: builder_supported_def demo_gc_def demo_env_def demo_blib_def demo_lib_def kVersion2_def)
  have inv: "fs_inv (tf_set (demo_tf [9]))"
  proof -
    let ?st = "BlobStorage_new demo_options 0"
    have st: "comparator (storage_cmp ?st)" "\<not> is_obsolete (demo_meta 9)" "FindFile (file_number (demo_meta 9)) ?st = None"
      using bytewise.comparator_axioms by (simp_all add: BlobStorage_new_def demo_meta_def BlobFileMeta_new_def is_obsolete_def FindFile_def)
    have "BlobStorage_inv (AddBlobFile (demo_meta 9) ?st)" "stats_inv (AddBlobFile (demo_meta 9) ?st)"
      using AddBlobFile_inv [OF st(1) _ st(3,2)] AddBlobFile_stats [OF _ st(3,2)] BlobStorage_new_inv [of demo_options 0]
      by (simp_all add: BlobStorage_inv_def)
    then show ?thesis using st(1) by (simp add: fs_inv_def demo_tf_def demo_set_def)
  qed
  have r: "refers (demo_lsm k) idx \<Longrightarrow> k = [1] \<and> idx = demo_index 9" for k idx
    using refers_encoded [OF demo_index_wf, of 9 idx] by (auto simp: demo_lsm_def split: if_splits) (auto simp: refers_def)
  have "comparator (opt_comparator (gc_options demo_gc))" "io_ok (ge_lib demo_env)" "libs_agree (ge_lib demo_env) (ge_rlib demo_env)"
    using bytewise.comparator_axioms demo_finished_facts(2,5) by (simp_all add: demo_gc_def demo_env_def)
  moreover have "ge_open demo_env 9 = Inr demo_file" "tf_disk (demo_tf [9]) 9 = Some (rf_contents demo_file)" "9 < next_file_number (tf_set (demo_tf [9]))"
    by (simp_all add: demo_env_def demo_tf_def demo_set_def)
  moreover have "reads_stable demo_env (in_inputs demo_gc) demo_lsm"
  proof -
    have "ge_get demo_env i k = ReadEntry (demo_lsm [1])" for i k by (simp add: demo_env_def demo_lsm_def)
    then show ?thesis unfolding reads_stable_def using r by auto
  qed
  moreover have "foreign_good demo_env (in_inputs demo_gc)" "not_busy demo_env"
    by (simp_all add: foreign_good_def not_busy_def demo_env_def is_busy_def)
  moreover have "\<exists>(h, r)\<in>set (demo_recs (bi_file_number idx)). BlobHandle_eq h (bi_blob_handle idx) \<and> rec_key r = k" if "refers (demo_lsm k) idx" for k idx
    using r [OF that] by (simp add: demo_recs_def demo_index_def BlobHandle_eq_def demo_record_def)
  ultimately show ?thesis
    using opts sup inv demo_holds demo_finished_facts(6) unfolding gc_setting_def by (simp add: demo_gc_def) (auto simp: demo_recs_def)
qed

lemma demo_run:
  "case gc_Run demo_env (GcJob_new demo_gc 0 False (demo_tf [9]) []) of
     None \<Rightarrow> False
   | Some (s, j) \<Rightarrow> s = OK \<and> list_all (\<lambda>(n, b). length (wf_contents (bb_file (fst (bb_Finish (ge_lib demo_env) b)))) = 57) (gj_builders j) \<and>
       fst (fst (gc_Finish demo_env False j demo_lsm)) = OK"
  by code_simp

theorem garbage_collection_correct_witness:
  "\<exists>j j' db'. gc_Run demo_env (GcJob_new demo_gc 0 False (demo_tf [9]) []) = Some (OK, j) \<and>
     gc_Finish demo_env False j demo_lsm = ((OK, j'), db') \<and>
     (\<exists>n. \<forall>k. job_value demo_env j' (db' k) = job_value demo_env j' (foreign_writes demo_env 0 n demo_lsm k)) \<and>
     (\<forall>k idx. refers (db' k) idx \<longrightarrow> bi_file_number idx \<noteq> 9)"
proof -
  obtain s j where j: "gc_Run demo_env (GcJob_new demo_gc 0 False (demo_tf [9]) []) = Some (s, j)"
    "s = OK \<and> gc_output_fits demo_env j \<longrightarrow>
      (\<forall>dropped s' j' db'. gc_Finish demo_env dropped j demo_lsm = ((s', j'), db') \<longrightarrow>
        (\<exists>n. \<forall>k. job_value demo_env j' (db' k) = job_value demo_env j' (foreign_writes demo_env 0 n demo_lsm k)) \<and>
        (s' = OK \<longrightarrow> (\<forall>k idx. refers (db' k) idx \<longrightarrow> \<not> in_inputs demo_gc idx)))"
    using garbage_collection_correct [OF demo_setting, of "[]"] by blast
  have f: "s = OK" "list_all (\<lambda>(n, b). length (wf_contents (bb_file (fst (bb_Finish (ge_lib demo_env) b)))) = 57) (gj_builders j)"
    "fst (fst (gc_Finish demo_env False j demo_lsm)) = OK"
    using demo_run unfolding j(1) by simp_all
  have "gc_output_fits demo_env j" using f(2) by (auto simp: gc_output_fits_def list_all_iff)
  moreover obtain j' db' where r: "gc_Finish demo_env False j demo_lsm = ((OK, j'), db')" using f(3) by (metis prod.exhaust fst_conv)
  ultimately have "(\<exists>n. \<forall>k. job_value demo_env j' (db' k) = job_value demo_env j' (foreign_writes demo_env 0 n demo_lsm k)) \<and>
      (\<forall>k idx. refers (db' k) idx \<longrightarrow> \<not> in_inputs demo_gc idx)" using j(2) f(1) by blast
  moreover have "in_inputs demo_gc idx \<longleftrightarrow> bi_file_number idx = 9" for idx by (simp add: demo_gc_def)
  ultimately show ?thesis using j(1) r f(1) by simp
qed

end
