(* ===== verification/Write_Back.thy ===== *)
theory Write_Back
  imports Blob_File_Set Db_Format
begin

text \<open>
  How the base database resolves the indexes that an offloaded collection writes back. Such an index
  carries the old index it replaces and is written without a check that the key still has it; the
  check is made later, when the key is read from the active memtable (\<open>db/memtable.cc\<close>) and when a
  flush or a compaction merges the versions of a key (\<open>db/compaction/compaction_iterator.cc\<close>, which
  the option \<open>compaction_preprocess\<close> turns on for an offloading database). The first part models this
  code, the second a specification of write-backs, and the third shows where the two agree and where
  they do not. Titan refuses merge operands and sets no user timestamps, so the branches for them are
  those of a database without a merge operator and of a comparator without timestamps.
\<close>

section \<open>Model of the compaction iterator's preprocessing\<close>

record blob_index_type =
  bt_file_number :: u64
  bt_offset :: u64
  bt_size :: u64
  bt_index :: u64

definition GetBlobIndexType :: "bytes \<Rightarrow> (blob_index_type \<times> bytes) option" where
  "GetBlobIndexType src = do {
     (fn, src) \<leftarrow> GetVarint64 src;
     (off, src) \<leftarrow> GetVarint64 src;
     (sz, src) \<leftarrow> GetVarint64 src;
     (ix, src) \<leftarrow> GetVarint64 src;
     Some (\<lparr> bt_file_number = fn, bt_offset = off, bt_size = sz, bt_index = ix \<rparr>, src) }"

definition GetTypedBlobIndex :: "bytes \<Rightarrow> (blob_index_type \<times> bytes) option" where
  "GetTypedBlobIndex src = do {
     (type, src) \<leftarrow> GetChar src;
     if type \<noteq> 1 then None else GetBlobIndexType src }"

definition PutBlobIndexType :: "blob_index_type \<Rightarrow> bytes" where
  "PutBlobIndexType b = [1] @ PutVarint64 (bt_file_number b) @ PutVarint64 (bt_offset b) @ PutVarint64 (bt_size b) @ PutVarint64 (bt_index b)"

text \<open>\<open>Inr None\<close> is the result \<open>false\<close>, \<open>Inr (Some v)\<close> the result \<open>true\<close> with \<open>resV\<close> set to \<open>v\<close>.\<close>

definition CheckBlobIndex :: "bytes \<Rightarrow> bytes \<Rightarrow> status + bytes option" where
  "CheckBlobIndex prev cur =
     (case GetTypedBlobIndex prev of
        None \<Rightarrow> Inl (Undefined ''assert'')
      | Some (prev_new, prev) \<Rightarrow>
          if prev \<noteq> [] then
            (case GetBlobIndexType prev of
               None \<Rightarrow> Inl (Undefined ''assert'')
             | Some (prev_old, prev) \<Rightarrow>
                 (case GetTypedBlobIndex cur of
                    None \<Rightarrow> Inl (Undefined ''assert'')
                  | Some (cur_new, cur) \<Rightarrow>
                      if bt_file_number prev_old = bt_file_number cur_new \<and> bt_offset prev_old = bt_offset cur_new
                      then Inr (Some (PutBlobIndexType prev_new))
                      else Inr (Some (PutBlobIndexType cur_new))))
          else Inr None)"

record kv_type =
  kv_key :: bytes
  kv_value :: bytes
  kv_user_key :: bytes

record CompactionIterator =
  ci_kv_queue :: "kv_type list"
  ci_kv_queue_offset :: u64
  ci_valid :: bool
  ci_key :: bytes
  ci_value :: bytes
  ci_ikey :: ParsedInternalKey
  ci_current_user_key :: bytes
  ci_num_input_records :: u64
  ci_total_input_raw_key_bytes :: u64
  ci_total_input_raw_value_bytes :: u64

definition pp_merge :: "ParsedInternalKey \<Rightarrow> kv_type \<Rightarrow> kv_type \<Rightarrow> status + kv_type" where
  "pp_merge ikey pre_kv kv =
     (case ParseInternalKey (kv_key pre_kv) of
        Inl s \<Rightarrow> Inl (Undefined ''assert'')
      | Inr pre_ikey \<Rightarrow>
          if ik_type pre_ikey = kTypeValue then Inr pre_kv
          else if ik_type pre_ikey = kTypeBlobIndex then
            if ik_type ikey = kTypeValue then Inr kv
            else (case CheckBlobIndex (kv_value pre_kv) (kv_value kv) of
                    Inl s \<Rightarrow> Inl s
                  | Inr None \<Rightarrow> Inr pre_kv
                  | Inr (Some res) \<Rightarrow> Inr \<lparr> kv_key = kv_key pre_kv, kv_value = res, kv_user_key = kv_user_key pre_kv \<rparr>)
          else Inl (Undefined ''assert''))"

definition pp_queue :: "(bytes \<Rightarrow> bytes \<Rightarrow> int) \<Rightarrow> ParsedInternalKey \<Rightarrow> kv_type \<Rightarrow> kv_type list \<Rightarrow> status + kv_type list" where
  "pp_queue cmp ikey kv q =
     (if q = [] then Inr (q @ [kv])
      else if cmp (ik_user_key ikey) (kv_user_key (last q)) = 0
      then (case pp_merge ikey (last q) kv of Inl s \<Rightarrow> Inl s | Inr kv' \<Rightarrow> Inr (butlast q @ [kv']))
      else Inr (q @ [kv]))"

fun Preprocess :: "(bytes \<Rightarrow> bytes \<Rightarrow> int) \<Rightarrow> (bytes \<times> bytes) list \<Rightarrow> CompactionIterator \<Rightarrow> status + CompactionIterator" where
  "Preprocess cmp [] ci = Inr (ci\<lparr> ci_valid := True \<rparr>)"
| "Preprocess cmp ((key, value) # input) ci =
     (case ParseInternalKey key of
        Inl s \<Rightarrow> Inl (Undefined ''assert'')
      | Inr ikey \<Rightarrow>
          if ik_type ikey \<noteq> kTypeValue \<and> ik_type ikey \<noteq> kTypeBlobIndex then Inl (Undefined ''assert'')
          else
            (case pp_queue cmp ikey \<lparr> kv_key = key, kv_value = value, kv_user_key = ik_user_key ikey \<rparr> (ci_kv_queue ci) of
               Inl s \<Rightarrow> Inl s
             | Inr q \<Rightarrow>
                 Preprocess cmp input
                   (ci\<lparr> ci_kv_queue := q, ci_key := key, ci_value := value, ci_ikey := ikey, ci_current_user_key := ik_user_key ikey,
                        ci_num_input_records := ci_num_input_records ci + 1,
                        ci_total_input_raw_key_bytes := ci_total_input_raw_key_bytes ci + of_nat (length key),
                        ci_total_input_raw_value_bytes := ci_total_input_raw_value_bytes ci + of_nat (length value) \<rparr>)))"

definition NextFromCache :: "CompactionIterator \<Rightarrow> CompactionIterator" where
  "NextFromCache ci =
     (if unat (ci_kv_queue_offset ci) < length (ci_kv_queue ci) then
        let kv = ci_kv_queue ci ! unat (ci_kv_queue_offset ci) in
        ci\<lparr> ci_key := kv_key kv, ci_value := kv_value kv,
            ci_ikey := (case ParseInternalKey (kv_key kv) of Inl _ \<Rightarrow> ci_ikey ci | Inr ikey \<Rightarrow> ikey),
            ci_current_user_key := kv_user_key kv, ci_kv_queue_offset := ci_kv_queue_offset ci + 1 \<rparr>
      else ci\<lparr> ci_valid := False \<rparr>)"

text \<open>
  The members of the iterator that \<open>PrepareOutput\<close> reads: whether it belongs to a compaction or to a
  flush, three properties of the compaction, and the snapshots of the database.
\<close>

record CompactionContext =
  cc_compaction :: bool
  cc_allow_ingest_behind :: bool
  cc_preserve_deletes :: bool
  cc_bottommost_level :: bool
  cc_preserve_deletes_seqnum :: u64
  cc_earliest_snapshot :: u64
  cc_snapshot_checker :: "(u64 \<Rightarrow> u64 \<Rightarrow> bool) option"

definition DefinitelyInSnapshot :: "CompactionContext \<Rightarrow> u64 \<Rightarrow> u64 \<Rightarrow> bool" where
  "DefinitelyInSnapshot cc seq snapshot \<longleftrightarrow>
     seq \<le> snapshot \<and> (case cc_snapshot_checker cc of None \<Rightarrow> True | Some check \<Rightarrow> check seq snapshot)"

definition ikeyNotNeededForIncrementalSnapshot :: "CompactionContext \<Rightarrow> u64 \<Rightarrow> bool" where
  "ikeyNotNeededForIncrementalSnapshot cc seq \<longleftrightarrow> \<not> cc_preserve_deletes cc \<or> seq < cc_preserve_deletes_seqnum cc"

definition UpdateInternalKey :: "bytes \<Rightarrow> u64 \<Rightarrow> ValueType \<Rightarrow> bytes" where
  "UpdateInternalKey key seq t = take (length key - kNumInternalBytes) key @ EncodeFixed64 (push_bit 8 seq OR ucast t)"

text \<open>
  \<open>PrepareOutput\<close> with RocksDB's own blob files off, which separate values in the same place, and
  without a stacked blob database's filter: the zeroing of the sequence number. The type of the key
  is that of a value or a blob index, which \<open>Preprocess\<close> asserts, and not one of the deletions against
  which the source asserts here.
\<close>

definition zeroes_seq :: "CompactionContext \<Rightarrow> u64 \<Rightarrow> ValueType \<Rightarrow> bool" where
  "zeroes_seq cc seq t \<longleftrightarrow>
     cc_compaction cc \<and> \<not> cc_allow_ingest_behind cc \<and> ikeyNotNeededForIncrementalSnapshot cc seq \<and> cc_bottommost_level cc \<and>
     DefinitelyInSnapshot cc seq (cc_earliest_snapshot cc) \<and> t \<noteq> kTypeMerge"

definition PrepareOutput :: "CompactionContext \<Rightarrow> CompactionIterator \<Rightarrow> CompactionIterator" where
  "PrepareOutput cc ci =
     (if ci_valid ci \<and> zeroes_seq cc (ik_sequence (ci_ikey ci)) (ik_type (ci_ikey ci))
      then ci\<lparr> ci_ikey := (ci_ikey ci)\<lparr> ik_sequence := 0 \<rparr>, ci_key := UpdateInternalKey (ci_key ci) 0 (ik_type (ci_ikey ci)) \<rparr>
      else ci)"

text \<open>What the flush or compaction job receives: \<open>SeekToFirst\<close>, then \<open>Next\<close> while \<open>Valid\<close>.\<close>

fun ci_drain :: "CompactionContext \<Rightarrow> nat \<Rightarrow> CompactionIterator \<Rightarrow> (bytes \<times> bytes) list" where
  "ci_drain cc 0 ci = []"
| "ci_drain cc (Suc n) ci = (if ci_valid ci then (ci_key ci, ci_value ci) # ci_drain cc n (PrepareOutput cc (NextFromCache ci)) else [])"

definition ci_output ::
    "CompactionContext \<Rightarrow> (bytes \<Rightarrow> bytes \<Rightarrow> int) \<Rightarrow> (bytes \<times> bytes) list \<Rightarrow> CompactionIterator \<Rightarrow> status + (bytes \<times> bytes) list" where
  "ci_output cc cmp input ci =
     (case Preprocess cmp input ci of
        Inl s \<Rightarrow> Inl s
      | Inr ci \<Rightarrow> Inr (ci_drain cc (Suc (length (ci_kv_queue ci))) (PrepareOutput cc (NextFromCache ci))))"

section \<open>Model of the memtable's reads\<close>

definition SaverCheckIsGCWriteBack :: "bytes \<Rightarrow> status + bool" where
  "SaverCheckIsGCWriteBack v =
     (case GetTypedBlobIndex v of None \<Rightarrow> Inl (Undefined ''assert'') | Some (prev_new, v) \<Rightarrow> Inr (v \<noteq> []))"

record mem_entry =
  me_user_key :: bytes
  me_seq :: u64
  me_type :: ValueType
  me_value :: bytes

text \<open>A \<open>bool*\<close> field is \<open>None\<close> for the null pointer.\<close>

record Saver =
  sv_status :: status
  sv_found_final_value :: bool
  sv_value :: bytes
  sv_is_blob_index :: "bool option"
  sv_pending_check_in_mem :: "bool option"
  sv_seq :: u64

definition sv_assign :: "ValueType \<Rightarrow> bytes \<Rightarrow> Saver \<Rightarrow> Saver" where
  "sv_assign t v s =
     (case sv_pending_check_in_mem s of
        None \<Rightarrow> s\<lparr> sv_value := v \<rparr>
      | Some pending \<Rightarrow>
          if t = kTypeBlobIndex then
            if \<not> pending then
              (case SaverCheckIsGCWriteBack v of
                 Inl e \<Rightarrow> s\<lparr> sv_value := v, sv_status := e \<rparr>
               | Inr wb \<Rightarrow> s\<lparr> sv_value := v, sv_pending_check_in_mem := Some wb \<rparr>)
            else s\<lparr> sv_pending_check_in_mem := Some False \<rparr>
          else s\<lparr> sv_value := v, sv_pending_check_in_mem := Some False \<rparr>)"

definition sv_take :: "ValueType \<Rightarrow> bytes \<Rightarrow> Saver \<Rightarrow> bool \<times> Saver" where
  "sv_take t v s =
     (let s = sv_assign t v (s\<lparr> sv_status := OK \<rparr>);
          s = s\<lparr> sv_found_final_value := True, sv_is_blob_index := map_option (\<lambda>_. t = kTypeBlobIndex) (sv_is_blob_index s) \<rparr>
      in (sv_pending_check_in_mem s = Some True, s))"

definition SaveValue :: "(bytes \<Rightarrow> bytes \<Rightarrow> int) \<Rightarrow> bytes \<Rightarrow> (u64 \<Rightarrow> bool) \<Rightarrow> u64 \<Rightarrow> mem_entry \<Rightarrow> Saver \<Rightarrow> bool \<times> Saver" where
  "SaveValue cmp key check max_covering_tombstone_seq e s =
     (if cmp (me_user_key e) key \<noteq> 0 then (False, s)
      else if \<not> check (me_seq e) then (True, s)
      else
        let s = s\<lparr> sv_seq := me_seq e \<rparr>;
            t = (if me_type e \<in> {kTypeValue, kTypeMerge, kTypeBlobIndex} \<and> me_seq e < max_covering_tombstone_seq
                 then kTypeRangeDeletion else me_type e)
        in if t = kTypeBlobIndex \<and> sv_is_blob_index s = None
           then (False, s\<lparr> sv_status := NotSupported ''Encounter unsupported blob value.'', sv_found_final_value := True \<rparr>)
           else if t = kTypeBlobIndex \<and> \<not> status_ok (sv_status s) then (False, s\<lparr> sv_found_final_value := True \<rparr>)
           else if t = kTypeBlobIndex \<or> t = kTypeValue then sv_take t (me_value e) s
           else if t \<in> {kTypeDeletion, kTypeDeletionWithTimestamp, kTypeSingleDeletion, kTypeRangeDeletion}
           then (False, s\<lparr> sv_status := NotFound '''', sv_found_final_value := True \<rparr>)
           else if t = kTypeMerge
           then (False, s\<lparr> sv_status := InvalidArgument ''merge_operator is not properly initialized.'', sv_found_final_value := True \<rparr>)
           else (False, s\<lparr> sv_status := Corruption ''Corrupted value not expected.'' \<rparr>))"

text \<open>The entries are in the order of the internal keys: by user key, the newest version first.\<close>

record MemTable =
  mt_entries :: "mem_entry list"
  mt_MaxCoveringTombstoneSeqnum :: "bytes \<Rightarrow> u64 \<Rightarrow> u64"

fun mt_scan :: "(mem_entry \<Rightarrow> Saver \<Rightarrow> bool \<times> Saver) \<Rightarrow> mem_entry list \<Rightarrow> Saver \<Rightarrow> Saver" where
  "mt_scan f [] s = s"
| "mt_scan f (e # es) s = (case f e s of (continue, s) \<Rightarrow> if continue then mt_scan f es s else s)"

definition mt_Get :: "(bytes \<Rightarrow> bytes \<Rightarrow> int) \<Rightarrow> bytes \<Rightarrow> u64 \<Rightarrow> (u64 \<Rightarrow> bool) \<Rightarrow> MemTable \<Rightarrow> u64 \<Rightarrow> Saver \<Rightarrow> u64 \<times> Saver" where
  "mt_Get cmp key snapshot check mt max_covering_tombstone_seq s =
     (let s = s\<lparr> sv_found_final_value := False \<rparr> in
      if mt_entries mt = [] then (max_covering_tombstone_seq, s)
      else
        let m = max max_covering_tombstone_seq (mt_MaxCoveringTombstoneSeqnum mt key snapshot);
            es = dropWhile (\<lambda>e. cmp (me_user_key e) key < 0 \<or> cmp (me_user_key e) key = 0 \<and> snapshot < me_seq e) (mt_entries mt)
        in (m, mt_scan (SaveValue cmp key check m) es (s\<lparr> sv_seq := kMaxSequenceNumber \<rparr>)))"

fun is_NotFound :: "status \<Rightarrow> bool" where
  "is_NotFound (NotFound msg) = True"
| "is_NotFound _ = False"

fun ml_GetFromList :: "(bytes \<Rightarrow> bytes \<Rightarrow> int) \<Rightarrow> bytes \<Rightarrow> u64 \<Rightarrow> (u64 \<Rightarrow> bool) \<Rightarrow> MemTable list \<Rightarrow> u64 \<Rightarrow> Saver \<Rightarrow> u64 \<times> Saver" where
  "ml_GetFromList cmp key snapshot check [] m s = (m, s\<lparr> sv_found_final_value := False \<rparr>)"
| "ml_GetFromList cmp key snapshot check (mt # mts) m s =
     (let (m, s) = mt_Get cmp key snapshot check mt m s in
      if sv_found_final_value s then (m, s)
      else if \<not> status_ok (sv_status s) \<and> \<not> is_NotFound (sv_status s) then (m, s)
      else ml_GetFromList cmp key snapshot check mts m s)"

text \<open>
  The part of \<open>DBImpl::GetImpl\<close> that reads the active memtable and then the immutable ones; only the
  first is given \<open>pending_check\<close>.
\<close>

definition db_GetFromMem :: "(bytes \<Rightarrow> bytes \<Rightarrow> int) \<Rightarrow> bytes \<Rightarrow> u64 \<Rightarrow> (u64 \<Rightarrow> bool) \<Rightarrow> MemTable \<Rightarrow> MemTable list \<Rightarrow> bool option \<Rightarrow> Saver" where
  "db_GetFromMem cmp key snapshot check mem imm is_blob_index =
     (let (m, s) = mt_Get cmp key snapshot check mem 0
            \<lparr> sv_status = OK, sv_found_final_value = False, sv_value = [], sv_is_blob_index = is_blob_index,
              sv_pending_check_in_mem = Some False, sv_seq = kMaxSequenceNumber \<rparr>
      in if sv_found_final_value s then s
         else if status_ok (sv_status s)
         then snd (ml_GetFromList cmp key snapshot check imm m (s\<lparr> sv_pending_check_in_mem := None \<rparr>))
         else s)"

section \<open>Specification of write-backs\<close>

text \<open>
  A version of a key is a value in place or a blob index; an index that names an old file is a
  write-back. A write-back takes effect only on the index it replaces.
\<close>

datatype version = Inline bytes | Index BlobIndex

definition plain_index :: "BlobIndex \<Rightarrow> BlobIndex" where
  "plain_index i = i\<lparr> bi_old_file_number := 0, bi_old_blob_handle := BlobHandle_default \<rparr>"

definition replaces :: "BlobIndex \<Rightarrow> BlobIndex \<Rightarrow> bool" where
  "replaces i c \<longleftrightarrow> bi_old_file_number i = bi_file_number c \<and> bh_offset (bi_old_blob_handle i) = bh_offset (bi_blob_handle c)"

fun apply_version :: "version \<Rightarrow> version option \<Rightarrow> version option" where
  "apply_version (Inline v) cur = Some (Inline v)"
| "apply_version (Index i) cur =
     (if bi_old_file_number i = 0 then Some (Index i)
      else case cur of Some (Index c) \<Rightarrow> if replaces i c then Some (Index (plain_index i)) else cur | _ \<Rightarrow> cur)"

fun version_type :: "version \<Rightarrow> ValueType" where
  "version_type (Inline v) = kTypeValue"
| "version_type (Index i) = kTypeBlobIndex"

fun version_value :: "version \<Rightarrow> bytes" where
  "version_value (Inline v) = v"
| "version_value (Index i) = BlobIndex_EncodeTo i"

fun version_ok :: "u64 \<times> version \<Rightarrow> bool" where
  "version_ok (seq, Inline v) = (seq < 2 ^ 56)"
| "version_ok (seq, Index i) = (seq < 2 ^ 56 \<and> BlobIndex_wf i)"

definition version_entry :: "bytes \<Rightarrow> u64 \<times> version \<Rightarrow> bytes \<times> bytes" where
  "version_entry k sv = (InternalKey_Encode k (fst sv) (version_type (snd sv)), version_value (snd sv))"

definition no_inline :: "version list \<Rightarrow> bool" where
  "no_inline vs \<longleftrightarrow> (\<forall>v. Inline v \<notin> set vs)"

text \<open>
  The histories of a key, newest version first, on which the merge of versions is right: no value in
  place is older than a plain index, and the newest write-back is not on top of another one.
\<close>

fun resolvable :: "version list \<Rightarrow> bool" where
  "resolvable [] = False"
| "resolvable (Inline v # vs) = True"
| "resolvable (Index i # vs) =
     (if bi_old_file_number i = 0 then no_inline vs
      else case vs of
             [] \<Rightarrow> True
           | Inline v # _ \<Rightarrow> True
           | Index c # ws \<Rightarrow> bi_old_file_number c = 0 \<and> no_inline ws)"

text \<open>What the preprocessing makes of the version so far and the next older one.\<close>

fun combine :: "version \<Rightarrow> version \<Rightarrow> version" where
  "combine (Inline v) w = Inline v"
| "combine (Index i) (Inline w) = Inline w"
| "combine (Index i) (Index c) = (if bi_old_file_number i = 0 then Index i else Index (plain_index (if replaces i c then i else c)))"

fun combine_seq :: "u64 \<times> version \<Rightarrow> u64 \<times> version \<Rightarrow> u64 \<times> version" where
  "combine_seq (s, v) (t, w) = (case (v, w) of (Index i, Inline b) \<Rightarrow> t | _ \<Rightarrow> s, combine v w)"

section \<open>The preprocessing meets the specification\<close>

lemma foldl_combine_Inline: "foldl combine (Inline v) vs = Inline v"
  by (induction vs) auto

lemma foldl_combine_plain: "\<lbrakk>bi_old_file_number i = 0; no_inline vs\<rbrakk> \<Longrightarrow> foldl combine (Index i) vs = Index i"
proof (induction vs)
  case (Cons w vs)
  then show ?case by (cases w) (auto simp: no_inline_def)
qed simp

lemma plain_index_simps [simp]:
  "bi_old_file_number (plain_index i) = 0" "BlobIndex_wf (plain_index i)" "plain_index (plain_index i) = plain_index i"
  "bi_file_number (plain_index i) = bi_file_number i" "bi_blob_handle (plain_index i) = bi_blob_handle i"
  by (simp_all add: plain_index_def BlobIndex_wf_def)

lemma plain_index_id: "\<lbrakk>BlobIndex_wf i; bi_old_file_number i = 0\<rbrakk> \<Longrightarrow> plain_index i = i"
  by (cases i) (simp add: plain_index_def BlobIndex_wf_def)

lemma combine_versions:
  assumes "resolvable (v # vs)" "list_all (\<lambda>v. version_ok (0, v)) (v # vs)"
  shows "apply_version (foldl combine v vs) base = fold apply_version (rev (v # vs)) base"
proof (cases v)
  case (Index i)
  show ?thesis
  proof (cases "bi_old_file_number i = 0")
    case False
    show ?thesis
    proof (cases vs)
      case vs: (Cons w ws)
      show ?thesis
      proof (cases w)
        case (Index c)
        then have c: "bi_old_file_number c = 0" "no_inline ws" "plain_index c = c"
          using assms False vs \<open>v = Index i\<close> by (simp_all add: plain_index_id)
        have "foldl combine v vs = foldl combine (Index (plain_index (if replaces i c then i else c))) ws"
          using False vs \<open>v = Index i\<close> Index by simp
        also have "\<dots> = Index (plain_index (if replaces i c then i else c))"
          using c(2) by (intro foldl_combine_plain) simp_all
        finally show ?thesis using False vs \<open>v = Index i\<close> Index c by simp
      qed (use False vs Index in \<open>simp add: foldl_combine_Inline\<close>)
    qed (use Index in simp)
  qed (use assms(1) Index in \<open>simp add: foldl_combine_plain\<close>)
qed (simp add: foldl_combine_Inline)

lemma GetBlobIndexType_Encode:
  "GetBlobIndexType (PutVarint64 f @ BlobHandle_EncodeTo h @ rest) =
     Some (\<lparr> bt_file_number = f, bt_offset = bh_offset h, bt_size = bh_size h, bt_index = bh_index h \<rparr>, rest)"
  by (simp add: GetBlobIndexType_def BlobHandle_EncodeTo_def)

lemma old_part_nonempty: "PutVarint64 f @ BlobHandle_EncodeTo h \<noteq> []"
  using varint64.enc_nonempty [of f] by simp

lemma GetTypedBlobIndex_Encode:
  "GetTypedBlobIndex (BlobIndex_EncodeTo i) =
     Some (\<lparr> bt_file_number = bi_file_number i, bt_offset = bh_offset (bi_blob_handle i), bt_size = bh_size (bi_blob_handle i),
             bt_index = bh_index (bi_blob_handle i) \<rparr>,
           if 0 < bi_old_file_number i then PutVarint64 (bi_old_file_number i) @ BlobHandle_EncodeTo (bi_old_blob_handle i) else [])"
  by (simp add: GetTypedBlobIndex_def BlobIndex_EncodeTo_def GetChar_def kBlobRecord_def GetBlobIndexType_Encode)

lemma PutBlobIndexType_plain:
  "PutBlobIndexType \<lparr> bt_file_number = bi_file_number i, bt_offset = bh_offset (bi_blob_handle i), bt_size = bh_size (bi_blob_handle i),
     bt_index = bh_index (bi_blob_handle i) \<rparr> = BlobIndex_EncodeTo (plain_index i)"
  by (simp add: PutBlobIndexType_def BlobIndex_EncodeTo_def kBlobRecord_def BlobHandle_EncodeTo_def)

lemma CheckBlobIndex_Encode:
  "CheckBlobIndex (BlobIndex_EncodeTo i) (BlobIndex_EncodeTo c) =
     Inr (if bi_old_file_number i = 0 then None else Some (BlobIndex_EncodeTo (plain_index (if replaces i c then i else c))))"
  using GetBlobIndexType_Encode [of "bi_old_file_number i" "bi_old_blob_handle i" "[]"] old_part_nonempty
  by (simp add: CheckBlobIndex_def GetTypedBlobIndex_Encode word_gt_0 PutBlobIndexType_plain replaces_def)

definition version_kv :: "bytes \<Rightarrow> u64 \<times> version \<Rightarrow> kv_type" where
  "version_kv k sv = \<lparr> kv_key = fst (version_entry k sv), kv_value = snd (version_entry k sv), kv_user_key = k \<rparr>"

lemma version_type_extended: "IsExtendedValueType (version_type v)"
  by (cases v) (simp_all add: IsExtendedValueType_def IsValueType_def kTypeValue_def kTypeMerge_def kTypeBlobIndex_def word_le_nat_alt)

lemma value_types_distinct [simp]: "kTypeValue \<noteq> kTypeBlobIndex" "kTypeBlobIndex \<noteq> kTypeValue"
  by (simp_all add: kTypeValue_def kTypeBlobIndex_def)

lemma parse_version_entry:
  "version_ok sv \<Longrightarrow> ParseInternalKey (fst (version_entry k sv)) =
     Inr \<lparr> ik_user_key = k, ik_sequence = fst sv, ik_type = version_type (snd sv) \<rparr>"
  by (cases sv rule: version_ok.cases) (simp_all add: version_entry_def ParseInternalKey_Encode version_type_extended del: version_type.simps)

lemma version_type_cases: "version_type v = kTypeValue \<or> version_type v = kTypeBlobIndex"
  by (cases v) simp_all

lemma pp_merge_versions:
  assumes "version_ok sv" "version_ok tw"
  shows "pp_merge \<lparr> ik_user_key = k, ik_sequence = fst tw, ik_type = version_type (snd tw) \<rparr> (version_kv k sv) (version_kv k tw) =
    Inr (version_kv k (combine_seq sv tw))"
proof -
  obtain s v t w where sv: "sv = (s, v)" "tw = (t, w)" by (metis surj_pair)
  have "ParseInternalKey (kv_key (version_kv k sv)) = Inr \<lparr> ik_user_key = k, ik_sequence = s, ik_type = version_type v \<rparr>"
    using parse_version_entry [OF assms(1), of k] by (simp add: version_kv_def sv)
  then show ?thesis
    unfolding pp_merge_def sv
    by (cases v; cases w) (auto simp: version_kv_def version_entry_def CheckBlobIndex_Encode)
qed

lemma combine_seq_ok: "\<lbrakk>version_ok sv; version_ok tw\<rbrakk> \<Longrightarrow> version_ok (combine_seq sv tw)"
  by (cases sv rule: version_ok.cases; cases tw rule: version_ok.cases) auto

lemma foldl_combine_seq:
  "list_all version_ok (sv # g) \<Longrightarrow>
     version_ok (foldl combine_seq sv g) \<and> snd (foldl combine_seq sv g) = foldl combine (snd sv) (map snd g) \<and>
     fst (foldl combine_seq sv g) \<in> fst ` set (sv # g)"
proof (induction g arbitrary: sv)
  case (Cons tw g)
  obtain s v t w where sv: "sv = (s, v)" "tw = (t, w)" by (metis surj_pair)
  have "list_all version_ok (combine_seq sv tw # g)" using Cons.prems combine_seq_ok by simp
  moreover have "fst (combine_seq sv tw) \<in> {fst sv, fst tw}" "snd (combine_seq sv tw) = combine (snd sv) (snd tw)"
    by (auto simp: sv split: version.splits)
  ultimately show ?case using Cons.IH [of "combine_seq sv tw"] by auto
qed simp

text \<open>One key's versions leave one entry at the end of the queue.\<close>

lemma Preprocess_same_key:
  assumes "comparator cmp" "list_all version_ok (sv # g)" "ci_kv_queue ci = Q @ [version_kv k sv]"
  shows "\<exists>ci'. Preprocess cmp (map (version_entry k) g @ rest) ci = Preprocess cmp rest ci' \<and>
    ci_kv_queue ci' = Q @ [version_kv k (foldl combine_seq sv g)] \<and> ci_kv_queue_offset ci' = ci_kv_queue_offset ci"
  using assms(2,3)
proof (induction g arbitrary: sv ci)
  case Nil
  then show ?case by (intro exI [of _ ci]) simp
next
  case (Cons tw g)
  let ?ik = "\<lparr> ik_user_key = k, ik_sequence = fst tw, ik_type = version_type (snd tw) \<rparr>"
  have p: "ParseInternalKey (fst (version_entry k tw)) = Inr ?ik" using Cons.prems(1) parse_version_entry by simp
  have "cmp k k = 0" using assms(1) by (simp add: comparator.cmp_eq)
  then have "pp_queue cmp ?ik (version_kv k tw) (ci_kv_queue ci) = Inr (Q @ [version_kv k (combine_seq sv tw)])"
    using Cons.prems pp_merge_versions [of sv tw k] by (simp add: pp_queue_def) (simp add: version_kv_def)
  then obtain ci1 where ci1: "Preprocess cmp (map (version_entry k) (tw # g) @ rest) ci = Preprocess cmp (map (version_entry k) g @ rest) ci1"
    "ci_kv_queue ci1 = Q @ [version_kv k (combine_seq sv tw)]" "ci_kv_queue_offset ci1 = ci_kv_queue_offset ci"
    using p version_type_cases [of "snd tw"] by (cases "version_entry k tw") (fastforce simp: version_kv_def)
  have "list_all version_ok (combine_seq sv tw # g)" using Cons.prems(1) combine_seq_ok by simp
  from Cons.IH [OF this ci1(2)] show ?case using ci1(1,3) by simp
qed

lemma Preprocess_key:
  assumes "comparator cmp" "list_all version_ok (sv # g)" "ci_kv_queue ci = [] \<or> kv_user_key (last (ci_kv_queue ci)) \<noteq> k"
  shows "\<exists>ci'. Preprocess cmp (map (version_entry k) (sv # g) @ rest) ci = Preprocess cmp rest ci' \<and>
    ci_kv_queue ci' = ci_kv_queue ci @ [version_kv k (foldl combine_seq sv g)] \<and> ci_kv_queue_offset ci' = ci_kv_queue_offset ci"
proof -
  let ?ik = "\<lparr> ik_user_key = k, ik_sequence = fst sv, ik_type = version_type (snd sv) \<rparr>"
  have p: "ParseInternalKey (fst (version_entry k sv)) = Inr ?ik" using assms(2) parse_version_entry by simp
  have "pp_queue cmp ?ik (version_kv k sv) (ci_kv_queue ci) = Inr (ci_kv_queue ci @ [version_kv k sv])"
    using assms(1,3) by (auto simp: pp_queue_def comparator.cmp_eq)
  then obtain ci1 where ci1: "Preprocess cmp (map (version_entry k) (sv # g) @ rest) ci = Preprocess cmp (map (version_entry k) g @ rest) ci1"
    "ci_kv_queue ci1 = ci_kv_queue ci @ [version_kv k sv]" "ci_kv_queue_offset ci1 = ci_kv_queue_offset ci"
    using p version_type_cases [of "snd sv"] by (cases "version_entry k sv") (fastforce simp: version_kv_def)
  from Preprocess_same_key [OF assms(1,2) ci1(2)] show ?thesis using ci1(1,3) by simp
qed

definition merged_kv :: "bytes \<times> (u64 \<times> version) list \<Rightarrow> kv_type" where
  "merged_kv kg = version_kv (fst kg) (foldl combine_seq (hd (snd kg)) (tl (snd kg)))"

lemma Preprocess_groups:
  assumes "comparator cmp" "list_all (\<lambda>(k, g). g \<noteq> [] \<and> list_all version_ok g) gs" "distinct (map fst gs)"
    and "ci_kv_queue ci = [] \<or> kv_user_key (last (ci_kv_queue ci)) \<notin> fst ` set gs"
  shows "\<exists>ci'. Preprocess cmp (concat (map (\<lambda>(k, g). map (version_entry k) g) gs)) ci = Inr ci' \<and>
    ci_kv_queue ci' = ci_kv_queue ci @ map merged_kv gs \<and> ci_kv_queue_offset ci' = ci_kv_queue_offset ci \<and> ci_valid ci'"
  using assms(2-)
proof (induction gs arbitrary: ci)
  case (Cons kg gs)
  obtain k sv g where kg: "kg = (k, sv # g)" using Cons.prems(1) by (cases kg; cases "snd kg") auto
  obtain ci1 where ci1: "Preprocess cmp (map (version_entry k) (sv # g) @ concat (map (\<lambda>(k, g). map (version_entry k) g) gs)) ci =
      Preprocess cmp (concat (map (\<lambda>(k, g). map (version_entry k) g) gs)) ci1"
    "ci_kv_queue ci1 = ci_kv_queue ci @ [version_kv k (foldl combine_seq sv g)]" "ci_kv_queue_offset ci1 = ci_kv_queue_offset ci"
    using Preprocess_key [OF assms(1), of sv g ci k] Cons.prems kg by fastforce
  have "ci_kv_queue ci1 = [] \<or> kv_user_key (last (ci_kv_queue ci1)) \<notin> fst ` set gs"
    using ci1(2) Cons.prems(2) kg by (simp add: version_kv_def)
  then obtain ci2 where "Preprocess cmp (concat (map (\<lambda>(k, g). map (version_entry k) g) gs)) ci1 = Inr ci2"
    "ci_kv_queue ci2 = ci_kv_queue ci1 @ map merged_kv gs" "ci_kv_queue_offset ci2 = ci_kv_queue_offset ci1" "ci_valid ci2"
    using Cons.IH [of ci1] Cons.prems(1,2) by auto
  then show ?case using ci1 kg by (simp add: merged_kv_def)
qed simp

lemma NextFromCache_keeps:
  "ci_kv_queue (NextFromCache ci) = ci_kv_queue ci"
  by (simp add: NextFromCache_def Let_def)

text \<open>An entry of the queue as it is put out.\<close>

definition prepared :: "CompactionContext \<Rightarrow> kv_type \<Rightarrow> bytes \<times> bytes" where
  "prepared cc kv =
     (case ParseInternalKey (kv_key kv) of
        Inl _ \<Rightarrow> (kv_key kv, kv_value kv)
      | Inr ikey \<Rightarrow> (if zeroes_seq cc (ik_sequence ikey) (ik_type ikey) then UpdateInternalKey (kv_key kv) 0 (ik_type ikey) else kv_key kv, kv_value kv))"

lemma PrepareOutput_keeps [simp]:
  "ci_kv_queue (PrepareOutput cc ci) = ci_kv_queue ci" "ci_kv_queue_offset (PrepareOutput cc ci) = ci_kv_queue_offset ci"
  "ci_valid (PrepareOutput cc ci) = ci_valid ci" "ci_value (PrepareOutput cc ci) = ci_value ci"
  by (simp_all add: PrepareOutput_def)

lemma ci_drain_cache:
  assumes "length (ci_kv_queue ci) < 2 ^ 64" "ci_valid ci" "list_all (\<lambda>kv. \<exists>ikey. ParseInternalKey (kv_key kv) = Inr ikey) (ci_kv_queue ci)"
  shows "ci_drain cc m (PrepareOutput cc (NextFromCache ci)) = take m (map (prepared cc) (drop (unat (ci_kv_queue_offset ci)) (ci_kv_queue ci)))"
  using assms
proof (induction m arbitrary: ci)
  case (Suc m)
  let ?o = "unat (ci_kv_queue_offset ci)"
  show ?case
  proof (cases "?o < length (ci_kv_queue ci)")
    case True
    let ?ci = "PrepareOutput cc (NextFromCache ci)" and ?kv = "ci_kv_queue ci ! ?o"
    obtain ikey where ikey: "ParseInternalKey (kv_key ?kv) = Inr ikey" using Suc.prems(3) True by (auto simp: list_all_length)
    have "unat (ci_kv_queue_offset ci + 1) = Suc ?o" using True Suc.prems(1) by (simp add: unat_word_ariths)
    then have n: "ci_valid ?ci" "unat (ci_kv_queue_offset ?ci) = Suc ?o" "(ci_key ?ci, ci_value ?ci) = prepared cc ?kv"
      using True Suc.prems(2) ikey by (simp_all add: NextFromCache_def prepared_def PrepareOutput_def Let_def)
    have "ci_drain cc m (PrepareOutput cc (NextFromCache ?ci)) = take m (map (prepared cc) (drop (Suc ?o) (ci_kv_queue ci)))"
      using Suc.IH [of ?ci] Suc.prems(1,3) n(1,2) NextFromCache_keeps by simp
    then show ?thesis using n True by (simp add: Cons_nth_drop_Suc [symmetric])
  qed (simp add: NextFromCache_def)
qed simp

lemma ci_output_queue:
  assumes "Preprocess cmp input ci = Inr ci'" "ci_valid ci'" "ci_kv_queue_offset ci' = 0" "length (ci_kv_queue ci') < 2 ^ 64"
    and "list_all (\<lambda>kv. \<exists>ikey. ParseInternalKey (kv_key kv) = Inr ikey) (ci_kv_queue ci')"
  shows "ci_output cc cmp input ci = Inr (map (prepared cc) (ci_kv_queue ci'))"
  using assms ci_drain_cache [of ci' cc "Suc (length (ci_kv_queue ci'))"] by (simp add: ci_output_def del: ci_drain.simps)

text \<open>The sequence number a version is put out under.\<close>

definition out_seq :: "CompactionContext \<Rightarrow> u64 \<Rightarrow> version \<Rightarrow> u64" where
  "out_seq cc seq v = (if zeroes_seq cc seq (version_type v) then 0 else seq)"

lemma UpdateInternalKey_Encode: "UpdateInternalKey (InternalKey_Encode k s t) s' t' = InternalKey_Encode k s' t'"
  by (simp add: UpdateInternalKey_def InternalKey_Encode_def AppendInternalKey_def kNumInternalBytes_def PutFixed64_def PackSequenceAndType_def)

lemma prepared_version:
  assumes "version_ok (s, v)"
  shows "prepared cc (version_kv k (s, v)) = version_entry k (out_seq cc s v, v) \<and> (\<exists>ikey. ParseInternalKey (kv_key (version_kv k (s, v))) = Inr ikey)"
  using parse_version_entry [OF assms, of k]
  by (simp add: prepared_def version_kv_def out_seq_def) (simp add: version_entry_def UpdateInternalKey_Encode)

text \<open>
  C5: a flush or compaction that preprocesses its input resolves the write-backs of an offloaded
  collection: from the versions of each key, newest first, it keeps exactly one entry for the key,
  under the sequence number of one of them (or zero, in a compaction to the bottommost level, when
  every snapshot sees that version), and applying that entry to whatever the older levels hold
  gives what applying all the versions in their order gives, where a write-back takes effect only on
  the index it replaces. It holds for histories without deletions in which no value in place is older
  than a plain index and the newest write-back is not on top of another one; the property that
  follows shows a history for which it does not.
\<close>

theorem preprocess_resolves:
  assumes "comparator cmp" "distinct (map fst gs)" "length gs < 2 ^ 64"
    and "list_all (\<lambda>(k, g). list_all version_ok g \<and> resolvable (map snd g)) gs"
    and "ci_kv_queue ci = []" "ci_kv_queue_offset ci = 0"
  shows "\<exists>es. ci_output cc cmp (concat (map (\<lambda>(k, g). map (version_entry k) g) gs)) ci = Inr es \<and>
    list_all2 (\<lambda>(k, g) e. \<exists>seq v. e = version_entry k (out_seq cc seq v, v) \<and> seq \<in> fst ` set g \<and>
      (\<forall>base. apply_version v base = fold apply_version (rev (map snd g)) base)) gs es"
proof -
  have "list_all (\<lambda>(k, g). g \<noteq> [] \<and> list_all version_ok g) gs"
    using assms(4) by (auto simp: list_all_iff)
  then obtain ci' where ci': "Preprocess cmp (concat (map (\<lambda>(k, g). map (version_entry k) g) gs)) ci = Inr ci'"
    "ci_kv_queue ci' = map merged_kv gs" "ci_kv_queue_offset ci' = 0" "ci_valid ci'"
    using Preprocess_groups [OF assms(1) _ assms(2), of ci] assms(5,6) by auto
  have merged: "version_ok (foldl combine_seq (hd g) (tl g))" if "(k, g) \<in> set gs" for k g
    using that assms(4) foldl_combine_seq [of "hd g" "tl g"] by (cases g) (auto simp: list_all_iff)
  have "\<exists>ikey. ParseInternalKey (kv_key (merged_kv kg)) = Inr ikey" if "kg \<in> set gs" for kg
    using prepared_version [of _ _ cc] merged [of "fst kg" "snd kg"] that by (cases "foldl combine_seq (hd (snd kg)) (tl (snd kg))") (simp add: merged_kv_def)
  then have "ci_output cc cmp (concat (map (\<lambda>(k, g). map (version_entry k) g) gs)) ci = Inr (map (prepared cc \<circ> merged_kv) gs)"
    using ci_output_queue [OF ci'(1,4,3)] ci'(2) assms(3) by (simp add: list_all_iff)
  moreover have "\<exists>seq v. prepared cc (merged_kv (k, g)) = version_entry k (out_seq cc seq v, v) \<and> seq \<in> fst ` set g \<and>
      (\<forall>base. apply_version v base = fold apply_version (rev (map snd g)) base)"
    if ok: "list_all version_ok g" and res: "resolvable (map snd g)" for k g
  proof -
    obtain sv h where g: "g = sv # h" using res by (cases g) auto
    have f: "version_ok (foldl combine_seq sv h)" "snd (foldl combine_seq sv h) = foldl combine (snd sv) (map snd h)" "fst (foldl combine_seq sv h) \<in> fst ` set g"
      using foldl_combine_seq [of sv h] ok g by simp_all
    have "list_all (\<lambda>v. version_ok (0, v)) (snd sv # map snd h)"
      using ok g by (auto simp: list_all_iff elim!: version_ok.elims)
    then have "apply_version (snd (foldl combine_seq sv h)) base = fold apply_version (rev (map snd g)) base" for base
      using combine_versions [of "snd sv" "map snd h" base] res g f(2) by simp
    then show ?thesis
      using f(1,3) g prepared_version [of "fst (foldl combine_seq sv h)" "snd (foldl combine_seq sv h)" cc k]
      by (intro exI [of _ "fst (foldl combine_seq sv h)"] exI [of _ "snd (foldl combine_seq sv h)"]) (simp add: merged_kv_def)
  qed
  ultimately show ?thesis using assms(4) by (fastforce simp: list_all2_conv_all_nth list_all_length split: prod.splits)
qed

definition demo_write_back :: BlobIndex where
  "demo_write_back = \<lparr> bi_file_number = 7, bi_blob_handle = \<lparr> bh_offset = 12, bh_size = 13, bh_index = 0 \<rparr>,
     bi_old_file_number = 3, bi_old_blob_handle = \<lparr> bh_offset = 300, bh_size = 13, bh_index = 4 \<rparr> \<rparr>"

definition demo_old :: BlobIndex where
  "demo_old = \<lparr> bi_file_number = 3, bi_blob_handle = \<lparr> bh_offset = 300, bh_size = 13, bh_index = 4 \<rparr>,
     bi_old_file_number = 0, bi_old_blob_handle = BlobHandle_default \<rparr>"

definition demo_ci :: CompactionIterator where
  "demo_ci = \<lparr> ci_kv_queue = [], ci_kv_queue_offset = 0, ci_valid = False, ci_key = [], ci_value = [],
     ci_ikey = \<lparr> ik_user_key = [], ik_sequence = 0, ik_type = 0 \<rparr>, ci_current_user_key = [], ci_num_input_records = 0,
     ci_total_input_raw_key_bytes = 0, ci_total_input_raw_value_bytes = 0 \<rparr>"

definition demo_bottommost :: CompactionContext where
  "demo_bottommost = \<lparr> cc_compaction = True, cc_allow_ingest_behind = False, cc_preserve_deletes = False, cc_bottommost_level = True,
     cc_preserve_deletes_seqnum = 0, cc_earliest_snapshot = 8, cc_snapshot_checker = None \<rparr>"

theorem preprocess_resolves_witness:
  "\<exists>e1 e2. ci_output demo_bottommost bytewise_compare
       [version_entry [1] (9, Index demo_write_back), version_entry [1] (4, Index demo_old),
        version_entry [2] (8, Index demo_write_back), version_entry [2] (6, Inline [5])] demo_ci = Inr [e1, e2] \<and>
     (\<exists>seq v. e1 = version_entry [1] (seq, v) \<and> apply_version v None = Some (Index (plain_index demo_write_back))) \<and>
     (\<exists>seq v. e2 = version_entry [2] (seq, v) \<and> apply_version v None = Some (Inline [5]))"
proof -
  let ?gs = "[([1], [(9, Index demo_write_back), (4, Index demo_old)]), ([2], [(8, Index demo_write_back), (6, Inline [5])])]"
  have "list_all (\<lambda>(k, g). list_all version_ok g \<and> resolvable (map snd g)) ?gs"
    by (simp add: demo_write_back_def demo_old_def BlobIndex_wf_def no_inline_def)
  from preprocess_resolves [OF bytewise.comparator_axioms _ _ this, of demo_ci demo_bottommost] show ?thesis
    by (fastforce simp: demo_ci_def list_all2_Cons1 demo_write_back_def demo_old_def replaces_def)
qed

text \<open>
  C36: when a key's newer version is a plain index and an older one a value in place, as for a value
  that grew past the separation threshold, the preprocessing keeps the older value and drops the
  newer index.
\<close>

theorem preprocess_resurrects:
  assumes "comparator cmp" "version_ok (s, Index i)" "bi_old_file_number i = 0" "version_ok (t, Inline v)" "ci_kv_queue ci = []" "ci_kv_queue_offset ci = 0"
  shows "ci_output cc cmp [version_entry k (s, Index i), version_entry k (t, Inline v)] ci = Inr [version_entry k (out_seq cc t (Inline v), Inline v)] \<and>
    fold apply_version [Inline v, Index i] base = Some (Index i)"
proof -
  obtain ci' where ci': "Preprocess cmp (map (version_entry k) [(s, Index i), (t, Inline v)] @ []) ci = Preprocess cmp [] ci'"
    "ci_kv_queue ci' = [version_kv k (t, Inline v)]" "ci_kv_queue_offset ci' = 0"
    using Preprocess_key [OF assms(1), of "(s, Index i)" "[(t, Inline v)]" ci k "[]"] assms by auto
  then show ?thesis
    using assms(3) prepared_version [OF assms(4), of cc k] ci_output_queue [of cmp _ ci "ci'\<lparr> ci_valid := True \<rparr>" cc] by simp
qed

theorem preprocess_resurrects_witness:
  "ci_output demo_bottommost bytewise_compare [version_entry [1] (19, Index demo_old), version_entry [1] (14, Inline [5])] demo_ci =
     Inr [version_entry [1] (14, Inline [5])] \<and>
   fold apply_version [Inline [5], Index demo_old] None = Some (Index demo_old)"
  using preprocess_resurrects [OF bytewise.comparator_axioms, of 19 demo_old 14 "[5]" demo_ci demo_bottommost "[1]" None]
  by (simp add: demo_ci_def demo_old_def BlobIndex_wf_def out_seq_def zeroes_seq_def DefinitelyInSnapshot_def demo_bottommost_def)

section \<open>Reads of the active memtable\<close>

text \<open>In a memtable a version may also be a deletion, written \<open>None\<close>.\<close>

fun mem_of :: "bytes \<Rightarrow> u64 \<times> version option \<Rightarrow> mem_entry" where
  "mem_of k (q, None) = \<lparr> me_user_key = k, me_seq = q, me_type = kTypeDeletion, me_value = [] \<rparr>"
| "mem_of k (q, Some v) = \<lparr> me_user_key = k, me_seq = q, me_type = version_type v, me_value = version_value v \<rparr>"

fun apply_mem :: "version option \<Rightarrow> version option \<Rightarrow> version option" where
  "apply_mem None cur = None"
| "apply_mem (Some v) cur = apply_version v cur"

definition mem_holds :: "(bytes \<Rightarrow> bytes \<Rightarrow> int) \<Rightarrow> MemTable \<Rightarrow> bytes \<Rightarrow> u64 \<Rightarrow> (u64 \<times> version option) list \<Rightarrow> bool" where
  "mem_holds cmp mt k snapshot vs \<longleftrightarrow>
     (\<exists>before after. mt_entries mt = before @ map (mem_of k) vs @ after \<and>
        (\<forall>e\<in>set before. cmp (me_user_key e) k < 0) \<and> (\<forall>e\<in>set after. 0 < cmp (me_user_key e) k)) \<and>
     mt_MaxCoveringTombstoneSeqnum mt k snapshot = 0 \<and> (\<forall>(q, v)\<in>set vs. q \<le> snapshot)"

fun read_as :: "Saver \<Rightarrow> version option \<Rightarrow> bool" where
  "read_as s None = (sv_status s = NotFound '''')"
| "read_as s (Some (Inline v)) = (sv_status s = OK \<and> sv_value s = v \<and> sv_is_blob_index s = Some False)"
| "read_as s (Some (Index c)) = (sv_status s = OK \<and> sv_is_blob_index s = Some True \<and>
     (\<exists>i. sv_value s = BlobIndex_EncodeTo i \<and> plain_index i = plain_index c))"


lemma deletion_type_distinct [simp]:
  "kTypeDeletion \<noteq> kTypeBlobIndex" "kTypeDeletion \<noteq> kTypeValue" "kTypeDeletion \<noteq> kTypeMerge"
  by (simp_all add: kTypeDeletion_def kTypeBlobIndex_def kTypeValue_def kTypeMerge_def)

lemma SaverCheck_Encode: "SaverCheckIsGCWriteBack (BlobIndex_EncodeTo i) = Inr (bi_old_file_number i \<noteq> 0)"
  using old_part_nonempty [of "bi_old_file_number i" "bi_old_blob_handle i"]
  by (simp add: SaverCheckIsGCWriteBack_def GetTypedBlobIndex_Encode word_gt_0)

lemma SaveValue_deletion:
  "comparator cmp \<Longrightarrow> SaveValue cmp k (\<lambda>_. True) 0 (mem_of k (q, None)) s =
     (False, s\<lparr> sv_seq := q, sv_status := NotFound '''', sv_found_final_value := True \<rparr>)"
  by (simp add: SaveValue_def comparator.cmp_eq)

lemma SaveValue_inline:
  "comparator cmp \<Longrightarrow> sv_pending_check_in_mem s \<noteq> None \<Longrightarrow> sv_is_blob_index s \<noteq> None \<Longrightarrow>
   SaveValue cmp k (\<lambda>_. True) 0 (mem_of k (q, Some (Inline v))) s =
     (False, s\<lparr> sv_seq := q, sv_status := OK, sv_value := v, sv_found_final_value := True, sv_is_blob_index := Some False,
                sv_pending_check_in_mem := Some False \<rparr>)"
  by (auto simp: SaveValue_def comparator.cmp_eq sv_take_def sv_assign_def)

lemma SaveValue_index:
  "comparator cmp \<Longrightarrow> sv_pending_check_in_mem s = Some False \<Longrightarrow> sv_is_blob_index s \<noteq> None \<Longrightarrow> sv_status s = OK \<Longrightarrow>
   SaveValue cmp k (\<lambda>_. True) 0 (mem_of k (q, Some (Index i))) s =
     (bi_old_file_number i \<noteq> 0, s\<lparr> sv_seq := q, sv_status := OK, sv_value := BlobIndex_EncodeTo i, sv_found_final_value := True,
        sv_is_blob_index := Some True, sv_pending_check_in_mem := Some (bi_old_file_number i \<noteq> 0) \<rparr>)"
  by (auto simp: SaveValue_def comparator.cmp_eq sv_take_def sv_assign_def SaverCheck_Encode)

lemma SaveValue_other:
  "comparator cmp \<Longrightarrow> 0 < cmp (me_user_key e) k \<Longrightarrow> SaveValue cmp k (\<lambda>_. True) m e s = (False, s)"
  by (simp add: SaveValue_def)

lemmas SaveValue_cases = SaveValue_deletion SaveValue_inline SaveValue_index SaveValue_other

lemma mem_of_fields: "me_user_key (mem_of k qv) = k" "me_seq (mem_of k qv) = fst qv"
  by (cases "(k, qv)" rule: mem_of.cases; simp)+

lemma mt_Get_scan:
  assumes "comparator cmp" "mem_holds cmp mt k snapshot vs" "vs \<noteq> []"
  shows "\<exists>after. (\<forall>e\<in>set after. 0 < cmp (me_user_key e) k) \<and>
    mt_Get cmp k snapshot check mt 0 s =
      (0, mt_scan (SaveValue cmp k check 0) (map (mem_of k) vs @ after) (s\<lparr> sv_found_final_value := False, sv_seq := kMaxSequenceNumber \<rparr>))"
proof -
  obtain before after where e: "mt_entries mt = before @ map (mem_of k) vs @ after" "\<forall>e\<in>set before. cmp (me_user_key e) k < 0"
    "\<forall>e\<in>set after. 0 < cmp (me_user_key e) k"
    using assms(2) by (auto simp: mem_holds_def)
  obtain qv ws where vs: "vs = qv # ws" using assms(3) by (cases vs) auto
  have "\<not> snapshot < me_seq (mem_of k qv)" using assms(2) vs by (auto simp: mem_holds_def mem_of_fields not_less)
  moreover have "dropWhile (\<lambda>e. cmp (me_user_key e) k < 0 \<or> cmp (me_user_key e) k = 0 \<and> snapshot < me_seq e) (before @ xs) =
      dropWhile (\<lambda>e. cmp (me_user_key e) k < 0 \<or> cmp (me_user_key e) k = 0 \<and> snapshot < me_seq e) xs" for xs
    using e(2) by (intro dropWhile_append2) simp
  ultimately have "dropWhile (\<lambda>e. cmp (me_user_key e) k < 0 \<or> cmp (me_user_key e) k = 0 \<and> snapshot < me_seq e) (mt_entries mt) = map (mem_of k) vs @ after"
    using e(1) assms(1) vs by (simp add: mem_of_fields comparator.cmp_refl)
  then show ?thesis using e vs assms(2) by (intro exI [of _ after]) (simp add: mt_Get_def Let_def mem_holds_def max_def)
qed



definition demo_mem :: "(u64 \<times> version option) list \<Rightarrow> MemTable" where
  "demo_mem vs = \<lparr> mt_entries = map (mem_of [1]) vs, mt_MaxCoveringTombstoneSeqnum = \<lambda>_ _. 0 \<rparr>"

lemma demo_mem_holds: "\<forall>(q, v)\<in>set vs. q \<le> 10 \<Longrightarrow> mem_holds cmp (demo_mem vs) [1] 10 vs"
  unfolding mem_holds_def demo_mem_def by (intro conjI exI [of _ "[]"]) auto


text \<open>
  C37: the check does not reach past the active memtable: when the newest version of a key is a
  write-back there and the user's later value has already moved to an immutable memtable, a read
  returns the index of the stale record instead of the value.
\<close>

theorem stale_write_back_read:
  assumes "comparator cmp" "mem_holds cmp mem k snapshot [(q, Some (Index i))]" "mem_holds cmp mt k snapshot [(r, Some (Inline v))]"
    and "bi_old_file_number i \<noteq> 0" "imm = mt # mts"
  shows "sv_found_final_value (db_GetFromMem cmp k snapshot (\<lambda>_. True) mem imm (Some b)) \<and>
    read_as (db_GetFromMem cmp k snapshot (\<lambda>_. True) mem imm (Some b)) (Some (Index i)) \<and>
    fold apply_mem [Some (Inline v), Some (Index i)] base = Some (Inline v)"
proof -
  let ?s = "\<lparr> sv_status = OK, sv_found_final_value = False, sv_value = [], sv_is_blob_index = Some b,
              sv_pending_check_in_mem = Some False, sv_seq = kMaxSequenceNumber \<rparr>"
  obtain after where a: "\<forall>e\<in>set after. 0 < cmp (me_user_key e) k"
    "mt_Get cmp k snapshot (\<lambda>_. True) mem 0 ?s = (0, mt_scan (SaveValue cmp k (\<lambda>_. True) 0) (map (mem_of k) [(q, Some (Index i))] @ after) ?s)"
    using mt_Get_scan [OF assms(1,2), of "\<lambda>_. True" ?s] by auto
  then show ?thesis using assms(4) by (cases after) (auto simp: db_GetFromMem_def SaveValue_cases [OF assms(1)] simp del: mem_of.simps)
qed

theorem stale_write_back_read_witness:
  "read_as (db_GetFromMem bytewise_compare [1] 10 (\<lambda>_. True) (demo_mem [(9, Some (Index demo_write_back))]) [demo_mem [(4, Some (Inline [5]))]] (Some False))
     (Some (Index demo_write_back))"
  using stale_write_back_read [OF bytewise.comparator_axioms demo_mem_holds demo_mem_holds, of 9 demo_write_back 4 "[5]"
      "[demo_mem [(4, Some (Inline [5]))]]" "[]" False None]
  by (simp add: demo_write_back_def)

end
