(* ===== verification/Gc_Schedule.thy ===== *)
theory Gc_Schedule
  imports Titan_Prelude
begin

text \<open>
  The scheduling of background collections (\<open>db_impl_gc.cc\<close>) and its interplay with the dropping of
  column families (\<open>db_impl.cc\<close>): the queue of column families, the counters kept under the mutex,
  the jobs of the thread pool and the condition variable on which jobs, drop requests and the
  closing of the database wait for each other. A step is what one thread does while it holds the
  mutex; which thread goes next is open.
\<close>

section \<open>Model\<close>

record SchedOptions =
  so_disable_background_gc :: bool
  so_max_background_gc :: int

text \<open>
  The first six fields are members of \<open>TitanDBImpl\<close>. The others say where the threads are: jobs the
  thread pool has not started, jobs that test \<open>drop_cf_requests_\<close> next or wait for it, the column
  families of the jobs inside \<open>BackgroundGC\<close>, jobs that have returned from it and flush their log with
  the mutex released, jobs the pool has discarded, drop requests that test \<open>bg_gc_running_\<close> next or
  wait for it or are inside the base database, and drop requests that have returned after its error.
\<close>

record GcSched =
  gs_queue :: "u32 list"
  gs_bg_gc_scheduled :: int
  gs_bg_gc_running :: int
  gs_unscheduled_gc :: int
  gs_drop_cf_requests :: int
  gs_shuting_down :: bool
  gs_submitted :: nat
  gs_ready :: nat
  gs_waiting :: nat
  gs_collecting :: "u32 list"
  gs_flushing :: nat
  gs_discarded :: nat
  gs_drop_ready :: nat
  gs_drop_waiting :: nat
  gs_dropping :: nat
  gs_drop_failed :: nat

definition GcSched_new :: GcSched where
  "GcSched_new = \<lparr> gs_queue = [], gs_bg_gc_scheduled = 0, gs_bg_gc_running = 0, gs_unscheduled_gc = 0, gs_drop_cf_requests = 0,
     gs_shuting_down = False, gs_submitted = 0, gs_ready = 0, gs_waiting = 0, gs_collecting = [], gs_flushing = 0, gs_discarded = 0,
     gs_drop_ready = 0, gs_drop_waiting = 0, gs_dropping = 0, gs_drop_failed = 0 \<rparr>"

definition AddToGCQueue :: "u32 \<Rightarrow> GcSched \<Rightarrow> GcSched" where
  "AddToGCQueue cf s = s\<lparr> gs_unscheduled_gc := gs_unscheduled_gc s + 1, gs_queue := gs_queue s @ [cf] \<rparr>"

definition PopFirstFromGCQueue :: "GcSched \<Rightarrow> u32 \<times> GcSched" where
  "PopFirstFromGCQueue s = (hd (gs_queue s), s\<lparr> gs_queue := tl (gs_queue s) \<rparr>)"

function schedule_loop :: "SchedOptions \<Rightarrow> GcSched \<Rightarrow> GcSched" where
  "schedule_loop opts s =
     (if 0 < gs_unscheduled_gc s \<and> gs_bg_gc_scheduled s < so_max_background_gc opts
      then schedule_loop opts
        (s\<lparr> gs_unscheduled_gc := gs_unscheduled_gc s - 1, gs_bg_gc_scheduled := gs_bg_gc_scheduled s + 1, gs_submitted := gs_submitted s + 1 \<rparr>)
      else s)"
  by pat_completeness auto
termination by (relation "measure (\<lambda>(opts, s). nat (gs_unscheduled_gc s))") auto

declare schedule_loop.simps [simp del]

definition MaybeScheduleGC :: "SchedOptions \<Rightarrow> GcSched \<Rightarrow> GcSched" where
  "MaybeScheduleGC opts s = (if so_disable_background_gc opts then s else if gs_shuting_down s then s else schedule_loop opts s)"

definition SignalAll :: "GcSched \<Rightarrow> GcSched" where
  "SignalAll s = s\<lparr> gs_ready := gs_ready s + gs_waiting s, gs_waiting := 0,
     gs_drop_ready := gs_drop_ready s + gs_drop_waiting s, gs_drop_waiting := 0 \<rparr>"

text \<open>
  A job holds the mutex in three sections: from the test of \<open>drop_cf_requests_\<close> to the collection, from
  the end of the collection to the end of \<open>BackgroundGC\<close>, and, after the log has been flushed, the end
  of \<open>BackgroundCallGC\<close>. A job that finds the queue empty goes from the first to the last without
  releasing the mutex.
\<close>

definition BackgroundCallGC_end :: "SchedOptions \<Rightarrow> GcSched \<Rightarrow> GcSched" where
  "BackgroundCallGC_end opts s =
     (let s = s\<lparr> gs_bg_gc_running := gs_bg_gc_running s - 1, gs_bg_gc_scheduled := gs_bg_gc_scheduled s - 1 \<rparr>;
          s = MaybeScheduleGC opts s
      in if gs_bg_gc_scheduled s = 0 \<or> gs_bg_gc_running s = 0 then SignalAll s else s)"

definition BackgroundCallGC_begin :: "SchedOptions \<Rightarrow> GcSched \<Rightarrow> GcSched" where
  "BackgroundCallGC_begin opts s =
     (let s = s\<lparr> gs_ready := gs_ready s - 1 \<rparr> in
      if 0 < gs_drop_cf_requests s then s\<lparr> gs_waiting := gs_waiting s + 1 \<rparr>
      else
        let s = s\<lparr> gs_bg_gc_running := gs_bg_gc_running s + 1 \<rparr> in
        if gs_queue s \<noteq> [] then let (cf, s) = PopFirstFromGCQueue s in s\<lparr> gs_collecting := gs_collecting s @ [cf] \<rparr>
        else BackgroundCallGC_end opts s)"

text \<open>The end of \<open>BackgroundGC\<close> of the \<open>i\<close>-th collecting job, which asks for another collection or not.\<close>

definition requeue :: "SchedOptions \<Rightarrow> u32 \<Rightarrow> bool \<Rightarrow> GcSched \<Rightarrow> GcSched" where
  "requeue opts cf trigger_next s =
     (if trigger_next \<and> gs_bg_gc_scheduled s - 1 + int (length (gs_queue s)) < 2 * so_max_background_gc opts then AddToGCQueue cf s else s)"

definition BackgroundGC_end :: "SchedOptions \<Rightarrow> nat \<Rightarrow> bool \<Rightarrow> GcSched \<Rightarrow> GcSched" where
  "BackgroundGC_end opts i trigger_next s =
     (let cf = gs_collecting s ! i;
          s = s\<lparr> gs_collecting := take i (gs_collecting s) @ drop (Suc i) (gs_collecting s), gs_flushing := gs_flushing s + 1 \<rparr>
      in requeue opts cf trigger_next s)"

text \<open>
  \<open>CloseImpl\<close> sets the flag, has the pool join its threads, which discards the jobs that no thread has
  started, and then waits while \<open>CloseImpl_waits\<close>.
\<close>

definition CloseImpl_shutdown :: "GcSched \<Rightarrow> GcSched" where
  "CloseImpl_shutdown s = s\<lparr> gs_shuting_down := True \<rparr>"

definition JoinAllThreads :: "GcSched \<Rightarrow> GcSched" where
  "JoinAllThreads s = s\<lparr> gs_submitted := 0, gs_discarded := gs_discarded s + gs_submitted s \<rparr>"

definition CloseImpl_waits :: "GcSched \<Rightarrow> bool" where
  "CloseImpl_waits s \<longleftrightarrow> 0 < gs_bg_gc_scheduled s"

text \<open>The three parts of \<open>DropColumnFamilies\<close>: the request, the wait for the running jobs, and the end of the base database's part.\<close>

definition DropColumnFamilies_request :: "GcSched \<Rightarrow> GcSched" where
  "DropColumnFamilies_request s = s\<lparr> gs_drop_cf_requests := gs_drop_cf_requests s + 1, gs_drop_ready := gs_drop_ready s + 1 \<rparr>"

definition DropColumnFamilies_wait :: "GcSched \<Rightarrow> GcSched" where
  "DropColumnFamilies_wait s =
     (let s = s\<lparr> gs_drop_ready := gs_drop_ready s - 1 \<rparr> in
      if 0 < gs_bg_gc_running s then s\<lparr> gs_drop_waiting := gs_drop_waiting s + 1 \<rparr> else s\<lparr> gs_dropping := gs_dropping s + 1 \<rparr>)"

definition DropColumnFamilies_end :: "status \<Rightarrow> GcSched \<Rightarrow> GcSched" where
  "DropColumnFamilies_end base s =
     (let s = s\<lparr> gs_dropping := gs_dropping s - 1 \<rparr> in
      if status_ok base then
        let s = s\<lparr> gs_drop_cf_requests := gs_drop_cf_requests s - 1 \<rparr> in
        if gs_drop_cf_requests s = 0 then SignalAll s else s
      else s\<lparr> gs_drop_failed := gs_drop_failed s + 1 \<rparr>)"

text \<open>
  The steps of the background work itself: the pool starts a job, a job begins, a collection ends with
  nothing more to collect, a job ends, a drop request goes on, the base database drops the column
  families.
\<close>

inductive work :: "SchedOptions \<Rightarrow> GcSched \<Rightarrow> GcSched \<Rightarrow> bool" for opts where
  work_start: "0 < gs_submitted s \<Longrightarrow> work opts s (s\<lparr> gs_submitted := gs_submitted s - 1, gs_ready := gs_ready s + 1 \<rparr>)"
| work_begin: "0 < gs_ready s \<Longrightarrow> work opts s (BackgroundCallGC_begin opts s)"
| work_collected: "i < length (gs_collecting s) \<Longrightarrow> work opts s (BackgroundGC_end opts i False s)"
| work_end: "0 < gs_flushing s \<Longrightarrow> work opts s (BackgroundCallGC_end opts (s\<lparr> gs_flushing := gs_flushing s - 1 \<rparr>))"
| work_drop_wait: "0 < gs_drop_ready s \<Longrightarrow> work opts s (DropColumnFamilies_wait s)"
| work_dropped: "0 < gs_dropping s \<Longrightarrow> work opts s (DropColumnFamilies_end OK s)"

text \<open>
  All steps: also requests for collections (of all column families when the database is opened, of one
  after a flush, a compaction or a deletion of files in a range), collections that ask for another
  one, drop requests, a failure of the base database to drop, and the two steps of closing.
\<close>

inductive sched :: "SchedOptions \<Rightarrow> GcSched \<Rightarrow> GcSched \<Rightarrow> bool" for opts where
  sched_work: "work opts s s' \<Longrightarrow> sched opts s s'"
| sched_add: "sched opts s (MaybeScheduleGC opts (fold AddToGCQueue cfs s))"
| sched_collected: "i < length (gs_collecting s) \<Longrightarrow> sched opts s (BackgroundGC_end opts i True s)"
| sched_drop: "sched opts s (DropColumnFamilies_request s)"
| sched_drop_fails: "\<lbrakk>0 < gs_dropping s; base \<noteq> OK\<rbrakk> \<Longrightarrow> sched opts s (DropColumnFamilies_end base s)"
| sched_close: "sched opts s (CloseImpl_shutdown s)"
| sched_join: "gs_shuting_down s \<Longrightarrow> sched opts s (JoinAllThreads s)"

section \<open>Invariant\<close>

definition counts :: "GcSched \<Rightarrow> bool" where
  "counts s \<longleftrightarrow>
     0 \<le> gs_unscheduled_gc s \<and>
     gs_bg_gc_running s = int (length (gs_collecting s) + gs_flushing s) \<and>
     gs_bg_gc_scheduled s =
       int (gs_submitted s + gs_ready s + gs_waiting s + length (gs_collecting s) + gs_flushing s + gs_discarded s) \<and>
     gs_unscheduled_gc s + int (gs_submitted s + gs_ready s + gs_waiting s + gs_discarded s) = int (length (gs_queue s)) \<and>
     gs_drop_cf_requests s = int (gs_drop_ready s + gs_drop_waiting s + gs_dropping s + gs_drop_failed s)"

definition awake :: "GcSched \<Rightarrow> bool" where
  "awake s \<longleftrightarrow> (0 < gs_waiting s \<longrightarrow> 0 < gs_drop_cf_requests s) \<and> (0 < gs_drop_waiting s \<longrightarrow> 0 < gs_bg_gc_running s)"

definition all_scheduled :: "SchedOptions \<Rightarrow> GcSched \<Rightarrow> bool" where
  "all_scheduled opts s \<longleftrightarrow>
     so_disable_background_gc opts \<or> gs_shuting_down s \<or> gs_unscheduled_gc s = 0 \<or> so_max_background_gc opts \<le> gs_bg_gc_scheduled s \<or>
     0 < gs_flushing s"

definition sched_inv :: "SchedOptions \<Rightarrow> GcSched \<Rightarrow> bool" where
  "sched_inv opts s \<longleftrightarrow> counts s \<and> awake s \<and> all_scheduled opts s"

lemma schedule_loop_cases:
  "\<exists>n. schedule_loop opts s = s\<lparr> gs_unscheduled_gc := gs_unscheduled_gc s - int n, gs_bg_gc_scheduled := gs_bg_gc_scheduled s + int n,
        gs_submitted := gs_submitted s + n \<rparr> \<and>
     (0 \<le> gs_unscheduled_gc s \<longrightarrow> int n \<le> gs_unscheduled_gc s) \<and>
     (gs_unscheduled_gc s - int n \<le> 0 \<or> so_max_background_gc opts \<le> gs_bg_gc_scheduled s + int n)"
proof (induction opts s rule: schedule_loop.induct)
  case (1 opts s)
  show ?case
  proof (cases "0 < gs_unscheduled_gc s \<and> gs_bg_gc_scheduled s < so_max_background_gc opts")
    case True
    let ?s = "s\<lparr> gs_unscheduled_gc := gs_unscheduled_gc s - 1, gs_bg_gc_scheduled := gs_bg_gc_scheduled s + 1, gs_submitted := gs_submitted s + 1 \<rparr>"
    have "schedule_loop opts s = schedule_loop opts ?s" using True by (simp add: schedule_loop.simps [of opts s])
    moreover obtain n where "schedule_loop opts ?s = ?s\<lparr> gs_unscheduled_gc := gs_unscheduled_gc ?s - int n,
        gs_bg_gc_scheduled := gs_bg_gc_scheduled ?s + int n, gs_submitted := gs_submitted ?s + n \<rparr>"
      "0 \<le> gs_unscheduled_gc ?s \<longrightarrow> int n \<le> gs_unscheduled_gc ?s"
      "gs_unscheduled_gc ?s - int n \<le> 0 \<or> so_max_background_gc opts \<le> gs_bg_gc_scheduled ?s + int n"
      using 1 [OF True] by blast
    ultimately show ?thesis using True by (intro exI [of _ "Suc n"]) (auto simp: algebra_simps)
  next
    case False
    then have "schedule_loop opts s = s" by (auto simp: schedule_loop.simps [of opts s])
    then show ?thesis using False by (intro exI [of _ 0]) auto
  qed
qed

lemma MaybeScheduleGC_cases:
  assumes "0 \<le> gs_unscheduled_gc s"
  obtains n where "MaybeScheduleGC opts s = s\<lparr> gs_unscheduled_gc := gs_unscheduled_gc s - int n, gs_bg_gc_scheduled := gs_bg_gc_scheduled s + int n,
      gs_submitted := gs_submitted s + n \<rparr>" "int n \<le> gs_unscheduled_gc s" "all_scheduled opts (MaybeScheduleGC opts s)"
proof (cases "so_disable_background_gc opts \<or> gs_shuting_down s")
  case True
  then show thesis using assms by (intro that [of 0]) (auto simp: MaybeScheduleGC_def all_scheduled_def)
next
  case False
  from schedule_loop_cases [of opts s] obtain n where
    "schedule_loop opts s = s\<lparr> gs_unscheduled_gc := gs_unscheduled_gc s - int n, gs_bg_gc_scheduled := gs_bg_gc_scheduled s + int n,
        gs_submitted := gs_submitted s + n \<rparr>" "int n \<le> gs_unscheduled_gc s"
    "gs_unscheduled_gc s - int n \<le> 0 \<or> so_max_background_gc opts \<le> gs_bg_gc_scheduled s + int n"
    using assms by blast
  then show thesis using False by (intro that [of n]) (auto simp: MaybeScheduleGC_def all_scheduled_def)
qed

lemma MaybeScheduleGC_counts: "counts s \<Longrightarrow> counts (MaybeScheduleGC opts s)"
  by (rule MaybeScheduleGC_cases [of s opts]) (auto simp: counts_def)

lemma MaybeScheduleGC_awake: "0 \<le> gs_unscheduled_gc s \<Longrightarrow> awake (MaybeScheduleGC opts s) = awake s"
  by (rule MaybeScheduleGC_cases [of s opts]) (auto simp: awake_def)

lemma SignalAll_inv: "counts s \<Longrightarrow> counts (SignalAll s)" "awake (SignalAll s)" "all_scheduled opts (SignalAll s) = all_scheduled opts s"
  by (simp_all add: SignalAll_def counts_def awake_def all_scheduled_def)

lemma counts_unscheduled: "counts s \<Longrightarrow> 0 \<le> gs_unscheduled_gc s"
  by (simp add: counts_def)

text \<open>A job that begins finds the queue nonempty.\<close>

lemma begin_queue: "\<lbrakk>counts s; 0 < gs_ready s\<rbrakk> \<Longrightarrow> gs_queue s \<noteq> []"
  by (auto simp: counts_def)

lemma begin_inv:
  assumes "sched_inv opts s" "0 < gs_ready s"
  shows "sched_inv opts (BackgroundCallGC_begin opts s)"
proof (cases "0 < gs_drop_cf_requests s")
  case True
  then show ?thesis using assms by (auto simp: BackgroundCallGC_begin_def sched_inv_def counts_def awake_def all_scheduled_def)
next
  case False
  obtain cf q where q: "gs_queue s = cf # q" using begin_queue [of s] assms by (cases "gs_queue s") (auto simp: sched_inv_def)
  then show ?thesis using assms False
    by (auto simp: BackgroundCallGC_begin_def PopFirstFromGCQueue_def sched_inv_def counts_def awake_def all_scheduled_def)
qed

text \<open>A collection that ends leaves the queue longer by what it asks for, and a job that will schedule it.\<close>

lemma collected_inv:
  assumes "sched_inv opts s" "i < length (gs_collecting s)"
  shows "sched_inv opts (BackgroundGC_end opts i trigger_next s)"
  using assms by (auto simp: BackgroundGC_end_def requeue_def AddToGCQueue_def sched_inv_def counts_def awake_def all_scheduled_def Let_def)

lemma end_inv:
  assumes "sched_inv opts s" "0 < gs_flushing s"
  shows "sched_inv opts (BackgroundCallGC_end opts (s\<lparr> gs_flushing := gs_flushing s - 1 \<rparr>))"
proof -
  let ?e = "s\<lparr> gs_flushing := gs_flushing s - 1, gs_bg_gc_running := gs_bg_gc_running s - 1, gs_bg_gc_scheduled := gs_bg_gc_scheduled s - 1 \<rparr>"
  have c: "counts ?e" using assms by (auto simp: sched_inv_def counts_def)
  obtain n where n: "MaybeScheduleGC opts ?e = ?e\<lparr> gs_unscheduled_gc := gs_unscheduled_gc ?e - int n, gs_bg_gc_scheduled := gs_bg_gc_scheduled ?e + int n,
      gs_submitted := gs_submitted ?e + n \<rparr>" "all_scheduled opts (MaybeScheduleGC opts ?e)"
    using MaybeScheduleGC_cases [OF counts_unscheduled [OF c], of opts] by metis
  have "awake (MaybeScheduleGC opts ?e)" if "gs_bg_gc_running (MaybeScheduleGC opts ?e) \<noteq> 0"
    using assms(1) that c unfolding MaybeScheduleGC_awake [OF counts_unscheduled [OF c]] n(1) by (auto simp: sched_inv_def awake_def counts_def)
  then show ?thesis
    using n(2) MaybeScheduleGC_counts [OF c] SignalAll_inv by (auto simp: BackgroundCallGC_end_def sched_inv_def Let_def)
qed

lemma drop_inv:
  assumes "sched_inv opts s"
  shows "sched_inv opts (DropColumnFamilies_request s)"
    and "0 < gs_drop_ready s \<Longrightarrow> sched_inv opts (DropColumnFamilies_wait s)"
    and "0 < gs_dropping s \<Longrightarrow> sched_inv opts (DropColumnFamilies_end base s)"
  using assms
  by (auto simp: DropColumnFamilies_request_def DropColumnFamilies_wait_def DropColumnFamilies_end_def SignalAll_def
      sched_inv_def counts_def awake_def all_scheduled_def Let_def)

lemma work_inv: "\<lbrakk>work opts s s'; sched_inv opts s\<rbrakk> \<Longrightarrow> sched_inv opts s'"
proof (induction rule: work.induct)
  case (work_start s)
  then show ?case by (auto simp: sched_inv_def counts_def awake_def all_scheduled_def)
qed (blast intro: begin_inv collected_inv end_inv drop_inv)+

lemma AddToGCQueue_all:
  "fold AddToGCQueue cfs s = s\<lparr> gs_unscheduled_gc := gs_unscheduled_gc s + int (length cfs), gs_queue := gs_queue s @ cfs \<rparr>"
  by (induction cfs arbitrary: s) (simp_all add: AddToGCQueue_def)

lemma add_inv: "sched_inv opts s \<Longrightarrow> sched_inv opts (MaybeScheduleGC opts (fold AddToGCQueue cfs s))"
proof -
  assume inv: "sched_inv opts s"
  let ?s = "fold AddToGCQueue cfs s"
  have c: "counts ?s" "awake ?s" using inv by (auto simp: AddToGCQueue_all sched_inv_def counts_def awake_def)
  then show ?thesis
    using MaybeScheduleGC_cases [OF counts_unscheduled [OF c(1)], of opts] MaybeScheduleGC_counts [OF c(1)] MaybeScheduleGC_awake [OF counts_unscheduled [OF c(1)]]
    unfolding sched_inv_def by metis
qed

lemma sched_inv_step: "\<lbrakk>sched opts s s'; sched_inv opts s\<rbrakk> \<Longrightarrow> sched_inv opts s'"
proof (induction rule: sched.induct)
  case (sched_close s)
  then show ?case by (auto simp: CloseImpl_shutdown_def sched_inv_def counts_def awake_def all_scheduled_def)
next
  case (sched_join s)
  then show ?case by (auto simp: JoinAllThreads_def sched_inv_def counts_def awake_def all_scheduled_def)
qed (auto intro: work_inv add_inv collected_inv drop_inv)

lemma sched_inv_reachable: "(sched opts)\<^sup>*\<^sup>* GcSched_new s \<Longrightarrow> sched_inv opts s"
proof (induction rule: rtranclp_induct)
  case base
  show ?case by (simp add: GcSched_new_def sched_inv_def counts_def awake_def all_scheduled_def)
qed (rule sched_inv_step)

section \<open>Progress\<close>

definition work_measure :: "GcSched \<Rightarrow> nat \<times> nat" where
  "work_measure s =
     (3 * length (gs_queue s) + 2 * length (gs_collecting s) + gs_flushing s + 2 * (gs_drop_ready s + gs_drop_waiting s) + gs_dropping s,
      2 * gs_submitted s + gs_ready s + gs_drop_ready s)"

lemma MaybeScheduleGC_fields [simp]:
  "gs_queue (MaybeScheduleGC opts s) = gs_queue s" "gs_collecting (MaybeScheduleGC opts s) = gs_collecting s"
  "gs_bg_gc_running (MaybeScheduleGC opts s) = gs_bg_gc_running s" "gs_shuting_down (MaybeScheduleGC opts s) = gs_shuting_down s"
  "gs_ready (MaybeScheduleGC opts s) = gs_ready s" "gs_waiting (MaybeScheduleGC opts s) = gs_waiting s"
  "gs_drop_ready (MaybeScheduleGC opts s) = gs_drop_ready s" "gs_drop_waiting (MaybeScheduleGC opts s) = gs_drop_waiting s"
  "gs_dropping (MaybeScheduleGC opts s) = gs_dropping s" "gs_drop_failed (MaybeScheduleGC opts s) = gs_drop_failed s"
  "gs_flushing (MaybeScheduleGC opts s) = gs_flushing s" "gs_discarded (MaybeScheduleGC opts s) = gs_discarded s"
  "gs_submitted s \<le> gs_submitted (MaybeScheduleGC opts s)"
  using schedule_loop_cases [of opts s] by (auto simp: MaybeScheduleGC_def)

lemma SignalAll_fields [simp]:
  "gs_queue (SignalAll s) = gs_queue s" "gs_collecting (SignalAll s) = gs_collecting s" "gs_shuting_down (SignalAll s) = gs_shuting_down s"
  "gs_submitted (SignalAll s) = gs_submitted s" "gs_ready (SignalAll s) = gs_ready s + gs_waiting s" "gs_waiting (SignalAll s) = 0"
  "gs_drop_ready (SignalAll s) = gs_drop_ready s + gs_drop_waiting s" "gs_drop_waiting (SignalAll s) = 0"
  "gs_dropping (SignalAll s) = gs_dropping s" "gs_drop_failed (SignalAll s) = gs_drop_failed s"
  "gs_flushing (SignalAll s) = gs_flushing s" "gs_discarded (SignalAll s) = gs_discarded s"
  by (simp_all add: SignalAll_def)

lemma end_fields [simp]:
  "gs_queue (BackgroundCallGC_end opts s) = gs_queue s" "gs_collecting (BackgroundCallGC_end opts s) = gs_collecting s"
  "gs_flushing (BackgroundCallGC_end opts s) = gs_flushing s" "gs_discarded (BackgroundCallGC_end opts s) = gs_discarded s"
  "gs_drop_ready (BackgroundCallGC_end opts s) + gs_drop_waiting (BackgroundCallGC_end opts s) = gs_drop_ready s + gs_drop_waiting s"
  "gs_dropping (BackgroundCallGC_end opts s) = gs_dropping s" "gs_drop_failed (BackgroundCallGC_end opts s) = gs_drop_failed s"
  "gs_shuting_down (BackgroundCallGC_end opts s) = gs_shuting_down s"
  "gs_submitted s + gs_ready s + gs_waiting s \<le>
     gs_submitted (BackgroundCallGC_end opts s) + gs_ready (BackgroundCallGC_end opts s) + gs_waiting (BackgroundCallGC_end opts s)"
  using MaybeScheduleGC_fields(13) [of "s\<lparr> gs_bg_gc_running := gs_bg_gc_running s - 1, gs_bg_gc_scheduled := gs_bg_gc_scheduled s - 1 \<rparr>" opts]
  by (simp_all add: BackgroundCallGC_end_def Let_def)

lemma collected_fields [simp]:
  "gs_queue (BackgroundGC_end opts i False s) = gs_queue s"
  "i < length (gs_collecting s) \<Longrightarrow> length (gs_collecting (BackgroundGC_end opts i t s)) = length (gs_collecting s) - 1"
  "gs_flushing (BackgroundGC_end opts i t s) = gs_flushing s + 1" "gs_discarded (BackgroundGC_end opts i t s) = gs_discarded s"
  "gs_shuting_down (BackgroundGC_end opts i t s) = gs_shuting_down s" "gs_submitted (BackgroundGC_end opts i t s) = gs_submitted s"
  "gs_ready (BackgroundGC_end opts i t s) = gs_ready s" "gs_waiting (BackgroundGC_end opts i t s) = gs_waiting s"
  "gs_drop_ready (BackgroundGC_end opts i t s) = gs_drop_ready s" "gs_drop_waiting (BackgroundGC_end opts i t s) = gs_drop_waiting s"
  "gs_dropping (BackgroundGC_end opts i t s) = gs_dropping s" "gs_drop_failed (BackgroundGC_end opts i t s) = gs_drop_failed s"
  by (simp_all add: BackgroundGC_end_def requeue_def AddToGCQueue_def Let_def)

lemma begin_fields [simp]:
  "gs_flushing (BackgroundCallGC_begin opts s) = gs_flushing s" "gs_discarded (BackgroundCallGC_begin opts s) = gs_discarded s"
  "gs_dropping (BackgroundCallGC_begin opts s) = gs_dropping s" "gs_drop_failed (BackgroundCallGC_begin opts s) = gs_drop_failed s"
  "gs_shuting_down (BackgroundCallGC_begin opts s) = gs_shuting_down s"
  by (simp_all add: BackgroundCallGC_begin_def PopFirstFromGCQueue_def Let_def)

lemma work_decreases:
  assumes "work opts s s'" "sched_inv opts s"
  shows "(work_measure s', work_measure s) \<in> less_than <*lex*> less_than"
  using assms
proof (induction rule: work.induct)
  case (work_begin s)
  then obtain cf q where "gs_queue s = cf # q" using begin_queue [of s] by (cases "gs_queue s") (auto simp: sched_inv_def)
  then show ?case using work_begin.hyps by (auto simp: work_measure_def BackgroundCallGC_begin_def PopFirstFromGCQueue_def Let_def)
next
  case (work_collected i s)
  then have "gs_collecting s \<noteq> []" by auto
  then show ?case using work_collected.hyps by (cases "gs_collecting s") (auto simp: work_measure_def)
next
  case (work_end s)
  then show ?case using end_fields(5) [of opts "s\<lparr> gs_flushing := gs_flushing s - 1 \<rparr>"] by (simp add: work_measure_def)
qed (auto simp: work_measure_def DropColumnFamilies_wait_def DropColumnFamilies_end_def SignalAll_def Let_def)

lemma work_frame:
  assumes "work opts s s'"
  shows "gs_drop_failed s' = gs_drop_failed s \<and> gs_shuting_down s' = gs_shuting_down s \<and> gs_discarded s' = gs_discarded s"
  using assms by (induction rule: work.induct) (auto simp: DropColumnFamilies_wait_def DropColumnFamilies_end_def Let_def)

lemma work_frames:
  "(work opts)\<^sup>*\<^sup>* s s' \<Longrightarrow> sched_inv opts s \<Longrightarrow>
     sched_inv opts s' \<and> gs_drop_failed s' = gs_drop_failed s \<and> gs_shuting_down s' = gs_shuting_down s \<and> gs_discarded s' = gs_discarded s"
  by (induction rule: rtranclp_induct) (auto dest: work_inv work_frame)

lemma stuck_is_done:
  assumes "sched_inv opts s" "gs_drop_failed s = 0" "gs_discarded s = 0" "\<nexists>s'. work opts s s'"
  shows "gs_bg_gc_scheduled s = 0 \<and> gs_drop_cf_requests s = 0 \<and>
    (\<not> so_disable_background_gc opts \<and> \<not> gs_shuting_down s \<and> 0 < so_max_background_gc opts \<longrightarrow> gs_queue s = [])"
proof -
  have "gs_submitted s = 0" "gs_ready s = 0" "gs_collecting s = []" "gs_flushing s = 0" "gs_drop_ready s = 0" "gs_dropping s = 0"
    using assms(4) work.intros by (metis gr0I length_greater_0_conv)+
  then show ?thesis using assms(1-3) by (auto simp: sched_inv_def counts_def awake_def all_scheduled_def)
qed

text \<open>
  C6: every requested collection is served. From any state the scheduling can reach in which no drop
  request has failed and the pool has discarded no job (which it only does while the database is
  closing), the background work cannot go on for ever without new requests, and it only comes to
  rest when no job is scheduled, no drop request is pending, and, unless collection is disabled, the
  database is closing or \<open>max_background_gc\<close> is not positive, the queue is empty.
\<close>

theorem gc_requests_served:
  assumes "(sched opts)\<^sup>*\<^sup>* GcSched_new s" "gs_drop_failed s = 0" "gs_discarded s = 0"
  shows "(\<nexists>f. f 0 = s \<and> (\<forall>n. work opts (f n) (f (Suc n)))) \<and>
    (\<forall>s'. (work opts)\<^sup>*\<^sup>* s s' \<longrightarrow> (\<exists>s''. work opts s' s'') \<or>
      gs_bg_gc_scheduled s' = 0 \<and> gs_drop_cf_requests s' = 0 \<and>
      (\<not> so_disable_background_gc opts \<and> \<not> gs_shuting_down s \<and> 0 < so_max_background_gc opts \<longrightarrow> gs_queue s' = []))"
proof
  have inv: "sched_inv opts s" using sched_inv_reachable [OF assms(1)] .
  show "\<nexists>f. f 0 = s \<and> (\<forall>n. work opts (f n) (f (Suc n)))"
  proof
    assume "\<exists>f. f 0 = s \<and> (\<forall>n. work opts (f n) (f (Suc n)))"
    then obtain f where f: "f 0 = s" "\<And>n. work opts (f n) (f (Suc n))" by auto
    have "sched_inv opts (f n)" for n using inv f work_inv by (induction n) auto
    then have "(work_measure (f (Suc n)), work_measure (f n)) \<in> less_than <*lex*> less_than" for n by (rule work_decreases [OF f(2)])
    then have "\<exists>g. \<forall>n. (g (Suc n), g n) \<in> less_than <*lex*> less_than" by (intro exI [of _ "work_measure \<circ> f"]) simp
    moreover have "wf (less_than <*lex*> less_than)" by auto
    ultimately show False unfolding wf_iff_no_infinite_down_chain by blast
  qed
  show "\<forall>s'. (work opts)\<^sup>*\<^sup>* s s' \<longrightarrow> (\<exists>s''. work opts s' s'') \<or>
      gs_bg_gc_scheduled s' = 0 \<and> gs_drop_cf_requests s' = 0 \<and>
      (\<not> so_disable_background_gc opts \<and> \<not> gs_shuting_down s \<and> 0 < so_max_background_gc opts \<longrightarrow> gs_queue s' = [])"
    using work_frames [OF _ inv] stuck_is_done assms(2,3) by metis
qed

definition demo_sched_options :: SchedOptions where
  "demo_sched_options = \<lparr> so_disable_background_gc = False, so_max_background_gc = 1 \<rparr>"

definition demo_sched :: GcSched where
  "demo_sched = MaybeScheduleGC demo_sched_options (fold AddToGCQueue [2] (MaybeScheduleGC demo_sched_options (fold AddToGCQueue [1] GcSched_new)))"

lemma demo_sched_reachable: "(sched demo_sched_options)\<^sup>*\<^sup>* GcSched_new demo_sched"
  unfolding demo_sched_def by (meson converse_rtranclp_into_rtranclp rtranclp.rtrancl_refl sched_add)

lemma demo_sched_fields: "gs_queue demo_sched = [1, 2]" "gs_drop_failed demo_sched = 0" "gs_discarded demo_sched = 0" "gs_shuting_down demo_sched = False" "gs_submitted demo_sched = 1"
  by code_simp+

definition demo_pick_up :: "GcSched \<Rightarrow> GcSched" where
  "demo_pick_up s = s\<lparr> gs_submitted := gs_submitted s - 1, gs_ready := gs_ready s + 1 \<rparr>"

definition demo_begin :: "GcSched \<Rightarrow> GcSched" where
  "demo_begin s = BackgroundCallGC_begin demo_sched_options (demo_pick_up s)"

definition demo_collected :: "GcSched \<Rightarrow> GcSched" where
  "demo_collected s = BackgroundGC_end demo_sched_options 0 False (demo_begin s)"

definition demo_collect :: "GcSched \<Rightarrow> GcSched" where
  "demo_collect s = BackgroundCallGC_end demo_sched_options ((demo_collected s)\<lparr> gs_flushing := gs_flushing (demo_collected s) - 1 \<rparr>)"

lemma demo_collect_work:
  assumes "0 < gs_submitted s" "gs_collecting (demo_begin s) \<noteq> []"
  shows "(work demo_sched_options)\<^sup>*\<^sup>* s (demo_collect s)"
proof -
  have "work demo_sched_options s (demo_pick_up s)" unfolding demo_pick_up_def using assms(1) by (rule work_start)
  moreover have "work demo_sched_options (demo_pick_up s) (demo_begin s)" unfolding demo_begin_def by (rule work_begin) (simp add: demo_pick_up_def)
  moreover have "work demo_sched_options (demo_begin s) (demo_collected s)"
    unfolding demo_collected_def using assms(2) by (intro work_collected) simp
  moreover have "work demo_sched_options (demo_collected s) (demo_collect s)"
    unfolding demo_collect_def by (rule work_end) (simp add: demo_collected_def)
  ultimately show ?thesis by (meson converse_rtranclp_into_rtranclp rtranclp.rtrancl_refl)
qed

lemma demo_rest_work: "(work demo_sched_options)\<^sup>*\<^sup>* demo_sched (demo_collect (demo_collect demo_sched))"
proof -
  have "0 < gs_submitted demo_sched" "gs_collecting (demo_begin demo_sched) \<noteq> []"
    "0 < gs_submitted (demo_collect demo_sched)" "gs_collecting (demo_begin (demo_collect demo_sched)) \<noteq> []"
    by code_simp+
  then show ?thesis using demo_collect_work by (meson rtranclp_trans)
qed

theorem gc_requests_served_witness:
  "gs_queue demo_sched = [1, 2] \<and> (\<nexists>f. f 0 = demo_sched \<and> (\<forall>n. work demo_sched_options (f n) (f (Suc n)))) \<and>
   ((\<exists>s''. work demo_sched_options (demo_collect (demo_collect demo_sched)) s'') \<or> gs_queue (demo_collect (demo_collect demo_sched)) = [])"
  using gc_requests_served [OF demo_sched_reachable demo_sched_fields(2,3)] demo_sched_fields demo_rest_work by (auto simp: demo_sched_options_def)

lemma end_jobs:
  "gs_submitted s + gs_ready s + gs_waiting s + gs_discarded s \<le>
     gs_submitted (BackgroundCallGC_end opts (s\<lparr> gs_flushing := n \<rparr>)) + gs_ready (BackgroundCallGC_end opts (s\<lparr> gs_flushing := n \<rparr>)) +
     gs_waiting (BackgroundCallGC_end opts (s\<lparr> gs_flushing := n \<rparr>)) + gs_discarded s"
  using end_fields(9) [of "s\<lparr> gs_flushing := n \<rparr>" opts] by simp

lemma blocked_step:
  assumes "0 < gs_drop_cf_requests u" "0 < gs_drop_failed u" "sched opts u v"
  shows "0 < gs_drop_failed v \<and> length (gs_collecting v) \<le> length (gs_collecting u) \<and>
    gs_submitted u + gs_ready u + gs_waiting u + gs_discarded u \<le> gs_submitted v + gs_ready v + gs_waiting v + gs_discarded v"
  using assms(3,1,2)
proof (induction rule: sched.induct)
  case (sched_work s s')
  then show ?case
    using end_jobs by (induction rule: work.induct) (auto simp: BackgroundCallGC_begin_def DropColumnFamilies_wait_def DropColumnFamilies_end_def Let_def)
next
  case (sched_add s cfs)
  then show ?case using MaybeScheduleGC_fields(13) [of "fold AddToGCQueue cfs s" opts] by (simp add: AddToGCQueue_all)
qed (auto simp: DropColumnFamilies_request_def DropColumnFamilies_end_def CloseImpl_shutdown_def JoinAllThreads_def Let_def)

text \<open>
  C38: a drop request that the base database refuses leaves its mark for ever: from then on, whatever
  happens, the request counter stays positive, no job begins to collect, and the jobs that were
  scheduled and not yet running never end, so that closing the database waits for them for ever.
\<close>

theorem failed_drop_blocks:
  assumes "(sched opts)\<^sup>*\<^sup>* GcSched_new s" "0 < gs_drop_failed s" "(sched opts)\<^sup>*\<^sup>* s s'"
  shows "0 < gs_drop_cf_requests s' \<and> length (gs_collecting s') \<le> length (gs_collecting s) \<and>
    gs_bg_gc_scheduled s - gs_bg_gc_running s \<le> gs_bg_gc_scheduled s'"
proof -
  have "sched_inv opts s' \<and> 0 < gs_drop_failed s' \<and> length (gs_collecting s') \<le> length (gs_collecting s) \<and>
      gs_submitted s + gs_ready s + gs_waiting s + gs_discarded s \<le> gs_submitted s' + gs_ready s' + gs_waiting s' + gs_discarded s'"
    using assms(3)
  proof (induction rule: rtranclp_induct)
    case (step u v)
    have "0 < gs_drop_cf_requests u" using step.IH by (simp add: sched_inv_def counts_def)
    then have "0 < gs_drop_failed v \<and> length (gs_collecting v) \<le> length (gs_collecting u) \<and>
        gs_submitted u + gs_ready u + gs_waiting u + gs_discarded u \<le> gs_submitted v + gs_ready v + gs_waiting v + gs_discarded v"
      using blocked_step [OF _ _ step.hyps(2)] step.IH by simp
    then show ?case using sched_inv_step [OF step.hyps(2)] step.IH by auto
  qed (use sched_inv_reachable [OF assms(1)] assms(2) in simp)
  then show ?thesis using sched_inv_reachable [OF assms(1)] by (auto simp: sched_inv_def counts_def)
qed

definition demo_failed_drop :: GcSched where
  "demo_failed_drop = DropColumnFamilies_end (IOError '''') (DropColumnFamilies_wait (DropColumnFamilies_request demo_sched))"

lemma demo_failed_drop_reachable: "(sched demo_sched_options)\<^sup>*\<^sup>* GcSched_new demo_failed_drop"
proof -
  let ?s = "DropColumnFamilies_request demo_sched"
  have "0 < gs_drop_ready ?s" by code_simp
  then have 1: "sched demo_sched_options ?s (DropColumnFamilies_wait ?s)" by (intro sched_work work_drop_wait)
  have "0 < gs_dropping (DropColumnFamilies_wait ?s)" by code_simp
  then have "sched demo_sched_options (DropColumnFamilies_wait ?s) demo_failed_drop"
    unfolding demo_failed_drop_def by (rule sched_drop_fails) simp
  then show ?thesis using demo_sched_reachable sched_drop 1 by (meson rtranclp.rtrancl_into_rtrancl)
qed

definition demo_blocked :: GcSched where
  "demo_blocked = CloseImpl_shutdown (demo_begin demo_failed_drop)"

lemma demo_blocked_reachable: "(sched demo_sched_options)\<^sup>*\<^sup>* demo_failed_drop demo_blocked"
proof -
  have "0 < gs_submitted demo_failed_drop" by code_simp
  then have "sched demo_sched_options demo_failed_drop (demo_pick_up demo_failed_drop)"
    unfolding demo_pick_up_def by (intro sched_work work_start)
  moreover have "sched demo_sched_options (demo_pick_up demo_failed_drop) (demo_begin demo_failed_drop)"
    unfolding demo_begin_def by (intro sched_work work_begin) (simp add: demo_pick_up_def)
  moreover have "sched demo_sched_options (demo_begin demo_failed_drop) demo_blocked"
    unfolding demo_blocked_def by (rule sched_close)
  ultimately show ?thesis by (meson converse_rtranclp_into_rtranclp rtranclp.rtrancl_refl)
qed

theorem failed_drop_blocks_witness:
  "gs_collecting demo_blocked = [] \<and> 0 < gs_bg_gc_scheduled demo_blocked"
proof -
  have f: "0 < gs_drop_failed demo_failed_drop" "gs_collecting demo_failed_drop = []" "gs_bg_gc_scheduled demo_failed_drop - gs_bg_gc_running demo_failed_drop = 1"
    by code_simp+
  from failed_drop_blocks [OF demo_failed_drop_reachable f(1) demo_blocked_reachable] show ?thesis unfolding f(2,3) by simp
qed

lemma discarded_grows: "sched opts s s' \<Longrightarrow> gs_discarded s \<le> gs_discarded s'"
proof (induction rule: sched.induct)
  case (sched_work s s')
  then show ?case using work_frame by fastforce
next
  case (sched_add s cfs)
  then show ?case by (simp add: AddToGCQueue_all)
qed (auto simp: DropColumnFamilies_request_def DropColumnFamilies_end_def CloseImpl_shutdown_def JoinAllThreads_def Let_def)

text \<open>
  C39: closing the database can hang. A job that was submitted to the pool and that no thread has
  started when \<open>CloseImpl\<close> joins the threads is discarded without \<open>bg_gc_scheduled_\<close> being lowered, and
  whatever happens afterwards \<open>CloseImpl\<close> goes on waiting.
\<close>

theorem close_waits_for_discarded:
  assumes "(sched opts)\<^sup>*\<^sup>* GcSched_new s" "0 < gs_submitted s" "(sched opts)\<^sup>*\<^sup>* (JoinAllThreads (CloseImpl_shutdown s)) s'"
  shows "CloseImpl_waits s'"
proof -
  let ?c = "CloseImpl_shutdown s"
  have "sched opts s ?c" "sched opts ?c (JoinAllThreads ?c)" using sched_close sched_join by (auto simp: CloseImpl_shutdown_def)
  then have inv: "sched_inv opts (JoinAllThreads ?c)" using sched_inv_reachable [OF assms(1)] by (auto dest: sched_inv_step)
  have "sched_inv opts s' \<and> 0 < gs_discarded s'"
    using assms(3)
  proof (induction rule: rtranclp_induct)
    case base
    show ?case using inv assms(2) by (simp add: JoinAllThreads_def CloseImpl_shutdown_def)
  next
    case (step u v)
    then show ?case using sched_inv_step [OF step.hyps(2)] discarded_grows [OF step.hyps(2)] by simp
  qed
  then show ?thesis by (auto simp: CloseImpl_waits_def sched_inv_def counts_def)
qed

theorem close_waits_for_discarded_witness:
  "gs_submitted demo_sched = 1 \<and> CloseImpl_waits (JoinAllThreads (CloseImpl_shutdown demo_sched))"
  using close_waits_for_discarded [OF demo_sched_reachable] demo_sched_fields by simp

end
