(* ===== verification/Collectors.thy ===== *)
theory Collectors
  imports Blob_Format
begin

text \<open>
  The table properties collectors (\<open>blob_file_size_collector.cc\<close>, \<open>blob_validation_collector.cc\<close>): for
  every table file of the base database, how many bytes of which blob file its entries refer to, and
  which entries of which blob file; and the reading of these properties when garbage is accounted
  for (\<open>db_impl_gc.cc\<close>). A \<open>std::map\<close> is an association list in ascending order of its keys, an
  \<open>unordered_map\<close> an association list in the order in which its keys first came.
\<close>

section \<open>Model\<close>

datatype EntryType =
    kEntryPut
  | kEntryDelete
  | kEntrySingleDelete
  | kEntryMerge
  | kEntryRangeDeletion
  | kEntryBlobIndex
  | kEntryDeleteWithTimestamp
  | kEntryOther

fun map_set :: "u64 \<Rightarrow> 'v \<Rightarrow> (u64 \<times> 'v) list \<Rightarrow> (u64 \<times> 'v) list" where
  "map_set k v [] = [(k, v)]"
| "map_set k v ((k', v') # m) =
     (if k < k' then (k, v) # (k', v') # m else if k = k' then (k, v) # m else (k', v') # map_set k v m)"

subsection \<open>Sizes\<close>

type_synonym sizes_map = "(u64 \<times> u64) list"

definition sc_kPropertiesName :: string where "sc_kPropertiesName = ''TitanDB.blob_discardable_size''"

definition sc_Encode :: "sizes_map \<Rightarrow> bytes" where
  "sc_Encode m = PutVarint32 (of_nat (length m)) @ concat (map (\<lambda>(f, s). PutVarint64 f @ PutVarint64 s) m)"

fun sc_Decode_loop :: "nat \<Rightarrow> bytes \<Rightarrow> sizes_map \<Rightarrow> (sizes_map \<times> bytes) option" where
  "sc_Decode_loop 0 src m = Some (m, src)"
| "sc_Decode_loop (Suc n) src m = do {
     (f, src) \<leftarrow> GetVarint64 src;
     (s, src) \<leftarrow> GetVarint64 src;
     sc_Decode_loop n src (map_set f s m) }"

definition sc_Decode :: "bytes \<Rightarrow> sizes_map \<Rightarrow> (sizes_map \<times> bytes) option" where
  "sc_Decode src m = do {
     (num, src) \<leftarrow> GetVarint32 src;
     sc_Decode_loop (unat num) src m }"

definition sc_AddUserKey :: "bytes \<Rightarrow> EntryType \<Rightarrow> sizes_map \<Rightarrow> status \<times> sizes_map" where
  "sc_AddUserKey v type m =
     (if type \<noteq> kEntryBlobIndex then (OK, m)
      else case BlobIndex_DecodeFrom v of
             Inl s \<Rightarrow> (s, m)
           | Inr (index, _) \<Rightarrow>
               (OK, case map_of m (bi_file_number index) of
                      None \<Rightarrow> map_set (bi_file_number index) (bh_size (bi_blob_handle index)) m
                    | Some sz \<Rightarrow> map_set (bi_file_number index) (sz + bh_size (bi_blob_handle index)) m))"

definition sc_Finish :: "sizes_map \<Rightarrow> (string \<rightharpoonup> bytes) \<Rightarrow> status \<times> (string \<rightharpoonup> bytes)" where
  "sc_Finish m properties =
     (if m = [] then (OK, properties)
      else (OK, case properties sc_kPropertiesName of
                  None \<Rightarrow> properties(sc_kPropertiesName \<mapsto> sc_Encode m)
                | Some _ \<Rightarrow> properties))"

subsection \<open>Entries\<close>

type_synonym entries_map = "(u64 \<times> u64 list) list"

definition vc_kPropertiesName :: string where "vc_kPropertiesName = ''TitanDB.blob_validation''"

fun push_index :: "u64 \<Rightarrow> u64 \<Rightarrow> entries_map \<Rightarrow> entries_map" where
  "push_index f i [] = [(f, [i])]"
| "push_index f i ((f', is) # m) = (if f = f' then (f', is @ [i]) # m else (f', is) # push_index f i m)"

definition vc_Encode :: "entries_map \<Rightarrow> bytes" where
  "vc_Encode m = PutVarint32 (of_nat (length m)) @
     concat (map (\<lambda>(f, is). PutVarint64 f @ PutVarint32 (of_nat (length is)) @ concat (map PutVarint64 is)) m)"

fun vc_Decode_entries :: "u64 \<Rightarrow> nat \<Rightarrow> bytes \<Rightarrow> entries_map \<Rightarrow> bool \<times> entries_map \<times> bytes" where
  "vc_Decode_entries f 0 src m = (True, m, src)"
| "vc_Decode_entries f (Suc n) src m =
     (case GetVarint64 src of None \<Rightarrow> (False, m, src) | Some (i, src) \<Rightarrow> vc_Decode_entries f n src (push_index f i m))"

fun vc_Decode_loop :: "nat \<Rightarrow> bytes \<Rightarrow> entries_map \<Rightarrow> bool \<times> entries_map \<times> bytes" where
  "vc_Decode_loop 0 src m = (True, m, src)"
| "vc_Decode_loop (Suc n) src m =
     (case GetVarint64 src of
        None \<Rightarrow> (False, m, src)
      | Some (f, src) \<Rightarrow>
          (case GetVarint32 src of
             None \<Rightarrow> (False, m, src)
           | Some (sz, src) \<Rightarrow>
               let (ok, m, src) = vc_Decode_entries f (unat sz) src m
               in if ok then vc_Decode_loop n src m else (False, m, src)))"

definition vc_Decode :: "bytes \<Rightarrow> entries_map \<Rightarrow> bool \<times> entries_map \<times> bytes" where
  "vc_Decode src m = (case GetVarint32 src of None \<Rightarrow> (False, m, src) | Some (num, src) \<Rightarrow> vc_Decode_loop (unat num) src m)"

definition vc_AddUserKey :: "bytes \<Rightarrow> EntryType \<Rightarrow> entries_map \<Rightarrow> status \<times> entries_map" where
  "vc_AddUserKey v type m =
     (if type \<noteq> kEntryBlobIndex then (OK, m)
      else case BlobIndex_DecodeFrom v of
             Inl s \<Rightarrow> (s, m)
           | Inr (index, _) \<Rightarrow> (OK, push_index (bi_file_number index) (bh_index (bi_blob_handle index)) m))"

definition vc_Finish :: "entries_map \<Rightarrow> (string \<rightharpoonup> bytes) \<Rightarrow> status \<times> (string \<rightharpoonup> bytes)" where
  "vc_Finish m properties =
     (if m = [] then (OK, properties)
      else (OK, case properties vc_kPropertiesName of
                  None \<Rightarrow> properties(vc_kPropertiesName \<mapsto> vc_Encode m)
                | Some _ \<Rightarrow> properties))"

subsection \<open>Reading the properties\<close>

text \<open>
  The properties of a table file are \<open>None\<close> for the null pointer. A difference is an \<open>int64_t\<close>, held
  as the word of its two's complement; \<open>[file] += diff\<close> starts from zero for a new file.
\<close>

type_synonym diff_map = "(u64 \<times> u64) list"

definition diff_at :: "diff_map \<Rightarrow> u64 \<Rightarrow> u64" where
  "diff_at d f = (case map_of d f of None \<Rightarrow> 0 | Some x \<Rightarrow> x)"

definition ExtractGCStatsFromTableProperty :: "(string \<rightharpoonup> bytes) option \<Rightarrow> bool \<Rightarrow> diff_map \<Rightarrow> status \<times> diff_map" where
  "ExtractGCStatsFromTableProperty table_properties to_add blob_file_size_diff =
     (case table_properties of
        None \<Rightarrow> (OK, blob_file_size_diff)
      | Some prop \<Rightarrow>
          (case prop sc_kPropertiesName of
             None \<Rightarrow> (OK, blob_file_size_diff)
           | Some prop_slice \<Rightarrow>
               (case sc_Decode prop_slice [] of
                  None \<Rightarrow> (Corruption ''Failed to decode blob file size property.'', blob_file_size_diff)
                | Some (blob_file_sizes, _) \<Rightarrow>
                    (OK, fold (\<lambda>(file_number, sz) d. map_set file_number (diff_at d file_number + (if to_add then sz else - sz)) d)
                           blob_file_sizes blob_file_size_diff))))"

definition ExtractBlobValidationFromTableProperty :: "(string \<rightharpoonup> bytes) option \<Rightarrow> entries_map \<Rightarrow> status \<times> entries_map" where
  "ExtractBlobValidationFromTableProperty table_properties blob_validation_diff_index =
     (case table_properties of
        None \<Rightarrow> (OK, blob_validation_diff_index)
      | Some prop \<Rightarrow>
          (case prop vc_kPropertiesName of
             None \<Rightarrow> (OK, blob_validation_diff_index)
           | Some prop_slice \<Rightarrow>
               let (ok, m, _) = vc_Decode prop_slice blob_validation_diff_index
               in (if ok then OK else Corruption ''Failed to decode blob file size property.'', m)))"

section \<open>What the properties say\<close>

text \<open>The blob indexes among the entries of a table file, and what they say of one blob file.\<close>

definition entry_index :: "bytes \<times> EntryType \<Rightarrow> BlobIndex option" where
  "entry_index e = (if snd e \<noteq> kEntryBlobIndex then None else map_option fst (ok_option (BlobIndex_DecodeFrom (fst e))))"

definition indexes_of :: "(bytes \<times> EntryType) list \<Rightarrow> u64 \<Rightarrow> BlobHandle list" where
  "indexes_of es f = map bi_blob_handle (filter (\<lambda>i. bi_file_number i = f) (List.map_filter entry_index es))"

definition sc_collect :: "(bytes \<times> EntryType) list \<Rightarrow> sizes_map" where
  "sc_collect es = fold (\<lambda>(v, t) m. snd (sc_AddUserKey v t m)) es []"

definition vc_collect :: "(bytes \<times> EntryType) list \<Rightarrow> entries_map" where
  "vc_collect es = fold (\<lambda>(v, t) m. snd (vc_AddUserKey v t m)) es []"

definition entries_at :: "entries_map \<Rightarrow> u64 \<Rightarrow> u64 list" where
  "entries_at m f = (case map_of m f of None \<Rightarrow> [] | Some is \<Rightarrow> is)"

definition map_sorted :: "(u64 \<times> 'v) list \<Rightarrow> bool" where
  "map_sorted m \<longleftrightarrow> sorted_wrt (<) (map fst m)"

lemma map_of_map_set: "map_of (map_set k v m) = (map_of m)(k \<mapsto> v)"
  by (induction k v m rule: map_set.induct) (auto simp: fun_eq_iff)

lemma diff_at_map_set [simp]: "diff_at (map_set k v m) f = (if f = k then v else diff_at m f)"
  by (simp add: diff_at_def map_of_map_set)

lemma diff_at_Nil [simp]: "diff_at [] f = 0"
  by (simp add: diff_at_def)

lemma set_map_set: "fst ` set (map_set k v m) = insert k (fst ` set m)"
  by (induction k v m rule: map_set.induct) auto

lemma map_sorted_map_set: "map_sorted m \<Longrightarrow> map_sorted (map_set k v m)"
proof (induction k v m rule: map_set.induct)
  case (2 k v k' v' m)
  then show ?case
    using set_map_set [of k v m] by (auto simp: map_sorted_def image_iff set_eq_iff dest: less_trans)
      (metis (mono_tags, lifting) fst_conv image_eqI insert_iff linorder_neqE)
qed (simp add: map_sorted_def)

lemma map_set_last: "\<forall>k'\<in>fst ` set m. k' < k \<Longrightarrow> map_set k v m = m @ [(k, v)]"
  by (induction k v m rule: map_set.induct) auto

lemma length_map_set: "length (map_set k v m) \<le> Suc (length m)"
  by (induction k v m rule: map_set.induct) auto

lemma sc_AddUserKey_index:
  "snd (sc_AddUserKey v t m) =
     (case entry_index (v, t) of None \<Rightarrow> m | Some i \<Rightarrow> map_set (bi_file_number i) (diff_at m (bi_file_number i) + bh_size (bi_blob_handle i)) m)"
  by (simp add: sc_AddUserKey_def entry_index_def diff_at_def split: sum.splits option.splits prod.splits)

lemma vc_AddUserKey_index:
  "snd (vc_AddUserKey v t m) = (case entry_index (v, t) of None \<Rightarrow> m | Some i \<Rightarrow> push_index (bi_file_number i) (bh_index (bi_blob_handle i)) m)"
  by (simp add: vc_AddUserKey_def entry_index_def split: sum.splits option.splits prod.splits)

lemma sc_collect_facts:
  "map_sorted m \<Longrightarrow> (let m' = fold (\<lambda>(v, t) m. snd (sc_AddUserKey v t m)) es m in
     map_sorted m' \<and> length m' \<le> length m + length (List.map_filter entry_index es) \<and>
     (\<forall>f. diff_at m' f = diff_at m f + sum_list (map bh_size (indexes_of es f))))"
proof (induction es arbitrary: m)
  case (Cons e es)
  obtain v t where e: "e = (v, t)" by fastforce
  let ?m = "snd (sc_AddUserKey v t m)"
  have "map_sorted ?m" using Cons.prems map_sorted_map_set by (auto simp: sc_AddUserKey_index split: option.splits)
  moreover have "length ?m \<le> length m + (case entry_index (v, t) of None \<Rightarrow> 0 | Some _ \<Rightarrow> 1)"
    using length_map_set by (auto simp: sc_AddUserKey_index split: option.splits)
  moreover have "diff_at ?m f + sum_list (map bh_size (indexes_of es f)) = diff_at m f + sum_list (map bh_size (indexes_of (e # es) f))" for f
    by (auto simp: sc_AddUserKey_index indexes_of_def map_filter_simps e algebra_simps split: option.splits)
  ultimately show ?case using Cons.IH [of ?m] by (auto simp: Let_def e map_filter_simps split: option.splits)
qed (simp add: indexes_of_def map_filter_simps)

lemma sc_Decode_loop_Encode:
  assumes "map_sorted (m0 @ m)"
  shows "sc_Decode_loop (length m) (concat (map (\<lambda>(f, s). PutVarint64 f @ PutVarint64 s) m)) m0 = Some (m0 @ m, [])"
  using assms
proof (induction m arbitrary: m0)
  case (Cons fs m)
  obtain f s where fs: "fs = (f, s)" by fastforce
  have "map_set f s m0 = m0 @ [(f, s)]"
    using Cons.prems by (intro map_set_last) (auto simp: map_sorted_def fs sorted_wrt_append)
  then show ?case using Cons.IH [of "m0 @ [(f, s)]"] Cons.prems by (simp add: fs)
qed simp

lemma sc_roundtrip:
  assumes "map_sorted m" "length m < 2 ^ 32"
  shows "sc_Decode (sc_Encode m) [] = Some (m, [])"
  using sc_Decode_loop_Encode [of "[]" m] assms by (simp add: sc_Decode_def sc_Encode_def unat_of_nat take_bit_nat_eq_self)

lemma extract_fold:
  "distinct (map fst m) \<Longrightarrow>
     diff_at (fold (\<lambda>(n, sz) d. map_set n (diff_at d n + (if to_add then sz else - sz)) d) m d) f =
       diff_at d f + (if to_add then diff_at m f else - diff_at m f)"
proof (induction m arbitrary: d)
  case (Cons nz m)
  obtain n sz where nz: "nz = (n, sz)" by fastforce
  have "n = f \<Longrightarrow> diff_at m f = 0" using Cons.prems nz by (auto simp: diff_at_def dest: map_of_SomeD split: option.splits) (metis fst_conv image_eqI)
  moreover have "diff_at (nz # m) f = (if f = n then sz else diff_at m f)" by (simp add: diff_at_def nz)
  ultimately show ?case using Cons nz by (auto simp: algebra_simps)
qed simp

lemma map_sorted_distinct: "map_sorted m \<Longrightarrow> distinct (map fst m)"
  by (simp add: map_sorted_def strict_sorted_iff)

lemma ExtractGCStats_collect:
  assumes "length (List.map_filter entry_index es) < 2 ^ 32" "properties sc_kPropertiesName = None"
  shows "fst (ExtractGCStatsFromTableProperty (Some (snd (sc_Finish (sc_collect es) properties))) to_add d) = OK"
    and "diff_at (snd (ExtractGCStatsFromTableProperty (Some (snd (sc_Finish (sc_collect es) properties))) to_add d)) f =
      diff_at d f + (if to_add then sum_list (map bh_size (indexes_of es f)) else - sum_list (map bh_size (indexes_of es f)))"
proof -
  have f: "map_sorted (sc_collect es)" "length (sc_collect es) < 2 ^ 32" "\<And>f. diff_at (sc_collect es) f = sum_list (map bh_size (indexes_of es f))"
    using sc_collect_facts [of "[]" es] assms(1) by (auto simp: sc_collect_def map_sorted_def Let_def)
  have e: "fst (ExtractGCStatsFromTableProperty (Some (snd (sc_Finish (sc_collect es) properties))) to_add d) = OK \<and>
      snd (ExtractGCStatsFromTableProperty (Some (snd (sc_Finish (sc_collect es) properties))) to_add d) =
        fold (\<lambda>(n, sz) d. map_set n (diff_at d n + (if to_add then sz else - sz)) d) (sc_collect es) d"
    using assms(2) sc_roundtrip [OF f(1,2)] by (simp add: ExtractGCStatsFromTableProperty_def sc_Finish_def)
  show "fst (ExtractGCStatsFromTableProperty (Some (snd (sc_Finish (sc_collect es) properties))) to_add d) = OK" using e by blast
  show "diff_at (snd (ExtractGCStatsFromTableProperty (Some (snd (sc_Finish (sc_collect es) properties))) to_add d)) f =
      diff_at d f + (if to_add then sum_list (map bh_size (indexes_of es f)) else - sum_list (map bh_size (indexes_of es f)))"
    unfolding e [THEN conjunct2] using extract_fold [OF map_sorted_distinct [OF f(1)]] by (simp add: f(3))
qed

lemma entries_at_push [simp]: "entries_at (push_index f i m) g = (if g = f then entries_at m g @ [i] else entries_at m g)"
  by (induction f i m rule: push_index.induct) (auto simp: entries_at_def)

lemma entries_at_pushes: "entries_at (fold (push_index f) is m) g = (if g = f then entries_at m g @ is else entries_at m g)"
  by (induction "is" arbitrary: m) auto

lemma push_index_keys: "fst ` set (push_index f i m) = insert f (fst ` set m)"
  by (induction f i m rule: push_index.induct) auto

lemma push_index_distinct: "distinct (map fst m) \<Longrightarrow> distinct (map fst (push_index f i m))"
proof (induction f i m rule: push_index.induct)
  case (2 f i f' "is" m)
  then show ?case using push_index_keys [of f i m] by (auto simp flip: set_map)
qed simp

definition vc_total :: "entries_map \<Rightarrow> nat" where
  "vc_total m = sum_list (map (length \<circ> snd) m)"

lemma vc_total_push: "vc_total (push_index f i m) = Suc (vc_total m)"
  by (induction f i m rule: push_index.induct) (simp_all add: vc_total_def)

lemma length_push_index: "length (push_index f i m) \<le> Suc (length m)"
  by (induction f i m rule: push_index.induct) simp_all

lemma vc_collect_facts:
  "distinct (map fst m) \<Longrightarrow> (let m' = fold (\<lambda>(v, t) m. snd (vc_AddUserKey v t m)) es m in
     distinct (map fst m') \<and> length m' \<le> length m + length (List.map_filter entry_index es) \<and>
     vc_total m' = vc_total m + length (List.map_filter entry_index es) \<and>
     (\<forall>f. entries_at m' f = entries_at m f @ map bh_index (indexes_of es f)))"
proof (induction es arbitrary: m)
  case (Cons e es)
  obtain v t where e: "e = (v, t)" by fastforce
  let ?m = "snd (vc_AddUserKey v t m)" and ?n = "(case entry_index (v, t) of None \<Rightarrow> 0 | Some _ \<Rightarrow> 1) :: nat"
  have "distinct (map fst ?m)" using Cons.prems push_index_distinct by (auto simp: vc_AddUserKey_index split: option.splits)
  moreover have "length ?m \<le> length m + ?n" "vc_total ?m = vc_total m + ?n"
    using length_push_index by (auto simp: vc_AddUserKey_index vc_total_push split: option.splits)
  moreover have "entries_at ?m f @ map bh_index (indexes_of es f) = entries_at m f @ map bh_index (indexes_of (e # es) f)" for f
    by (auto simp: vc_AddUserKey_index indexes_of_def map_filter_simps e split: option.splits)
  ultimately show ?case using Cons.IH [of ?m] by (auto simp: Let_def e map_filter_simps split: option.splits)
qed (simp add: indexes_of_def map_filter_simps)

lemma vc_Decode_entries_Encode:
  "vc_Decode_entries f (length is) (concat (map PutVarint64 is) @ rest) m = (True, fold (push_index f) is m, rest)"
  by (induction "is" arbitrary: m) auto

lemma vc_Decode_loop_Encode:
  "list_all (\<lambda>(f, is). length is < 2 ^ 32) m \<Longrightarrow>
   vc_Decode_loop (length m) (concat (map (\<lambda>(f, is). PutVarint64 f @ PutVarint32 (of_nat (length is)) @ concat (map PutVarint64 is)) m)) m0 =
     (True, fold (\<lambda>(f, is). fold (push_index f) is) m m0, [])"
proof (induction m arbitrary: m0)
  case (Cons fi m)
  obtain f "is" where fi: "fi = (f, is)" by fastforce
  then have "unat (of_nat (length is) :: u32) = length is" using Cons.prems by (simp add: unat_of_nat take_bit_nat_eq_self)
  then show ?case using Cons fi by (simp add: vc_Decode_entries_Encode)
qed simp

lemma vc_fold_entries: "distinct (map fst m) \<Longrightarrow> entries_at (fold (\<lambda>(f, is). fold (push_index f) is) m m0) g = entries_at m0 g @ entries_at m g"
proof (induction m arbitrary: m0)
  case (Cons fi m)
  obtain f "is" where fi: "fi = (f, is)" by fastforce
  then have "g = f \<Longrightarrow> entries_at m g = []" using Cons.prems by (auto simp: entries_at_def dest: map_of_SomeD split: option.splits) (metis fst_conv image_eqI)
  moreover have "entries_at (fi # m) g = (if g = f then is else entries_at m g)" by (simp add: entries_at_def fi)
  ultimately show ?case using Cons fi by (simp add: entries_at_pushes)
qed (simp add: entries_at_def)

lemma ExtractBlobValidation_collect:
  assumes "length (List.map_filter entry_index es) < 2 ^ 32" "properties vc_kPropertiesName = None"
  shows "fst (ExtractBlobValidationFromTableProperty (Some (snd (vc_Finish (vc_collect es) properties))) m0) = OK"
    and "entries_at (snd (ExtractBlobValidationFromTableProperty (Some (snd (vc_Finish (vc_collect es) properties))) m0)) f =
      entries_at m0 f @ map bh_index (indexes_of es f)"
proof -
  let ?m = "vc_collect es"
  have f: "distinct (map fst ?m)" "length ?m < 2 ^ 32" "vc_total ?m < 2 ^ 32" "\<And>f. entries_at ?m f = map bh_index (indexes_of es f)"
    using vc_collect_facts [of "[]" es] assms(1) by (auto simp: vc_collect_def vc_total_def Let_def entries_at_def)
  have "length is \<le> vc_total ?m" if "(f, is) \<in> set ?m" for f "is"
  proof -
    have "length is \<in> set (map (length \<circ> snd) ?m)" using image_eqI [OF _ that, of _ "length \<circ> snd"] by simp
    then show ?thesis unfolding vc_total_def by (rule member_le_sum_list) simp
  qed
  then have "list_all (\<lambda>(f, is). length is < 2 ^ 32) ?m" using f(3) by (fastforce simp: list_all_iff)
  then have "vc_Decode (vc_Encode ?m) m0 = (True, fold (\<lambda>(f, is). fold (push_index f) is) ?m m0, [])"
    using vc_Decode_loop_Encode [of ?m m0] f(2) by (simp add: vc_Decode_def vc_Encode_def unat_of_nat take_bit_nat_eq_self)
  then have e: "ExtractBlobValidationFromTableProperty (Some (snd (vc_Finish ?m properties))) m0 = (OK, fold (\<lambda>(f, is). fold (push_index f) is) ?m m0)"
    using assms(2) by (simp add: ExtractBlobValidationFromTableProperty_def vc_Finish_def)
  show "fst (ExtractBlobValidationFromTableProperty (Some (snd (vc_Finish ?m properties))) m0) = OK" by (simp add: e)
  show "entries_at (snd (ExtractBlobValidationFromTableProperty (Some (snd (vc_Finish ?m properties))) m0)) f = entries_at m0 f @ map bh_index (indexes_of es f)"
    by (simp add: e vc_fold_entries [OF f(1)] f(4))
qed

text \<open>
  C7: the properties a table file is written with say what its entries refer to. Read back after a
  flush or compaction, they add to (or take from) the account of every blob file exactly the total
  size of the records the table's blob indexes refer to in it, and list exactly the entries of that
  file they refer to, in order.
\<close>

theorem collected_properties:
  assumes "length (List.map_filter entry_index es) < 2 ^ 32" "properties sc_kPropertiesName = None" "properties vc_kPropertiesName = None"
    and "sc_Finish (sc_collect es) properties = (s1, properties1)" "vc_Finish (vc_collect es) properties1 = (s2, properties2)"
    and "ExtractGCStatsFromTableProperty (Some properties2) to_add d = (s3, d')"
    and "ExtractBlobValidationFromTableProperty (Some properties2) m = (s4, m')"
  shows "s1 = OK \<and> s2 = OK \<and> s3 = OK \<and> s4 = OK \<and>
    (\<forall>f. diff_at d' f = diff_at d f + (if to_add then sum_list (map bh_size (indexes_of es f)) else - sum_list (map bh_size (indexes_of es f)))) \<and>
    (\<forall>f. entries_at m' f = entries_at m f @ map bh_index (indexes_of es f))"
proof -
  have n: "sc_kPropertiesName \<noteq> vc_kPropertiesName" by (simp add: sc_kPropertiesName_def vc_kPropertiesName_def)
  have ok: "s1 = OK" "s2 = OK" "properties1 = snd (sc_Finish (sc_collect es) properties)" "properties2 = snd (vc_Finish (vc_collect es) properties1)"
    using assms(4,5) by (auto simp: sc_Finish_def vc_Finish_def split: if_splits)
  have "properties2 sc_kPropertiesName = properties1 sc_kPropertiesName" "properties1 vc_kPropertiesName = None"
    using n assms(3) by (simp_all add: ok(3,4) sc_Finish_def vc_Finish_def split: option.splits)
  then have "ExtractGCStatsFromTableProperty (Some properties2) to_add d = ExtractGCStatsFromTableProperty (Some properties1) to_add d"
    "properties1 vc_kPropertiesName = None"
    by (simp_all add: ExtractGCStatsFromTableProperty_def)
  then show ?thesis
    using ExtractGCStats_collect [of es properties to_add d, OF assms(1,2)] ExtractBlobValidation_collect [of es properties1 m, OF assms(1)] assms(6,7)
    by (simp add: ok)
qed

definition demo_table :: "(bytes \<times> EntryType) list" where
  "demo_table = map (\<lambda>(f, sz, ix). (BlobIndex_EncodeTo \<lparr> bi_file_number = f, bi_blob_handle = \<lparr> bh_offset = 0, bh_size = sz, bh_index = ix \<rparr>,
     bi_old_file_number = 0, bi_old_blob_handle = BlobHandle_default \<rparr>, kEntryBlobIndex)) [(7, 10, 1), (3, 20, 5), (7, 30, 2)]"

theorem collected_properties_witness:
  "diff_at (snd (ExtractGCStatsFromTableProperty (Some (snd (vc_Finish (vc_collect demo_table) (snd (sc_Finish (sc_collect demo_table) Map.empty))))) False [])) 7 = - 40 \<and>
   entries_at (snd (ExtractBlobValidationFromTableProperty (Some (snd (vc_Finish (vc_collect demo_table) (snd (sc_Finish (sc_collect demo_table) Map.empty))))) [])) 7 = [1, 2]"
proof -
  have i: "length (List.map_filter entry_index demo_table) = 3" "indexes_of demo_table 7 = [\<lparr> bh_offset = 0, bh_size = 10, bh_index = 1 \<rparr>, \<lparr> bh_offset = 0, bh_size = 30, bh_index = 2 \<rparr>]"
    by code_simp+
  from collected_properties [of demo_table Map.empty, OF _ _ _ surjective_pairing surjective_pairing surjective_pairing surjective_pairing, of False "[]" "[]"]
  show ?thesis using i by (simp add: entries_at_def)
qed

end
