(* ===== verification/Spec2Isabelle.thy ===== *)
theory Spec2Isabelle
  imports Manifest Gc_Correct Write_Back Gc_Schedule Collectors
begin

text \<open>
  A verification library for Titan with the AegonKV extensions: a plugin for RocksDB that keeps large
  values in blob files and only their positions (blob indexes) in the LSM tree, and that collects the
  garbage in the blob files on the host or on an FPGA kernel in the storage device.

  \<^bold>\<open>The program.\<close> A flush or compaction of the base database hands large values to a blob file
  builder, which writes records into a blob file. The file set keeps, per column family, the metadata
  of the blob files and logs every change in a manifest. Reads decode a blob index and fetch the
  record through a cache of readers. Collectors note for every table file which records its
  entries refer to; from these the live size of every blob file is known, and the picker chooses the files
  that are worth collecting. A job then copies the records that are still referred to into a new
  file, rewrites their keys in the base database, and deletes the inputs once no snapshot can see
  them. Offloaded, the copying is done by the kernel, and the keys are rewritten without a check;
  the base database makes up for this when it reads the memtable and when it merges versions.

  \<^bold>\<open>Foundations.\<close>
  \<^item> \<open>Titan_Prelude\<close>: machine integers as words, \<open>Status\<close> as a datatype with an extra value for
    undefined behaviour and failed assertions, and the interfaces \<open>codec\<close> and \<open>status_codec\<close> that every
    format of the development is an instance of.
  \<^item> \<open>Coding\<close> (\<open>util/coding.h\<close>, \<open>util/coding.cc\<close>, \<open>util/coding_lean.h\<close>), \<open>Crc32c\<close>
    (\<open>util/crc32c.cc\<close>, \<open>crc32c.h\<close> of the kernel), \<open>Bit_Map\<close> (\<open>blob_validation_check.cc\<close>),
    \<open>Titan_Stats\<close> (\<open>titan_stats.h\<close>), \<open>Titan_Options\<close> (\<open>options.cc\<close>; also the interface \<open>comparator\<close>),
    \<open>Db_Format\<close> (\<open>db/dbformat.h\<close>): round trips, and equivalence of the unrolled, sliced, word-wise and
    pipelined routines with their plain definitions.

  \<^bold>\<open>Files and metadata.\<close>
  \<^item> \<open>Blob_Format\<close> (\<open>blob_format.cc\<close>): records, handles, indexes, headers, footers and file metadata
    with its states; round trips, what a successful decoding certifies, the life cycle of a file.
  \<^item> \<open>Version_Edit\<close>, \<open>Blob_Storage\<close>, \<open>Blob_File_Set\<close>, \<open>Manifest\<close> (\<open>version_edit.cc\<close>,
    \<open>blob_storage.cc\<close>, \<open>blob_file_set.cc\<close>, \<open>edit_collector.h\<close>): the storage of a column family and
    its invariant, deletion of obsolete files, atomicity of \<open>LogAndApply\<close>, that recovery from the
    manifest restores the live files after any run of operations, also when its last sync fails, and
    what recovery makes of a damaged manifest.
  \<^item> \<open>Blob_File_Builder\<close>, \<open>Blob_File_Reader\<close> (\<open>blob_file_builder.cc\<close>, \<open>blob_file_reader.cc\<close>,
    \<open>blob_file_cache.cc\<close>): the file a builder produces, that every record in it is read back, and
    how the error of a write can be lost.
  \<^item> \<open>Blob_File_Iterator\<close>, \<open>Blob_File_Merge_Iterator\<close> (\<open>blob_file_iterator.cc\<close>): the iterators return,
    and go through exactly the records of their files.
  \<^item> \<open>Titan_Files\<close> (\<open>db_impl.cc\<close>, \<open>db_impl_files.cc\<close>): the file manager, the purge of obsolete files
    and the background error. The disk holds blob files only.

  \<^bold>\<open>Reads.\<close> \<open>Base_Db\<close> is what Titan sees of the base database: the newest version of every key, with
  reads that may fail and writers in between. \<open>Titan_Read\<close> (\<open>db_impl.cc\<close>, \<open>db_iter.h\<close>,
  \<open>blob_storage.cc\<close>) models \<open>Get\<close>, \<open>MultiGet\<close> and the iterator over it.

  \<^bold>\<open>Garbage collection.\<close>
  \<^item> \<open>Collectors\<close> (\<open>blob_file_size_collector.cc\<close>, \<open>blob_validation_collector.cc\<close>, \<open>db_impl_gc.cc\<close>): the
    table properties and what is read from them.
  \<^item> \<open>Gc_Schedule\<close> (\<open>db_impl_gc.cc\<close>, \<open>db_impl.h\<close>, \<open>db_impl.cc\<close>): queue, counters, jobs, drop requests
    and the closing of the database as a step relation, one step per section that holds the mutex; no
    request is lost, and what a failed drop and the joining of the threads do to the jobs.
  \<^item> \<open>Blob_Gc\<close> (\<open>blob_gc.cc\<close>, \<open>blob_gc_picker.cc\<close>): what is picked.
  \<^item> \<open>Gc_Job\<close> (\<open>blob_gc_job.cc\<close>): a job with all its phases. \<open>Gc_Rewrite\<close> shows that the rewriting of
    keys never changes what a key reads as, however far it gets; \<open>Gc_Collect\<close> relates the loop of the job to
    the list of records it meets; \<open>Gc_Correct\<close> puts everything together: the collection
    returns, keeps every value, and leaves no reference to an input.
  \<^item> \<open>Gc_Kernel\<close>, \<open>Gc_Driver\<close> (\<open>gc_kernel.cc\<close>, \<open>file_format.h\<close>, \<open>hadware_gc_driver.cc\<close>): the kernel on
    device memory and the driver around it; the offloaded run yields exactly the live records.
  \<^item> \<open>Write_Back\<close> (\<open>db/memtable.cc\<close>, \<open>db/memtable_list.cc\<close>, \<open>db/compaction/compaction_iterator.cc\<close>,
    \<open>db/db_impl/db_impl.cc\<close>): where the base database resolves the indexes of an offloaded run, and
    where it does not.

  \<^bold>\<open>Conventions.\<close> A C++ object is a record and its methods are functions that return it updated; a
  method with a status returns it, or \<open>status + 'a\<close>. An assertion is a branch to \<open>Undefined\<close> where there
  is a status, and otherwise a predicate beside the function (\<open>transit_assert\<close>, \<open>EncodeSlice_assert\<close>).
  Words wrap as in C++. A \<open>shared_ptr\<close> to file
  metadata is the number of the file in its storage. An \<open>unordered_map\<close> is an association list, a
  possible order of its elements. Doubles are exact rationals. What is outside the sources is a
  parameter: compression and dictionary training, block formats of the base table (\<open>BuilderLib\<close>,
  \<open>ReaderLib\<close>), the outcome of every file operation, the answers and the other writers of the base database
  (\<open>GcEnv\<close>, \<open>FilesEnv\<close>, \<open>ManifestIO\<close>). Hypotheses on them are named (\<open>io_ok\<close>, \<open>reads_ok\<close>,
  \<open>libs_agree\<close>, \<open>comparator\<close>, \<open>not_busy\<close>, \<open>foreign_good\<close>, \<open>reads_stable\<close>).

  \<^bold>\<open>Loops.\<close> Loops that are bounded by their data are recursive functions. Those of the iterators and of
  the collection may not end for a general environment, and are partial functions into \<open>option\<close>;
  \<open>iterator_returns\<close> and \<open>garbage_collection_correct\<close> state that they return. The drain of the
  compaction iterator has one unit of fuel more than its queue has entries, which the proof shows to be
  enough.

  \<^bold>\<open>Not modelled.\<close> The table builder and its factory (they drive builders of the base database that are not
  part of Titan), the event handlers for finished flushes and compactions, deletion of files in ranges at the database
  level, the compaction filter, checkpoints, the opening of the database, garbage collection on the
  host with bitmaps beyond its definitions, checksum instructions of the processor, the OpenCL runtime,
  logging, timers, histograms, and the command line tools. Of RocksDB only what the extensions change
  and what the formats need is modelled.
\<close>

end
